(* ===== verification/Prelude.thy ===== *)
theory Prelude
  imports Main "HOL-Library.Multiset" "HOL-Library.AList" "HOL-Library.List_Lexorder"
    "HOL-Library.Char_ord"
begin

section \<open>Shared vocabulary of the development\<close>

text \<open>
  What every component theory uses: results that can be an error or a panic, the choices a
  Go program leaves to its run time (the order of a \<^verbatim>\<open>range\<close> over a map, the order
  in which an unstable sort leaves equal elements), comparison functions and sorting, and Go
  maps as association lists.
\<close>

named_theorems res_simps \<open>unfolding of results\<close>
named_theorems map_simps \<open>association lists as Go maps\<close>
named_theorems cmp_intros \<open>comparison functions are preorders\<close>

subsection \<open>Results\<close>

text \<open>
  A Go function that returns \<open>(T, error)\<close> and may panic returns one of three things:
  \<open>Inr v\<close> is a value with a nil error, \<open>Inl (Fail e)\<close> a non-nil error and
  \<open>Inl (Panic p)\<close> a run-time panic.  The constructors of \<open>go_error\<close> name the error
  returns of the source and carry the values their messages print; \<open>External\<close> is an error
  that a call out of the program returned.
\<close>

type_synonym go_string = string

datatype go_error =
    External string
  | ImageHasNoDigest string
  | DuplicateRelation string string string
  | DigestMismatch string string
  | CopyDigestMismatch string string
  | ListRelatedFailed string go_error
  | RelatedHasNoDigest string
  | NoIndexManifest string
  | NoImagesToUpdate
  | MutationAlreadyRegistered string string
  | CannotMakeRelative string string
  | PathDoesNotExist string
  | PathNotAccessible string
  | NoFilesFound string
  | MissingSHA256
  | SubjectZeroEntries
  | SubjectMultipleEntries
  | NilPathChecker nat
  | EmptyGroup nat
  | PathCheckerRegistered string string
  | StatementNotRelevant string string
  | PathNotChecked string
  | UnsupportedMode string
  | UnsupportedObjectType
  | NotAScalar
  | NotACollection
  | MediaTypeMismatch string string
  | MultipleLayers string
  | MultipleManifests string
  | NoLayers string
  | NoManifests string
  | UnexpectedArguments
  | InvalidOutputImage string string
  | InvalidLogLevel string
  | NoImagesFound string
  | InvalidTarName string
  | NotADirectory string
  | WroteTooLittle string
  | TokenTooLong
  | UnsupportedOutputFormat string
  | NoReferenceDigest string
  | NoStatementSubject string
  | NoSubjectDigest string
  | NoAttestationSubject string
  | DuplicateSBOM string
  | DuplicateInlineAttestation string
  | UnexpectedMediaType string string
  | MalformedSBOM
  | UnexpectedBundle string string
  | Wrapped string go_error

datatype go_panic =
    EmptySources
  | IndexOutOfRange
  | NilDereference
  | FailedTypeAssertion
  | EncodingFailed

datatype fault = Fail go_error | Panic go_panic

type_synonym 'a res = "fault + 'a"

fun rbind :: "'a res \<Rightarrow> ('a \<Rightarrow> 'b res) \<Rightarrow> 'b res" where
  "rbind (Inl f) k = Inl f"
| "rbind (Inr x) k = k x"

definition rmap :: "('a \<Rightarrow> 'b) \<Rightarrow> 'a res \<Rightarrow> 'b res" where
  "rmap f r = rbind r (\<lambda>x. Inr (f x))"

definition no_panic :: "'a res \<Rightarrow> bool" where
  "no_panic r \<longleftrightarrow> (case r of Inl (Panic _) \<Rightarrow> False | _ \<Rightarrow> True)"

text \<open>\<^verbatim>\<open>fmt.Errorf("...: %w", err)\<close>: an error wrapped in a message; a panic goes through.\<close>

fun wrap :: "string \<Rightarrow> 'a res \<Rightarrow> 'a res" where
  "wrap msg (Inl (Fail e)) = Inl (Fail (Wrapped msg e))"
| "wrap msg (Inl (Panic p)) = Inl (Panic p)"
| "wrap msg (Inr x) = Inr x"

lemma wrap_Inr_conv [res_simps, simp]: "wrap msg r = Inr x \<longleftrightarrow> r = Inr x"
  by (cases "(msg, r)" rule: wrap.cases) auto

lemma no_panic_wrap [simp]: "no_panic (wrap msg r) = no_panic r"
  by (cases "(msg, r)" rule: wrap.cases) (auto simp: no_panic_def)

text \<open>Run a fallible step over a list from the left and stop at the first fault.\<close>

fun rfold :: "('a \<Rightarrow> 's \<Rightarrow> 's res) \<Rightarrow> 'a list \<Rightarrow> 's \<Rightarrow> 's res" where
  "rfold f [] s = Inr s"
| "rfold f (x # xs) s = rbind (f x s) (rfold f xs)"

fun rmap_list :: "('a \<Rightarrow> 'b res) \<Rightarrow> 'a list \<Rightarrow> 'b list res" where
  "rmap_list f [] = Inr []"
| "rmap_list f (x # xs) = rbind (f x) (\<lambda>y. rbind (rmap_list f xs) (\<lambda>ys. Inr (y # ys)))"

lemma rbind_Inr_conv [res_simps]: "rbind r k = Inr y \<longleftrightarrow> (\<exists>x. r = Inr x \<and> k x = Inr y)"
  by (cases r) auto

lemma rbind_Inl_conv [res_simps]:
  "rbind r k = Inl f \<longleftrightarrow> r = Inl f \<or> (\<exists>x. r = Inr x \<and> k x = Inl f)"
  by (cases r) auto

lemma rmap_Inr [simp]: "rmap f (Inr x) = Inr (f x)"
  by (simp add: rmap_def)

lemma rmap_Inl [simp]: "rmap f (Inl e) = Inl e"
  by (simp add: rmap_def)

lemma rmap_Inr_conv [res_simps]: "rmap f r = Inr y \<longleftrightarrow> (\<exists>x. r = Inr x \<and> y = f x)"
  by (cases r) auto

lemma no_panic_simps [simp]: "no_panic (Inr x)" "no_panic (Inl (Fail e))" "\<not> no_panic (Inl (Panic p))"
  by (simp_all add: no_panic_def)

lemma no_panic_rbind [intro]:
  "no_panic r \<Longrightarrow> (\<And>x. r = Inr x \<Longrightarrow> no_panic (k x)) \<Longrightarrow> no_panic (rbind r k)"
  by (cases r) (auto simp: no_panic_def split: sum.splits fault.splits)

lemma rfold_append: "rfold f (xs @ ys) s = rbind (rfold f xs s) (rfold f ys)"
proof (induction xs arbitrary: s)
  case (Cons x xs)
  then show ?case by (cases "f x s") auto
qed simp

lemma rfold_map: "rfold f (map g xs) s = rfold (f \<circ> g) xs s"
proof (induction xs arbitrary: s)
  case (Cons x xs)
  then show ?case by (cases "f (g x) s") auto
qed simp

lemma rfold_invariant:
  assumes "rfold f xs s = Inr t" and "P s"
    and "\<And>x s t. x \<in> set xs \<Longrightarrow> P s \<Longrightarrow> f x s = Inr t \<Longrightarrow> P t"
  shows "P t"
  using assms
proof (induction xs arbitrary: s)
  case (Cons x xs)
  from Cons.prems(1) obtain u where u: "f x s = Inr u" "rfold f xs u = Inr t"
    by (auto simp: res_simps)
  have "P u" using Cons.prems(2,3) u(1) by auto
  with u(2) show ?case using Cons.IH Cons.prems(3) by auto
qed simp

lemma rfold_total:
  assumes "\<And>x s. x \<in> set xs \<Longrightarrow> f x s = Inr (g x s)"
  shows "rfold f xs s = Inr (fold g xs s)"
  using assms by (induction xs arbitrary: s) auto

lemma rmap_list_Inr_conv:
  "rmap_list f xs = Inr ys \<longleftrightarrow> list_all2 (\<lambda>x y. f x = Inr y) xs ys"
  by (induction xs arbitrary: ys) (auto simp: res_simps list_all2_Cons1)

lemma rmap_list_total: "(\<And>x. x \<in> set xs \<Longrightarrow> f x = Inr (g x)) \<Longrightarrow> rmap_list f xs = Inr (map g xs)"
  by (induction xs) auto

subsection \<open>The choices of the run time\<close>

text \<open>
  Go leaves the iteration order of a map open, and \<^verbatim>\<open>slices.SortFunc\<close> may leave equal
  elements in any order.  An \<open>order\<close> is one way to resolve such a choice: for every length
  \<open>n\<close> a permutation of the positions \<open>0..n-1\<close>.  A definition that makes such a choice
  takes the order as an argument, so a theorem about it holds whatever the run time does.
  \<open>choices\<close> numbers the choices of an operation that makes several.
\<close>

typedef order = "{f :: nat \<Rightarrow> nat list. \<forall>n. mset (f n) = mset [0..<n]}"
  by (rule exI [where x = "\<lambda>n. [0..<n]"]) simp

setup_lifting type_definition_order

lift_definition positions :: "order \<Rightarrow> nat \<Rightarrow> nat list" is "\<lambda>f. f" .

lift_definition in_order :: order is "\<lambda>n. [0..<n]" by simp

lift_definition reversed_order :: order is "\<lambda>n. rev [0..<n]" by simp

lemma positions_in_order [simp]: "positions in_order n = [0..<n]"
  by transfer simp

lemma positions_reversed_order [simp]: "positions reversed_order n = rev [0..<n]"
  by transfer simp

lemma mset_positions: "mset (positions ord n) = mset [0..<n]"
  by transfer simp

type_synonym choices = "nat \<Rightarrow> order"

definition shuffle :: "order \<Rightarrow> 'a list \<Rightarrow> 'a list" where
  "shuffle ord xs = map ((!) xs) (positions ord (length xs))"

lemma mset_shuffle [simp]: "mset (shuffle ord xs) = mset xs"
proof -
  have "mset (shuffle ord xs) = image_mset ((!) xs) (mset [0..<length xs])"
    unfolding shuffle_def mset_map mset_positions ..
  also have "\<dots> = mset (map ((!) xs) [0..<length xs])"
    by (simp only: mset_map)
  finally show ?thesis by (simp only: map_nth)
qed

lemma set_shuffle [simp]: "set (shuffle ord xs) = set xs"
  by (rule mset_eq_setD) simp

lemma length_shuffle [simp]: "length (shuffle ord xs) = length xs"
  by (rule mset_eq_length) simp

lemma distinct_shuffle [simp]: "distinct (shuffle ord xs) \<longleftrightarrow> distinct xs"
  by (rule mset_eq_imp_distinct_iff) simp

lemma shuffle_in_order [simp]: "shuffle in_order xs = xs"
  by (simp add: shuffle_def map_nth)

lemma shuffle_reversed_order [simp]: "shuffle reversed_order xs = rev xs"
  by (simp add: shuffle_def rev_map [symmetric] map_nth)

lemma shuffle_Nil [simp]: "shuffle ord [] = []"
  using length_shuffle [of ord "[]"] by (simp del: length_shuffle)

lemma shuffle_singleton [simp]: "shuffle ord [x] = [x]"
  using mset_shuffle [of ord "[x]"] by (simp del: mset_shuffle)

lemma map_shuffle: "map f (shuffle ord xs) = shuffle ord (map f xs)"
proof -
  have "\<forall>i\<in>set (positions ord (length xs)). i < length xs"
    using mset_positions [of ord "length xs"]
    by (metis atLeastLessThan_iff mset_eq_setD set_upt)
  then show ?thesis by (simp add: shuffle_def)
qed

subsection \<open>Comparison functions and sorting\<close>

text \<open>\<^verbatim>\<open>cmp.Compare\<close> on strings (bytewise) and integers.\<close>

definition cmp_Compare :: "'a::linorder \<Rightarrow> 'a \<Rightarrow> int" where
  "cmp_Compare a b = (if a < b then -1 else if b < a then 1 else 0)"

text \<open>The first non-zero answer decides: \<^verbatim>\<open>if c := f(a, b); c != 0 { return c }; ...\<close>.\<close>

definition cmp_then :: "('a \<Rightarrow> 'a \<Rightarrow> int) \<Rightarrow> ('a \<Rightarrow> 'a \<Rightarrow> int) \<Rightarrow> 'a \<Rightarrow> 'a \<Rightarrow> int" where
  "cmp_then c d a b = (if c a b \<noteq> 0 then c a b else d a b)"

text \<open>\<^verbatim>\<open>slices.Compare\<close>.\<close>

fun slices_Compare :: "'a::linorder list \<Rightarrow> 'a list \<Rightarrow> int" where
  "slices_Compare [] [] = 0"
| "slices_Compare [] (y # ys) = -1"
| "slices_Compare (x # xs) [] = 1"
| "slices_Compare (x # xs) (y # ys) =
     (if cmp_Compare x y \<noteq> 0 then cmp_Compare x y else slices_Compare xs ys)"

lemma cmp_Compare_eq_0 [simp]: "cmp_Compare a b = 0 \<longleftrightarrow> a = b"
  by (auto simp: cmp_Compare_def)

lemma cmp_Compare_le_0 [simp]: "cmp_Compare a b \<le> 0 \<longleftrightarrow> a \<le> b"
  by (auto simp: cmp_Compare_def)

lemma cmp_Compare_less_0 [simp]: "cmp_Compare a b < 0 \<longleftrightarrow> a < b"
  by (auto simp: cmp_Compare_def)

lemma cmp_Compare_refl [simp]: "cmp_Compare a a = 0"
  by simp

lemma slices_Compare_eq_0 [simp]: "slices_Compare xs ys = 0 \<longleftrightarrow> xs = ys"
  by (induction xs ys rule: slices_Compare.induct) auto

text \<open>
  A comparison function is usable for sorting when its sign is antisymmetric and it is
  transitive.  \<open>strict_comparator\<close> adds that only equal values compare as equal, and then a
  sort has one possible outcome.
\<close>

locale comparator =
  fixes cmp :: "'a \<Rightarrow> 'a \<Rightarrow> int"
  assumes cmp_swap: "cmp a b < 0 \<longleftrightarrow> 0 < cmp b a"
    and cmp_trans: "cmp a b \<le> 0 \<Longrightarrow> cmp b c \<le> 0 \<Longrightarrow> cmp a c \<le> 0"
begin

lemma cmp_refl [simp]: "cmp a a = 0"
  using cmp_swap [of a a] by linarith

lemma cmp_total: "cmp a b \<le> 0 \<or> cmp b a \<le> 0"
  using cmp_swap [of a b] cmp_swap [of b a] by linarith

lemma cmp_not_less: "\<not> cmp a b < 0 \<longleftrightarrow> cmp b a \<le> 0"
  using cmp_swap [of a b] by linarith

lemma cmp_zero_sym: "cmp a b = 0 \<Longrightarrow> cmp b a = 0"
  using cmp_swap [of a b] cmp_swap [of b a] by linarith

end

locale strict_comparator = comparator +
  assumes cmp_eq: "cmp a b = 0 \<Longrightarrow> a = b"
begin

lemma cmp_antisym: "cmp a b \<le> 0 \<Longrightarrow> cmp b a \<le> 0 \<Longrightarrow> a = b"
  using cmp_swap [of a b] by (intro cmp_eq) linarith

end

lemma comparator_key [cmp_intros]: "comparator (\<lambda>a b. cmp_Compare (f a) (f b))"
  by unfold_locales (auto simp: cmp_Compare_def split: if_splits)

lemma comparator_then [cmp_intros]:
  assumes "comparator c" and "comparator d"
  shows "comparator (cmp_then c d)"
proof -
  have less: "\<And>a b. c a b < 0 \<longleftrightarrow> 0 < c b a" "\<And>a b. d a b < 0 \<longleftrightarrow> 0 < d b a"
    and trans: "\<And>x y z. c x y \<le> 0 \<Longrightarrow> c y z \<le> 0 \<Longrightarrow> c x z \<le> 0"
      "\<And>x y z. d x y \<le> 0 \<Longrightarrow> d y z \<le> 0 \<Longrightarrow> d x z \<le> 0"
    using assms unfolding comparator_def by blast+
  have swap0: "c a b = 0 \<longleftrightarrow> c b a = 0" for a b
    using less(1) [of a b] less(1) [of b a] by linarith
  show ?thesis
  proof
    fix a b
    show "cmp_then c d a b < 0 \<longleftrightarrow> 0 < cmp_then c d b a"
      using less swap0 [of a b] by (simp add: cmp_then_def)
  next
    fix x y z
    assume xy: "cmp_then c d x y \<le> 0" and yz: "cmp_then c d y z \<le> 0"
    then have cxy: "c x y \<le> 0" and cyz: "c y z \<le> 0"
      by (auto simp: cmp_then_def split: if_splits)
    then have cxz: "c x z \<le> 0" by (rule trans(1))
    show "cmp_then c d x z \<le> 0"
    proof (cases "c x z = 0")
      case True
      then have zx: "c z x \<le> 0" using swap0 [of x z] by simp
      from trans(1) [OF cyz zx] trans(1) [OF zx cxy]
      have "c x y = 0" and "c y z = 0"
        using cxy cyz less(1) [of x y] less(1) [of y z] by linarith+
      with xy yz True show ?thesis by (auto simp: cmp_then_def intro: trans(2))
    qed (use cxz in \<open>simp add: cmp_then_def\<close>)
  qed
qed

lemma comparator_slices [cmp_intros]: "comparator (\<lambda>a b. slices_Compare (f a) (f b))"
proof -
  have "slices_Compare xs ys = cmp_Compare xs ys" for xs ys :: "'b list"
    by (induction xs ys rule: slices_Compare.induct) (auto simp: cmp_Compare_def)
  then show ?thesis by (simp add: comparator_key)
qed

text \<open>
  \<^verbatim>\<open>slices.SortFunc\<close>.  For short slices Go sorts by insertion, for longer ones by
  pattern-defeating quicksort; in both cases the result is a sorted permutation of the input
  and nothing more is promised.  Every sorted permutation is the stable insertion sort of some
  rearrangement of the input, so the model rearranges by an \<open>order\<close> and then inserts.
\<close>

fun insert_by :: "('a \<Rightarrow> 'a \<Rightarrow> int) \<Rightarrow> 'a \<Rightarrow> 'a list \<Rightarrow> 'a list" where
  "insert_by cmp x [] = [x]"
| "insert_by cmp x (y # ys) = (if cmp x y < 0 then x # y # ys else y # insert_by cmp x ys)"

definition SortFunc :: "order \<Rightarrow> ('a \<Rightarrow> 'a \<Rightarrow> int) \<Rightarrow> 'a list \<Rightarrow> 'a list" where
  "SortFunc ord cmp xs = fold (insert_by cmp) (shuffle ord xs) []"

lemma mset_insert_by [simp]: "mset (insert_by cmp x xs) = add_mset x (mset xs)"
  by (induction xs) auto

lemma mset_fold_insert_by: "mset (fold (insert_by cmp) xs ys) = mset xs + mset ys"
  by (induction xs arbitrary: ys) auto

lemma mset_SortFunc [simp]: "mset (SortFunc ord cmp xs) = mset xs"
  by (simp add: SortFunc_def mset_fold_insert_by)

lemma set_SortFunc [simp]: "set (SortFunc ord cmp xs) = set xs"
  by (rule mset_eq_setD) simp

lemma length_SortFunc [simp]: "length (SortFunc ord cmp xs) = length xs"
  by (rule mset_eq_length) simp

lemma distinct_SortFunc [simp]: "distinct (SortFunc ord cmp xs) \<longleftrightarrow> distinct xs"
  by (rule mset_eq_imp_distinct_iff) simp

lemma SortFunc_Nil [simp]: "SortFunc ord cmp [] = []"
  by (simp add: SortFunc_def)

lemma SortFunc_singleton [simp]: "SortFunc ord cmp [x] = [x]"
  by (simp add: SortFunc_def)

lemma SortFunc_cong:
  assumes "\<And>a b. a \<in> set xs \<Longrightarrow> b \<in> set xs \<Longrightarrow> c a b = d a b"
  shows "SortFunc ord c xs = SortFunc ord d xs"
proof -
  have ins: "insert_by c x ys = insert_by d x ys" if "x \<in> set xs" "set ys \<subseteq> set xs" for x ys
    using that assms by (induction ys) auto
  have "fold (insert_by c) zs ys = fold (insert_by d) zs ys"
    if "set zs \<subseteq> set xs" "set ys \<subseteq> set xs" for zs ys
    using that
  proof (induction zs arbitrary: ys)
    case (Cons z zs)
    have "set (insert_by d z ys) = insert z (set ys)"
      using mset_insert_by [of d z ys] by (metis set_mset_add_mset_insert set_mset_mset)
    with Cons ins [of z ys] show ?case by auto
  qed simp
  then show ?thesis by (simp add: SortFunc_def)
qed

context comparator
begin

lemma sorted_insert_by:
  assumes "sorted_wrt (\<lambda>a b. cmp a b \<le> 0) xs"
  shows "sorted_wrt (\<lambda>a b. cmp a b \<le> 0) (insert_by cmp x xs)"
  using assms
proof (induction xs)
  case (Cons y ys)
  have elems: "set (insert_by cmp x ys) = insert x (set ys)"
    using mset_insert_by [of cmp x ys] by (metis set_mset_add_mset_insert set_mset_mset)
  show ?case
  proof (cases "cmp x y < 0")
    case True
    with Cons.prems show ?thesis by (auto intro: cmp_trans [of x y])
  next
    case False
    then have "cmp y x \<le> 0" by (simp add: cmp_not_less)
    with Cons False show ?thesis by (simp add: elems)
  qed
qed simp

lemma sorted_SortFunc: "sorted_wrt (\<lambda>a b. cmp a b \<le> 0) (SortFunc ord cmp xs)"
proof -
  have "sorted_wrt (\<lambda>a b. cmp a b \<le> 0) ys \<Longrightarrow>
      sorted_wrt (\<lambda>a b. cmp a b \<le> 0) (fold (insert_by cmp) zs ys)" for ys zs
    by (induction zs arbitrary: ys) (auto intro: sorted_insert_by)
  then show ?thesis by (simp add: SortFunc_def)
qed

end

context comparator
begin

text \<open>
  Where different elements never compare as equal, two sorted permutations of the same elements
  are the same list, whatever order the sort left ties in.
\<close>

lemma sorted_unique_on:
  assumes "mset xs = mset ys"
    and "sorted_wrt (\<lambda>a b. cmp a b \<le> 0) xs" and "sorted_wrt (\<lambda>a b. cmp a b \<le> 0) ys"
    and "\<And>a b. a \<in> set xs \<Longrightarrow> b \<in> set xs \<Longrightarrow> cmp a b = 0 \<Longrightarrow> a = b"
  shows "xs = ys"
  using assms
proof (induction xs arbitrary: ys)
  case (Cons x xs)
  then obtain z zs where ys: "ys = z # zs" by (cases ys) auto
  have mem: "x \<in> set ys" "z \<in> set (x # xs)"
    using Cons.prems(1) ys by (metis list.set_intros(1) mset_eq_setD)+
  have "cmp x z \<le> 0" and "cmp z x \<le> 0"
    using Cons.prems(2,3) ys mem by auto
  then have "cmp x z = 0" using cmp_swap [of x z] by linarith
  then have "x = z" using Cons.prems(4) mem by simp
  with Cons ys show ?case by auto
qed simp

lemma SortFunc_unique_on:
  assumes "mset xs = mset ys"
    and "\<And>a b. a \<in> set xs \<Longrightarrow> b \<in> set xs \<Longrightarrow> cmp a b = 0 \<Longrightarrow> a = b"
  shows "SortFunc o1 cmp xs = SortFunc o2 cmp ys"
  by (rule sorted_unique_on) (use assms in \<open>simp_all add: sorted_SortFunc\<close>)

end

context strict_comparator
begin

lemma SortFunc_unique:
  assumes "mset xs = mset ys"
  shows "SortFunc o1 cmp xs = SortFunc o2 cmp ys"
  by (rule SortFunc_unique_on [OF assms]) (rule cmp_eq)

end

text \<open>
  Sorting with a comparison that can panic.  A sort has to compare the elements that end up next
  to each other; the comparisons of the program that panic do so for elements that agree in all
  that is compared before, so they end up next to each other, and the sort panics.
\<close>

fun first_fault :: "('a \<Rightarrow> 'a \<Rightarrow> int res) \<Rightarrow> 'a list \<Rightarrow> fault option" where
  "first_fault cmp [] = None"
| "first_fault cmp (x # xs) =
     (case find (\<lambda>y. isl (cmp x y)) xs of
        Some y \<Rightarrow> (case cmp x y of Inl f \<Rightarrow> Some f | Inr _ \<Rightarrow> None)
      | None \<Rightarrow> first_fault cmp xs)"

definition SortFunc_res :: "order \<Rightarrow> ('a \<Rightarrow> 'a \<Rightarrow> int res) \<Rightarrow> 'a list \<Rightarrow> 'a list res" where
  "SortFunc_res ord cmp xs =
     (case first_fault cmp xs of
        Some f \<Rightarrow> Inl f
      | None \<Rightarrow> Inr (SortFunc ord (\<lambda>a b. case cmp a b of Inr n \<Rightarrow> n | Inl _ \<Rightarrow> 0) xs))"

lemma first_fault_None:
  "first_fault cmp xs = None \<longleftrightarrow> sorted_wrt (\<lambda>x y. \<not> isl (cmp x y)) xs"
proof (induction xs)
  case (Cons x xs)
  show ?case
  proof (cases "find (\<lambda>y. isl (cmp x y)) xs")
    case None
    then have "\<forall>y\<in>set xs. \<not> isl (cmp x y)" by (auto simp: find_None_iff)
    with None Cons show ?thesis by simp
  next
    case (Some y)
    then have y: "y \<in> set xs" "isl (cmp x y)" by (auto simp: find_Some_iff)
    then have "first_fault cmp (x # xs) \<noteq> None" using Some by (auto simp: isl_def)
    with y show ?thesis by auto
  qed
qed simp

interpretation value_order: strict_comparator "cmp_Compare :: 'a::linorder \<Rightarrow> 'a \<Rightarrow> int"
  by unfold_locales (auto simp: cmp_Compare_def split: if_splits)

subsection \<open>Go maps\<close>

text \<open>
  A Go map is an association list with distinct keys; \<^verbatim>\<open>m[k] = v\<close> replaces the value in
  place or adds the key at the end, and \<^verbatim>\<open>for k, v := range m\<close> visits the entries in an
  order the run time chooses.
\<close>

type_synonym ('k, 'v) gomap = "('k \<times> 'v) list"

definition gm_get :: "('k, 'v) gomap \<Rightarrow> 'k \<Rightarrow> 'v option" where
  "gm_get m k = map_of m k"

definition gm_put :: "'k \<Rightarrow> 'v \<Rightarrow> ('k, 'v) gomap \<Rightarrow> ('k, 'v) gomap" where
  "gm_put k v m = AList.update k v m"

definition gm_range :: "order \<Rightarrow> ('k, 'v) gomap \<Rightarrow> ('k \<times> 'v) list" where
  "gm_range ord m = shuffle ord m"

definition gm_ok :: "('k, 'v) gomap \<Rightarrow> bool" where
  "gm_ok m \<longleftrightarrow> distinct (map fst m)"

locale map_interface =
  fixes empty :: "'m"
    and put :: "'k \<Rightarrow> 'v \<Rightarrow> 'm \<Rightarrow> 'm"
    and get :: "'m \<Rightarrow> 'k \<Rightarrow> 'v option"
    and entries :: "order \<Rightarrow> 'm \<Rightarrow> ('k \<times> 'v) list"
    and ok :: "'m \<Rightarrow> bool"
  assumes get_empty: "get empty k = None"
    and get_put: "ok m \<Longrightarrow> get (put k v m) j = (if j = k then Some v else get m j)"
    and ok_empty: "ok empty"
    and ok_put: "ok m \<Longrightarrow> ok (put k v m)"
    and range_get: "ok m \<Longrightarrow> (k, v) \<in> set (entries ord m) \<longleftrightarrow> get m k = Some v"
    and range_distinct: "ok m \<Longrightarrow> distinct (map fst (entries ord m))"
begin

lemma ok_fold_put: "ok m \<Longrightarrow> ok (fold (\<lambda>x. put (f x) (g x)) xs m)"
  by (induction xs arbitrary: m) (auto simp: ok_put)

lemma get_fold_put_iff:
  "ok m \<Longrightarrow> get (fold (\<lambda>x. put (f x) (g x)) xs m) k \<noteq> None
    \<longleftrightarrow> get m k \<noteq> None \<or> k \<in> f ` set xs"
  by (induction xs arbitrary: m) (auto simp: ok_put get_put)

lemma get_fold_put_other:
  "ok m \<Longrightarrow> k \<notin> f ` set xs \<Longrightarrow> get (fold (\<lambda>x. put (f x) (g x)) xs m) k = get m k"
  by (induction xs arbitrary: m) (auto simp: ok_put get_put)

lemma range_keys: "ok m \<Longrightarrow> fst ` set (entries ord m) = {k. get m k \<noteq> None}"
  using range_get [of m] by force

end

interpretation gomap: map_interface "[]" gm_put gm_get gm_range gm_ok
proof
  fix m :: "('a, 'b) gomap" and k v ord
  assume "gm_ok m"
  then show "(k, v) \<in> set (gm_range ord m) \<longleftrightarrow> gm_get m k = Some v"
    by (simp add: gm_ok_def gm_range_def gm_get_def)
  from \<open>gm_ok m\<close> show "distinct (map fst (gm_range ord m))"
    by (simp add: gm_ok_def gm_range_def map_shuffle)
qed (auto simp: gm_ok_def gm_get_def gm_put_def update_conv' distinct_update)

lemma gm_get_Nil [simp]: "gm_get [] k = None"
  by (simp add: gm_get_def)

lemma gm_ok_Nil [simp]: "gm_ok []"
  by (simp add: gm_ok_def)

lemma mset_gm_range [simp]: "mset (gm_range ord m) = mset m"
  by (simp add: gm_range_def)

lemma set_gm_range [simp]: "set (gm_range ord m) = set m"
  by (simp add: gm_range_def)

lemma length_gm_range [simp]: "length (gm_range ord m) = length m"
  by (simp add: gm_range_def)

lemma gm_get_Some_iff: "gm_ok m \<Longrightarrow> gm_get m k = Some v \<longleftrightarrow> (k, v) \<in> set m"
  by (simp add: gm_ok_def gm_get_def)

lemma gm_get_None_iff: "gm_get m k = None \<longleftrightarrow> k \<notin> fst ` set m"
  by (simp add: gm_get_def map_of_eq_None_iff)

lemma gm_put_fresh: "gm_get m k = None \<Longrightarrow> gm_put k v m = m @ [(k, v)]"
  by (induction m) (auto simp: gm_get_def gm_put_def split: if_splits)

lemmas [map_simps] =
  gomap.get_put gomap.ok_put gomap.ok_empty gm_get_None_iff

text \<open>A set of strings that the code collects as the keys of a map, sorted.\<close>

definition key_set :: "'a list \<Rightarrow> 'a list" where
  "key_set xs = map fst (fold (\<lambda>x. gm_put x ()) xs [])"

lemma distinct_key_set [simp]: "distinct (key_set xs)"
  using gomap.ok_fold_put [of "[]" "\<lambda>x. x" "\<lambda>x. ()" xs] by (simp add: key_set_def gm_ok_def)

lemma set_key_set [simp]: "set (key_set xs) = set xs"
proof -
  have ok: "gm_ok (fold (\<lambda>x. gm_put x ()) xs [])"
    using gomap.ok_fold_put [of "[]" "\<lambda>x. x" "\<lambda>x. ()" xs] by simp
  have "x \<in> set (key_set xs) \<longleftrightarrow> x \<in> set xs" for x
    using gomap.get_fold_put_iff [of "[]" "\<lambda>x. x" "\<lambda>x. ()" xs x]
    by (auto simp: key_set_def gm_get_None_iff)
  then show ?thesis by blast
qed

subsection \<open>Lists\<close>

lemma list_all2_append_left:
  "list_all2 P (xs @ ys) zs \<longleftrightarrow> (\<exists>us vs. zs = us @ vs \<and> list_all2 P xs us \<and> list_all2 P ys vs)"
  by (metis list_all2_append1 list_all2_appendI)

lemma drop_eq_imp_length:
  "drop i xs = drop j xs \<Longrightarrow> i \<le> length xs \<Longrightarrow> j \<le> length xs \<Longrightarrow> i = j"
  by (metis diff_diff_cancel length_drop)

lemma sum_list_update_nat:
  fixes f :: "'a \<Rightarrow> nat"
  assumes "i < length xs"
  shows "sum_list (map f (xs[i := y])) + f (xs ! i) = sum_list (map f xs) + f y"
  using assms
proof (induction xs arbitrary: i)
  case (Cons x xs)
  then show ?case by (cases i) auto
qed simp

text \<open>
  A fold of steps that raise a flag whenever they change anything: when the flag is down at the
  end, no step changed the state.
\<close>

lemma fold_quiet:
  assumes quiet: "\<And>x s. \<not> flag (f x s) \<Longrightarrow> f x s = s"
    and "\<not> flag (fold f xs s)"
  shows "fold f xs s = s \<and> (\<forall>x\<in>set xs. f x s = s)"
  using assms(2)
proof (induction xs arbitrary: s)
  case (Cons x xs)
  then have "fold f xs (f x s) = f x s" and all: "\<forall>y\<in>set xs. f y (f x s) = f x s"
    by auto
  with Cons.prems have "\<not> flag (f x s)" by simp
  then have "f x s = s" by (rule quiet)
  with all \<open>fold f xs (f x s) = f x s\<close> show ?case by simp
qed simp

end
