(* ===== verification/Go_Strings.thy ===== *)
theory Go_Strings
  imports Prelude
begin

section \<open>The string functions of the standard library\<close>

text \<open>
  The functions of Go's packages \<open>strings\<close> and \<open>encoding/hex\<close> that the program calls.  A Go
  string is a sequence of bytes, here a list of \<open>char\<close>; the separators the program uses are
  single bytes, and \<open>None\<close> is the answer \<open>-1\<close> of \<^verbatim>\<open>strings.Index\<close>.
\<close>

fun strings_Split :: "char \<Rightarrow> string \<Rightarrow> string list" where
  "strings_Split c [] = [[]]"
| "strings_Split c (x # xs) =
     (if x = c then [] # strings_Split c xs
      else case strings_Split c xs of [] \<Rightarrow> [[x]] | p # ps \<Rightarrow> (x # p) # ps)"

fun strings_Join :: "string list \<Rightarrow> string \<Rightarrow> string" where
  "strings_Join [] sep = []"
| "strings_Join [p] sep = p"
| "strings_Join (p # q # ps) sep = p @ sep @ strings_Join (q # ps) sep"

fun strings_Index :: "string \<Rightarrow> char \<Rightarrow> nat option" where
  "strings_Index [] c = None"
| "strings_Index (x # xs) c = (if x = c then Some 0 else map_option Suc (strings_Index xs c))"

definition strings_HasPrefix :: "string \<Rightarrow> string \<Rightarrow> bool" where
  "strings_HasPrefix s p \<longleftrightarrow> take (length p) s = p"

definition strings_HasSuffix :: "string \<Rightarrow> string \<Rightarrow> bool" where
  "strings_HasSuffix s p \<longleftrightarrow> length p \<le> length s \<and> drop (length s - length p) s = p"

definition strings_TrimPrefix :: "string \<Rightarrow> string \<Rightarrow> string" where
  "strings_TrimPrefix s p = (if strings_HasPrefix s p then drop (length p) s else s)"

definition strings_TrimSuffix :: "string \<Rightarrow> string \<Rightarrow> string" where
  "strings_TrimSuffix s p = (if strings_HasSuffix s p then take (length s - length p) s else s)"

text \<open>\<^verbatim>\<open>strings.Contains\<close>, and \<^verbatim>\<open>strings.ToLower\<close> of an ASCII string.\<close>

definition strings_Contains :: "string \<Rightarrow> string \<Rightarrow> bool" where
  "strings_Contains s p \<longleftrightarrow> list_ex (\<lambda>k. strings_HasPrefix (drop k s) p) [0..<Suc (length s)]"

definition ascii_lower :: "char \<Rightarrow> char" where
  "ascii_lower ch = (if CHR ''A'' \<le> ch \<and> ch \<le> CHR ''Z'' then char_of (of_char ch + (32 :: nat)) else ch)"

definition strings_ToLower :: "string \<Rightarrow> string" where
  "strings_ToLower s = map ascii_lower s"

text \<open>\<^verbatim>\<open>hex.EncodeToString\<close>: two digits a byte.\<close>

definition hex_digits :: string where
  "hex_digits = ''0123456789abcdef''"

definition hex_digit :: "nat \<Rightarrow> char" where
  "hex_digit n = hex_digits ! (n mod 16)"

fun hex_EncodeToString :: "string \<Rightarrow> string" where
  "hex_EncodeToString [] = []"
| "hex_EncodeToString (b # bs) =
     hex_digit (of_char b div 16) # hex_digit (of_char b mod 16) # hex_EncodeToString bs"

subsection \<open>Split and Join\<close>

lemma strings_Split_nonempty [simp]: "strings_Split c s \<noteq> []"
  by (cases s) (auto split: list.splits)

lemma length_strings_Split [simp]: "0 < length (strings_Split c s)"
  by simp

lemma strings_Split_no_sep: "p \<in> set (strings_Split c s) \<Longrightarrow> c \<notin> set p"
proof (induction s arbitrary: p)
  case (Cons x xs)
  then show ?case
    by (cases "strings_Split c xs") (auto split: if_splits)
qed simp

lemma strings_Join_Cons:
  "strings_Join (p # ps) sep = p @ (if ps = [] then [] else sep @ strings_Join ps sep)"
  by (cases ps) auto

lemma strings_Join_Split [simp]: "strings_Join (strings_Split c s) [c] = s"
proof (induction s)
  case (Cons x xs)
  then show ?case
    by (cases "strings_Split c xs") (auto simp: strings_Join_Cons)
qed simp

lemma strings_Split_append_sep:
  "c \<notin> set p \<Longrightarrow> strings_Split c (p @ c # s) = p # strings_Split c s"
  by (induction p) auto

lemma strings_Split_single: "c \<notin> set p \<Longrightarrow> strings_Split c p = [p]"
  by (induction p) auto

lemma strings_Split_Join:
  "ps \<noteq> [] \<Longrightarrow> (\<And>p. p \<in> set ps \<Longrightarrow> c \<notin> set p) \<Longrightarrow> strings_Split c (strings_Join ps [c]) = ps"
proof (induction ps)
  case (Cons p ps)
  then show ?case
    by (cases ps) (auto simp: strings_Split_append_sep strings_Split_single)
qed simp

lemma strings_Join_inject:
  assumes "ps \<noteq> []" and "qs \<noteq> []"
    and "\<And>p. p \<in> set ps \<Longrightarrow> c \<notin> set p" and "\<And>p. p \<in> set qs \<Longrightarrow> c \<notin> set p"
  shows "strings_Join ps [c] = strings_Join qs [c] \<longleftrightarrow> ps = qs"
  using strings_Split_Join [OF assms(1,3)] strings_Split_Join [OF assms(2,4)] by metis

subsection \<open>Index, prefixes and suffixes\<close>

lemma strings_Index_None [simp]: "strings_Index s c = None \<longleftrightarrow> c \<notin> set s"
  by (induction s) auto

lemma strings_Index_notin [simp]: "c \<notin> set s \<Longrightarrow> strings_Index s c = None"
  by simp

lemma strings_Index_SomeD:
  "strings_Index s c = Some i \<Longrightarrow> i < length s \<and> s ! i = c \<and> c \<notin> set (take i s)"
proof (induction s arbitrary: i)
  case (Cons x xs)
  then show ?case by (cases i) (auto split: if_splits)
qed simp

lemma strings_Index_Some_decomp:
  assumes "strings_Index s c = Some i"
  shows "s = take i s @ c # drop (Suc i) s"
  using strings_Index_SomeD [OF assms] id_take_nth_drop [of i s] by auto

lemma strings_Index_append:
  "strings_Index (s @ t) c =
    (if c \<in> set s then strings_Index s c else map_option ((+) (length s)) (strings_Index t c))"
proof (induction s)
  case Nil
  show ?case by (cases "strings_Index t c") auto
qed (auto simp: option.map_comp comp_def)

lemma strings_Index_inE: "c \<in> set s \<Longrightarrow> (\<And>i. strings_Index s c = Some i \<Longrightarrow> P) \<Longrightarrow> P"
  using strings_Index_None [of s c] by fastforce

lemma strings_HasPrefix_append [simp]: "strings_HasPrefix (p @ s) p"
  by (simp add: strings_HasPrefix_def)

lemma strings_HasPrefix_iff: "strings_HasPrefix s p \<longleftrightarrow> (\<exists>t. s = p @ t)"
  by (metis append_take_drop_id strings_HasPrefix_append strings_HasPrefix_def)

lemma strings_HasSuffix_iff: "strings_HasSuffix s p \<longleftrightarrow> (\<exists>t. s = t @ p)"
  by (metis append_eq_conv_conj append_take_drop_id diff_diff_cancel le_add2 length_append
      length_drop strings_HasSuffix_def add_diff_cancel_right')

lemma strings_TrimPrefix_append [simp]: "strings_TrimPrefix (p @ s) p = s"
  by (simp add: strings_TrimPrefix_def)

lemma strings_TrimPrefix_Cons [simp]: "strings_TrimPrefix (c # s) [c] = s"
  by (simp add: strings_TrimPrefix_def strings_HasPrefix_def)

lemma length_hex_EncodeToString [simp]: "length (hex_EncodeToString bs) = 2 * length bs"
  by (induction bs rule: hex_EncodeToString.induct) auto

lemma hex_digit_inject: "i < 16 \<Longrightarrow> j < 16 \<Longrightarrow> hex_digit i = hex_digit j \<longleftrightarrow> i = j"
proof -
  assume "i < 16" and "j < 16"
  moreover have "distinct hex_digits" and "length hex_digits = 16"
    by (simp_all add: hex_digits_def)
  ultimately show ?thesis by (simp add: hex_digit_def nth_eq_iff_index_eq)
qed

lemma hex_EncodeToString_inject:
  "hex_EncodeToString as = hex_EncodeToString bs \<longleftrightarrow> as = bs"
proof (induction as arbitrary: bs)
  case Nil
  then show ?case by (cases bs) auto
next
  case (Cons a as)
  show ?case
  proof (cases bs)
    case (Cons b bs')
    have lt: "(of_char x :: nat) div 16 < 16" for x :: char
      using nat_of_char_less_256 [of x] by linarith
    have "(of_char a :: nat) div 16 = of_char b div 16 \<Longrightarrow> (of_char a :: nat) mod 16 = of_char b mod 16
        \<Longrightarrow> (of_char a :: nat) = of_char b"
      by (metis div_mult_mod_eq)
    then show ?thesis
      using Cons.IH Cons lt by (auto simp: hex_digit_inject)
  qed simp
qed

end
