(* ===== verification/Image.thy ===== *)
theory Image
  imports Go_Strings
begin

section \<open>Images and their references\<close>

text \<open>
  The package \<open>manifest/image\<close>: the record of an image found in the manifests
  (\<open>manifest/image/image.go\<close>), the reference strings built from it, and
  \<^verbatim>\<open>kimage.Split\<close> of the vendored kustomize, which takes a reference apart.
\<close>

subsection \<open>Data\<close>

text \<open>
  A Go struct that embeds another is a record that extends it: a \<open>source\<close> is an
  \<open>ImageSourceLocation\<close> with the reference that stands there.
\<close>

record ImageSourceLocation =
  Manifest :: string
  ManifestDigest :: string
  Line :: int
  Column :: int
  NodePath :: "string list"

record source = ImageSourceLocation +
  OriginalRef :: string

record image =
  Sources :: "source list"
  OriginalName :: string
  OriginalTag :: string
  Digest :: string
  NewName :: string
  NewTag :: string
  Alias :: "string option"

subsection \<open>Operations\<close>

definition Ref :: "bool \<Rightarrow> image \<Rightarrow> string" where
  "Ref original i =
     (let ref = (if original
                 then OriginalName i @ (if OriginalTag i \<noteq> [] then '':'' @ OriginalTag i else [])
                 else NewName i @ (if NewTag i \<noteq> [] then '':'' @ NewTag i else []))
      in ref @ (if Digest i \<noteq> [] then ''@'' @ Digest i else []))"

definition primarySource :: "image \<Rightarrow> source res" where
  "primarySource i = (case Sources i of [] \<Rightarrow> Inl (Panic EmptySources) | s # _ \<Rightarrow> Inr s)"

definition image_Manifest :: "image \<Rightarrow> string res" where
  "image_Manifest i = rmap Manifest (primarySource i)"

definition image_ManifestDigest :: "image \<Rightarrow> string res" where
  "image_ManifestDigest i = rmap ManifestDigest (primarySource i)"

definition image_OriginalRef :: "image \<Rightarrow> string res" where
  "image_OriginalRef i = rmap OriginalRef (primarySource i)"

definition ImagePaths :: "string list" where
  "ImagePaths =
    [''spec/containers[]/image'',
     ''spec/initContainers[]/image'',
     ''spec/template/spec/containers[]/image'',
     ''spec/template/spec/initContainers[]/image'',
     ''items[]/spec/containers[]/image'',
     ''items[]/spec/initContainers[]/image'',
     ''items[]/spec/template/spec/containers[]/image'',
     ''items[]/spec/template/spec/initContainers[]/image'']"

text \<open>The tag prefixes of \<open>manifest/types/types.go\<close>.\<close>

definition AppImageTagPrefix :: string where
  "AppImageTagPrefix = ''app.''"

definition ConfigImageTagPrefix :: string where
  "ConfigImageTagPrefix = ''config.''"

text \<open>
  \<^verbatim>\<open>kimage.Split\<close>.  \<open>off\<close> is \<open>slashIndex\<close>: where the search for \<open>@\<close> and \<open>:\<close>
  starts, so that the port of a registry host is not taken for a tag.
\<close>

definition kimage_Split :: "string \<Rightarrow> string \<times> string \<times> string" where
  "kimage_Split imageName =
     (let off = (case strings_Index imageName CHR ''/'' of Some i \<Rightarrow> i | None \<Rightarrow> 0);
          searchName = drop off imageName;
          id = strings_Index searchName CHR ''@'';
          ic = strings_Index searchName CHR '':''
      in case (id, ic) of
           (None, None) \<Rightarrow> (imageName, [], [])
         | (Some d, None) \<Rightarrow>
             (take (d + off) imageName, [],
              strings_TrimPrefix (drop (d + off) imageName) ''@'')
         | (Some d, Some c) \<Rightarrow>
             if d < c then
               (take (d + off) imageName, [],
                strings_TrimPrefix (drop (d + off) imageName) ''@'')
             else
               (take (c + off) imageName,
                strings_TrimPrefix (take (d - c) (drop (c + off) imageName)) '':'',
                strings_TrimPrefix (drop (d + off) imageName) ''@'')
         | (None, Some c) \<Rightarrow>
             (take (c + off) imageName,
              strings_TrimPrefix (drop (c + off) imageName) '':'', []))"

text \<open>The image a manifest's scalar stands for, as the scanner and the resolver build it.\<close>

definition image_of_ref :: "source list \<Rightarrow> string \<Rightarrow> image" where
  "image_of_ref srcs ref =
     (case kimage_Split ref of (name, tag, digest) \<Rightarrow>
        \<lparr>Sources = srcs, OriginalName = name, OriginalTag = tag, Digest = digest,
         NewName = [], NewTag = [], Alias = None\<rparr>)"

subsection \<open>Reference strings\<close>

text \<open>A reference without empty parts: what a separator announces is there.\<close>

definition compose_ref :: "string \<Rightarrow> string \<Rightarrow> string \<Rightarrow> string" where
  "compose_ref name tag digest =
     name @ (if tag \<noteq> [] then '':'' @ tag else []) @ (if digest \<noteq> [] then ''@'' @ digest else [])"

lemma Ref_original: "Ref True i = compose_ref (OriginalName i) (OriginalTag i) (Digest i)"
  by (simp add: Ref_def compose_ref_def)

lemma Ref_new: "Ref False i = compose_ref (NewName i) (NewTag i) (Digest i)"
  by (simp add: Ref_def compose_ref_def)

lemma primarySource_Inr [simp]: "Sources i = s # ss \<Longrightarrow> primarySource i = Inr s"
  by (simp add: primarySource_def)

lemma primarySource_panics_iff: "primarySource i = Inl (Panic EmptySources) \<longleftrightarrow> Sources i = []"
  by (simp add: primarySource_def split: list.splits)

lemma image_OriginalRef_Inr: "Sources i \<noteq> [] \<Longrightarrow> image_OriginalRef i = Inr (OriginalRef (hd (Sources i)))"
  by (cases "Sources i") (simp_all add: image_OriginalRef_def primarySource_def)

lemma image_Manifest_Inr: "Sources i \<noteq> [] \<Longrightarrow> image_Manifest i = Inr (Manifest (hd (Sources i)))"
  by (cases "Sources i") (simp_all add: image_Manifest_def primarySource_def)

lemma image_ManifestDigest_Inr:
  "Sources i \<noteq> [] \<Longrightarrow> image_ManifestDigest i = Inr (ManifestDigest (hd (Sources i)))"
  by (cases "Sources i") (simp_all add: image_ManifestDigest_def primarySource_def)

text \<open>
  The names \<open>Split\<close> understands: the part of the name after the registry host has no \<open>:\<close> or
  \<open>@\<close>.  The host is what comes before the first slash, when something does.
\<close>

definition after_host :: "string \<Rightarrow> string" where
  "after_host name = (case strings_Index name CHR ''/'' of None \<Rightarrow> name | Some i \<Rightarrow> drop i name)"

definition plain_name :: "string \<Rightarrow> bool" where
  "plain_name name \<longleftrightarrow> CHR '':'' \<notin> set (after_host name) \<and> CHR ''@'' \<notin> set (after_host name)"

definition plain_tag :: "string \<Rightarrow> bool" where
  "plain_tag tag \<longleftrightarrow> CHR ''/'' \<notin> set tag \<and> CHR ''@'' \<notin> set tag"

text \<open>The start of the search does not move when a tag and a digest are appended.\<close>

lemma search_start:
  assumes "CHR ''/'' \<notin> set suffix"
  shows "\<exists>off. (case strings_Index (name @ suffix) CHR ''/'' of Some i \<Rightarrow> i | None \<Rightarrow> 0) = off
      \<and> off \<le> length name \<and> drop off name = after_host name"
proof (cases "strings_Index name CHR ''/''")
  case None
  with assms have "strings_Index (name @ suffix) CHR ''/'' = None"
    by simp
  with None show ?thesis unfolding after_host_def by (simp del: strings_Index_None)
next
  case (Some i)
  then have "CHR ''/'' \<in> set name"
    by (metis option.distinct(1) strings_Index_notin)
  with Some have "strings_Index (name @ suffix) CHR ''/'' = Some i"
    by (simp add: strings_Index_append)
  with Some strings_Index_SomeD [OF Some] show ?thesis
    by (simp add: after_host_def)
qed

lemma kimage_Split_compose:
  assumes "plain_name name" and "plain_tag tag" and "CHR ''/'' \<notin> set digest"
  shows "kimage_Split (compose_ref name tag digest) = (name, tag, digest)"
proof -
  define suffix where "suffix =
    (if tag \<noteq> [] then '':'' @ tag else []) @ (if digest \<noteq> [] then ''@'' @ digest else [])"
  have "CHR ''/'' \<notin> set suffix"
    using assms by (auto simp: suffix_def plain_tag_def)
  from search_start [OF this, of name] obtain off where
    off: "(case strings_Index (name @ suffix) CHR ''/'' of Some i \<Rightarrow> i | None \<Rightarrow> 0) = off"
      "off \<le> length name" "drop off name = after_host name" by blast
  have no_sep: "CHR '':'' \<notin> set (drop off name)" "CHR ''@'' \<notin> set (drop off name)"
    using assms(1) off(3) by (simp_all add: plain_name_def)
  have dr: "drop off (name @ suffix) = drop off name @ suffix"
    using off(2) by simp
  have tag: "CHR ''@'' \<notin> set tag" using assms(2) by (simp add: plain_tag_def)
  have split: "compose_ref name tag digest = name @ suffix"
    by (simp add: compose_ref_def suffix_def)
  consider "tag = []" "digest = []" | "tag = []" "digest \<noteq> []"
    | "tag \<noteq> []" "digest = []" | "tag \<noteq> []" "digest \<noteq> []" by blast
  then show ?thesis
  proof cases
    case 1
    with no_sep have "strings_Index (drop off name @ suffix) CHR '':'' = None"
      "strings_Index (drop off name @ suffix) CHR ''@'' = None"
      by (simp_all add: suffix_def)
    with 1 show ?thesis
      unfolding kimage_Split_def split Let_def off(1) dr
      by (simp add: suffix_def del: strings_Index_None)
  next
    case 2
    have "strings_Index (drop off name @ suffix) CHR ''@'' = Some (length name - off)"
      using 2 no_sep by (simp add: strings_Index_append suffix_def)
    moreover have "strings_Index (drop off name @ suffix) CHR '':'' = None
      \<or> (\<exists>c. strings_Index (drop off name @ suffix) CHR '':'' = Some c \<and> length name - off < c)"
      using 2 no_sep
      by (cases "CHR '':'' \<in> set digest")
        (auto simp: strings_Index_append suffix_def elim: strings_Index_inE)
    ultimately show ?thesis
      unfolding kimage_Split_def split Let_def off(1) dr
      using 2 off(2) by (auto simp: suffix_def)
  next
    case 3
    have "strings_Index (drop off name @ suffix) CHR '':'' = Some (length name - off)"
      using 3 no_sep by (simp add: strings_Index_append suffix_def)
    moreover have "strings_Index (drop off name @ suffix) CHR ''@'' = None"
      using 3 no_sep tag by (simp only: strings_Index_None) (simp add: suffix_def)
    ultimately show ?thesis
      unfolding kimage_Split_def split Let_def off(1) dr
      using 3 off(2) by (auto simp: suffix_def)
  next
    case 4
    have "strings_Index (drop off name @ suffix) CHR '':'' = Some (length name - off)"
      using 4 no_sep by (simp add: strings_Index_append suffix_def)
    moreover have "strings_Index (drop off name @ suffix) CHR ''@'' =
        Some (length name - off + Suc (length tag))"
      using 4 no_sep tag by (simp add: strings_Index_append suffix_def)
    ultimately show ?thesis
      unfolding kimage_Split_def split Let_def off(1) dr
      using 4 off(2) by (auto simp: suffix_def)
  qed
qed

subsection \<open>Properties\<close>

text \<open>
  \<open>Split\<close> inverts \<open>Ref\<close>: the original reference of an image with a name, a tag and a
  digest that a registry accepts comes apart into exactly these three, and so does the new
  reference that is written into the manifests.  A port in the registry host is not mistaken for
  a tag.
\<close>

theorem Split_inverts_Ref:
  assumes "CHR ''/'' \<notin> set (Digest i)"
  shows "(plain_name (OriginalName i) \<and> plain_tag (OriginalTag i) \<longrightarrow>
      kimage_Split (Ref True i) = (OriginalName i, OriginalTag i, Digest i)) \<and>
    (plain_name (NewName i) \<and> plain_tag (NewTag i) \<longrightarrow>
      kimage_Split (Ref False i) = (NewName i, NewTag i, Digest i))"
  using assms by (simp add: Ref_original Ref_new kimage_Split_compose)

theorem Split_inverts_Ref_witness:
  "let i = \<lparr>Sources = [], OriginalName = ''localhost:5000/a/web'', OriginalTag = ''1.2'',
        Digest = ''sha256:ab'', NewName = ''reg/x'', NewTag = ''app.0'', Alias = None\<rparr>
   in kimage_Split ''localhost:5000/a/web:1.2@sha256:ab'' = (''localhost:5000/a/web'', ''1.2'', ''sha256:ab'') \<and>
      kimage_Split ''reg/x:app.0@sha256:ab'' = (''reg/x'', ''app.0'', ''sha256:ab'')"
  using Split_inverts_Ref [of "\<lparr>Sources = [], OriginalName = ''localhost:5000/a/web'',
    OriginalTag = ''1.2'', Digest = ''sha256:ab'', NewName = ''reg/x'', NewTag = ''app.0'', Alias = None\<rparr>"]
  by (simp add: Ref_def plain_name_def plain_tag_def after_host_def)

end
