(* ===== verification/Alias.thy ===== *)
theory Alias
  imports Image "HOL-Library.Sublist"
begin

section \<open>Short names for images\<close>

text \<open>
  \<open>manifest/image/alias.go\<close>: an alias is a suffix of the path components of an image's name,
  made longer step by step until no two images with different names share one.  An
  \<open>AliasCache\<close> is a slice of pointers to distinct \<open>imageName\<close> values; the model keeps the
  values in a list and writes a changed one back at its index.
\<close>

subsection \<open>Data and operations\<close>

definition separator :: char where
  "separator = CHR ''/''"

record imageName =
  parts :: "string list"
  in_tag :: string
  in_digest :: string
  last_part :: nat
  current :: nat

type_synonym AliasCache = "imageName list"

definition newImageName :: "string \<Rightarrow> string \<Rightarrow> string \<Rightarrow> imageName" where
  "newImageName name tag digest =
     (let nameParts = strings_Split separator name; lst = length nameParts - 1
      in \<lparr>parts = nameParts, in_tag = tag, in_digest = digest, last_part = lst, current = lst\<rparr>)"

text \<open>\<open>NewAliasCache\<close> for its two argument types.\<close>

definition NewAliasCache_strings :: "string list \<Rightarrow> AliasCache" where
  "NewAliasCache_strings names =
     map (\<lambda>s. case kimage_Split s of (name, tag, digest) \<Rightarrow> newImageName name tag digest) names"

definition NewAliasCache_images :: "image list \<Rightarrow> AliasCache" where
  "NewAliasCache_images images =
     map (\<lambda>i. newImageName (OriginalName i) (OriginalTag i) (Digest i)) images"

definition shortest :: "imageName \<Rightarrow> string" where
  "shortest i = parts i ! last_part i"

definition longest :: "imageName \<Rightarrow> string" where
  "longest i = strings_Join (parts i) [separator]"

definition join :: "imageName \<Rightarrow> string" where
  "join i = strings_Join (drop (current i) (parts i)) [separator]"

definition extendable :: "imageName \<Rightarrow> bool" where
  "extendable i \<longleftrightarrow> 0 < current i"

text \<open>\<open>extend\<close> changes its receiver and says whether it did.\<close>

definition extend :: "imageName \<Rightarrow> imageName \<times> bool" where
  "extend i = (if \<not> extendable i then (i, False) else (i\<lparr>current := current i - 1\<rparr>, True))"

definition equalParts :: "imageName \<Rightarrow> imageName \<Rightarrow> bool" where
  "equalParts a b \<longleftrightarrow> slices_Compare (parts a) (parts b) = 0"

text \<open>
  The second loop of \<open>extendIfSuffixMatches\<close>, \<^verbatim>\<open>for i := b.last; i > b.current; i--\<close>; its
  state is \<open>a\<close> and \<open>mutated\<close>.
\<close>

fun extend_suffixes :: "imageName \<Rightarrow> nat \<Rightarrow> imageName \<times> bool \<Rightarrow> imageName \<times> bool" where
  "extend_suffixes b 0 (a, mutated) = (a, mutated)"
| "extend_suffixes b (Suc i) (a, mutated) =
     (if current b < Suc i then
        extend_suffixes b i
          (if slices_Compare (drop (current a) (parts a)) (drop (Suc i) (parts b)) = 0
           then (case extend a of (a', ok) \<Rightarrow> (a', mutated \<or> ok))
           else (a, mutated))
      else (a, mutated))"

definition extendIfSuffixMatches :: "imageName \<Rightarrow> imageName \<Rightarrow> imageName \<times> imageName \<times> bool" where
  "extendIfSuffixMatches a b =
     (if \<not> extendable a then (a, b, False)
      else
        let (a1, b1, m1) =
              (if slices_Compare (drop (current a - 1) (parts a)) (drop (current b) (parts b)) = 0
               then case extend a of (a', ma) \<Rightarrow> case extend b of (b', mb) \<Rightarrow> (a', b', ma \<or> mb)
               else (a, b, False));
            (a2, m2) = extend_suffixes b1 (last_part b1) (a1, m1)
        in (a2, b1, m2))"

text \<open>
  The state of \<open>MakeAliasesForNames\<close>: the image names, the aliases so far (both indexed alike)
  and \<open>mutated\<close>.
\<close>

type_synonym alias_state = "imageName list \<times> string list \<times> bool"

text \<open>\<^verbatim>\<open>if l[k].extend() { names[k] = l[k].join(); mutated = true }\<close>\<close>

definition extend_at :: "nat \<Rightarrow> alias_state \<Rightarrow> alias_state" where
  "extend_at k st =
     (case st of (l, names, mutated) \<Rightarrow>
        case extend (l ! k) of (i, ok) \<Rightarrow>
          if ok then (l[k := i], names[k := join i], True) else st)"

text \<open>The body of the two inner loops.\<close>

definition alias_visit :: "nat \<Rightarrow> nat \<Rightarrow> alias_state \<Rightarrow> alias_state" where
  "alias_visit n m st =
     (case st of (l, names, mutated) \<Rightarrow>
        if m = n \<or> equalParts (l ! m) (l ! n) then st
        else
          case (if names ! m = names ! n then extend_at n (extend_at m st) else st) of
            (l1, names1, mutated1) \<Rightarrow>
              case extendIfSuffixMatches (l1 ! m) (l1 ! n) of
                (a, b, changed) \<Rightarrow>
                  if changed then (l1[m := a, n := b], names1[m := join a, n := join b], True)
                  else (l1, names1, mutated1))"

text \<open>One round of the outer \<^verbatim>\<open>for\<close>, for every \<open>n\<close> and every \<open>m\<close>.\<close>

definition alias_row :: "nat \<Rightarrow> nat \<Rightarrow> alias_state \<Rightarrow> alias_state" where
  "alias_row k n st = fold (alias_visit n) [0..<k] st"

definition alias_round :: "imageName list \<Rightarrow> string list \<Rightarrow> alias_state" where
  "alias_round l names = fold (alias_row (length l)) [0..<length l] (l, names, False)"

subsection \<open>The rounds come to an end\<close>

text \<open>Every change takes one component more into an alias, so the sum of what is left falls.\<close>

definition room :: "imageName list \<Rightarrow> nat" where
  "room l = sum_list (map current l)"

lemma extend_simps [simp]:
  "snd (extend i) \<longleftrightarrow> extendable i"
  "parts (fst (extend i)) = parts i"
  "last_part (fst (extend i)) = last_part i"
  "current (fst (extend i)) = current i - 1"
  "\<not> extendable i \<Longrightarrow> fst (extend i) = i"
  by (simp_all add: extend_def extendable_def)

lemma extend_parts: "extend i = (i', ok) \<Longrightarrow> parts i' = parts i"
  by (auto simp: extend_def split: if_splits)

text \<open>
  \<open>grown (a, mu) (a', mu')\<close>: \<open>a'\<close> is \<open>a\<close> with a longer alias or unchanged, and the flag
  tells which.
\<close>

fun grown :: "imageName \<times> bool \<Rightarrow> imageName \<times> bool \<Rightarrow> bool" where
  "grown (a, mu) (a', mu') \<longleftrightarrow>
     parts a' = parts a \<and> last_part a' = last_part a \<and> current a' \<le> current a \<and>
     (mu \<longrightarrow> mu') \<and> (mu' \<longrightarrow> mu \<or> current a' < current a) \<and> (\<not> mu' \<longrightarrow> a' = a)"

lemma grown_refl [simp]: "grown st st"
  by (cases st) simp

lemma grown_trans: "grown s t \<Longrightarrow> grown t u \<Longrightarrow> grown s u"
  by (cases s; cases t; cases u) auto

lemma grown_extend: "grown (a, mu) (case extend a of (a', ok) \<Rightarrow> (a', mu \<or> ok))"
  by (auto simp: extend_def extendable_def)

lemma grown_extend_suffixes: "grown st (extend_suffixes b i st)"
proof (induction i arbitrary: st)
  case (Suc i)
  obtain a mu where st: "st = (a, mu)" by fastforce
  show ?case
    unfolding st by (auto intro: grown_trans [OF grown_extend Suc] Suc simp del: grown.simps)
qed (metis extend_suffixes.simps(1) grown_refl surj_pair)

lemma extendIfSuffixMatches_grown:
  assumes "extendIfSuffixMatches a b = (a', b', changed)"
  shows "\<exists>ma mb. grown (a, False) (a', ma) \<and> grown (b, False) (b', mb) \<and> (changed \<longleftrightarrow> ma \<or> mb)"
proof (cases "extendable a")
  case True
  obtain a1 ma where a1: "extend a = (a1, ma)" by fastforce
  obtain b1 mb where b1: "extend b = (b1, mb)" by fastforce
  have ga: "grown (a, False) (a1, ma)" "ma" and gb: "grown (b, False) (b1, mb)"
    using grown_extend [of a False] grown_extend [of b False] a1 b1 True
    by (auto simp: extend_def)
  show ?thesis
  proof (cases "slices_Compare (drop (current a - 1) (parts a)) (drop (current b) (parts b)) = 0")
    case eq: True
    with assms True a1 b1 ga(2)
    have "extend_suffixes b1 (last_part b1) (a1, True) = (a', changed)" "b' = b1"
      by (auto simp: extendIfSuffixMatches_def split: prod.splits)
    then have "grown (a1, True) (a', changed)" by (metis grown_extend_suffixes)
    with ga gb \<open>b' = b1\<close> show ?thesis by (intro exI [of _ True] exI [of _ mb]) auto
  next
    case False
    with assms True have "extend_suffixes b (last_part b) (a, False) = (a', changed)" "b' = b"
      by (auto simp: extendIfSuffixMatches_def split: prod.splits)
    then have "grown (a, False) (a', changed)" by (metis grown_extend_suffixes)
    with \<open>b' = b\<close> show ?thesis by (intro exI [of _ changed] exI [of _ False]) auto
  qed
qed (use assms in \<open>auto simp: extendIfSuffixMatches_def intro!: exI [of _ False]\<close>)

text \<open>
  The same for a state: the names keep their parts, nobody's alias gets shorter, and the flag
  says whether there is less room than before.
\<close>

fun progress :: "alias_state \<Rightarrow> alias_state \<Rightarrow> bool" where
  "progress (l, names, mu) (l', names', mu') \<longleftrightarrow>
     length l' = length l \<and> length names' = length names \<and>
     map parts l' = map parts l \<and> map last_part l' = map last_part l \<and>
     list_all2 (\<lambda>i' i. current i' \<le> current i) l' l \<and> room l' \<le> room l \<and>
     (mu \<longrightarrow> mu') \<and> (mu' \<longrightarrow> mu \<or> room l' < room l) \<and> (\<not> mu' \<longrightarrow> l' = l \<and> names' = names)"

lemma progress_refl [simp]: "progress st st"
  by (cases st) (simp add: list_all2_refl)

lemma progress_trans:
  assumes "progress s t" and "progress t u"
  shows "progress s u"
proof -
  obtain l n m l' n' m' l'' n'' m'' where st: "s = (l, n, m)" "t = (l', n', m')" "u = (l'', n'', m'')"
    by (metis prod_cases3)
  have "list_all2 (\<lambda>i' i. current i' \<le> current i) l'' l"
    using assms unfolding st by (auto intro: list_all2_trans [rotated])
  with assms show ?thesis unfolding st by auto
qed

lemma progress_length: "progress s t \<Longrightarrow> length (fst t) = length (fst s)"
  by (cases s; cases t) auto

lemma progress_fold:
  assumes "\<And>x s. x \<in> set xs \<Longrightarrow> length (fst s) = k \<Longrightarrow> progress s (f x s)"
    and "length (fst s) = k"
  shows "progress s (fold f xs s)"
  using assms
proof (induction xs arbitrary: s)
  case (Cons x xs)
  then have p: "progress s (f x s)" by simp
  have "progress (f x s) (fold f xs (f x s))"
    by (rule Cons.IH) (use Cons.prems progress_length [OF p] in auto)
  with p show ?case by (auto intro: progress_trans)
qed simp

text \<open>Writing one grown name back.\<close>

lemma progress_update:
  assumes "k < length l" and "grown (l ! k, False) (i, c)" and "c"
  shows "progress (l, names, mu) (l[k := i], names[k := nm], True)"
proof -
  have "room (l[k := i]) + current (l ! k) = room l + current i"
    unfolding room_def by (rule sum_list_update_nat) (rule assms(1))
  then have "room (l[k := i]) < room l" using assms(2,3) by auto
  moreover have "list_all2 (\<lambda>i' i. current i' \<le> current i) (l[k := i]) l"
    using assms by (auto simp: list_all2_conv_all_nth nth_list_update)
  moreover have "map parts (l[k := i]) = map parts l" "map last_part (l[k := i]) = map last_part l"
    using assms by (auto simp: map_update list_update_same_conv)
  ultimately show ?thesis by auto
qed

lemma progress_extend_at:
  assumes "k < length (fst st)"
  shows "progress st (extend_at k st)"
proof -
  obtain l names mu where st: "st = (l, names, mu)" by (metis prod_cases3)
  obtain i ok where i: "extend (l ! k) = (i, ok)" by fastforce
  then have "grown (l ! k, False) (i, ok)" using grown_extend [of "l ! k" False] by simp
  with assms i show ?thesis
    unfolding st extend_at_def by (auto simp del: progress.simps intro: progress_update)
qed

lemma length_extend_at [simp]: "length (fst (extend_at k st)) = length (fst st)"
  by (auto simp: extend_at_def split: prod.splits)

lemma progress_suffix_update:
  assumes "m < length l" and "n < length l" and "m \<noteq> n"
    and "extendIfSuffixMatches (l ! m) (l ! n) = (a, b, True)"
  shows "progress (l, names, mu) (l[m := a, n := b], names[m := x, n := y], True)"
proof -
  obtain ma mb where g: "grown (l ! m, False) (a, ma)" "grown (l ! n, False) (b, mb)" "ma \<or> mb"
    using extendIfSuffixMatches_grown [OF assms(4)] by blast
  have room: "room (l[m := a]) + current (l ! m) = room l + current a"
    "room (l[m := a, n := b]) + current (l ! n) = room (l[m := a]) + current b"
    using assms(1,2,3) sum_list_update_nat [of m l current a]
      sum_list_update_nat [of n "l[m := a]" current b]
    by (simp_all add: room_def)
  have "room (l[m := a, n := b]) < room l" using room g by auto
  moreover have "list_all2 (\<lambda>i' i. current i' \<le> current i) (l[m := a, n := b]) l"
    using assms(1,2) g by (auto simp: list_all2_conv_all_nth nth_list_update)
  moreover have "map parts (l[m := a, n := b]) = map parts l"
    "map last_part (l[m := a, n := b]) = map last_part l"
    using g assms(1-3) by (intro nth_equalityI; auto simp: nth_list_update)+
  ultimately show ?thesis by auto
qed

lemma progress_alias_visit:
  assumes "m < length (fst st)" and "n < length (fst st)"
  shows "progress st (alias_visit n m st)"
proof -
  obtain l names mu where st: "st = (l, names, mu)" by (metis prod_cases3)
  let ?st1 = "if names ! m = names ! n then extend_at n (extend_at m st) else st"
  obtain l1 names1 mu1 where st1: "?st1 = (l1, names1, mu1)" by (metis prod_cases3)
  have "progress st (extend_at n (extend_at m st))"
    using assms by (intro progress_trans [OF progress_extend_at progress_extend_at]) auto
  then have p1: "progress st (l1, names1, mu1)"
    unfolding st1 [symmetric] by simp
  obtain a b c where ext: "extendIfSuffixMatches (l1 ! m) (l1 ! n) = (a, b, c)"
    by (metis prod_cases3)
  have len: "length l1 = length l" using p1 st by simp
  have "progress (l1, names1, mu1) (l1[m := a, n := b], names1[m := join a, n := join b], True)"
    if "m \<noteq> n" and c
    using that ext assms st len by (intro progress_suffix_update) auto
  then show ?thesis
    using p1 st1 ext unfolding st
    by (auto simp: alias_visit_def simp del: progress.simps intro: progress_trans)
qed

lemma progress_alias_row:
  assumes "length (fst st) = k" and "n < k"
  shows "progress st (alias_row k n st)"
  unfolding alias_row_def
  by (rule progress_fold [where k = k]) (use assms in \<open>auto intro: progress_alias_visit\<close>)

lemma progress_alias_round: "progress (l, names, False) (alias_round l names)"
  unfolding alias_round_def
  by (rule progress_fold [where k = "length l"]) (auto intro: progress_alias_row)

text \<open>The outer loop: rounds until one changes nothing.\<close>

function alias_rounds :: "imageName list \<Rightarrow> string list \<Rightarrow> imageName list \<times> string list" where
  "alias_rounds l names =
     (case alias_round l names of
        (l', names', mutated) \<Rightarrow> if \<not> mutated then (l', names') else alias_rounds l' names')"
  by pat_completeness auto
termination
proof (relation "measure (\<lambda>(l, names). room l)", goal_cases)
  case (2 l names l' y names' mutated)
  then show ?case
    using progress_alias_round [of l names] by (cases "alias_round l names") auto
qed simp

declare alias_rounds.simps [simp del]

text \<open>
  \<open>MakeAliasesForNames\<close> returns the aliases and leaves the cache changed: the first component
  is the cache afterwards.
\<close>

definition MakeAliasesForNames :: "AliasCache \<Rightarrow> AliasCache \<times> string list" where
  "MakeAliasesForNames l = alias_rounds l (map shortest l)"

text \<open>\<open>Match\<close> returns the name found, the candidates when there are several, and a flag.\<close>

definition Match :: "AliasCache \<Rightarrow> string \<Rightarrow> string \<times> string list \<times> bool" where
  "Match l name =
     (let cs = map longest (filter (\<lambda>i. name = join i \<or> name = longest i) l);
          candidates =
            (if cs \<noteq> [] then cs
             else let ps = strings_Split separator name
                  in concat (map (\<lambda>i. concat (map (\<lambda>j.
                       if slices_Compare (drop j (parts i)) ps = 0 then [longest i] else [])
                         [0..<length (parts i)])) l))
      in case candidates of
           [c] \<Rightarrow> (c, [], True)
         | [] \<Rightarrow> ([], [], False)
         | _ \<Rightarrow> ([], candidates, False))"

subsection \<open>What the aliases are\<close>

text \<open>
  The specification: the alias of a name is its shortest suffix that is not also a suffix of a
  different name in the list, or the whole name when there is none.  \<open>shared\<close> says that the
  suffix from component \<open>c\<close> on also ends another name.
\<close>

definition shared :: "string list list \<Rightarrow> string list \<Rightarrow> nat \<Rightarrow> bool" where
  "shared names ps c \<longleftrightarrow> (\<exists>qs\<in>set names. qs \<noteq> ps \<and> suffix (drop c ps) qs)"

fun alias_start :: "string list list \<Rightarrow> string list \<Rightarrow> nat \<Rightarrow> nat" where
  "alias_start names ps 0 = 0"
| "alias_start names ps (Suc c) = (if shared names ps (Suc c) then alias_start names ps c else Suc c)"

definition alias_parts :: "string list list \<Rightarrow> string list \<Rightarrow> string list" where
  "alias_parts names ps = drop (alias_start names ps (length ps - 1)) ps"

lemma shared_antimono: "shared names ps c \<Longrightarrow> c \<le> d \<Longrightarrow> shared names ps d"
proof -
  assume "shared names ps c" and "c \<le> d"
  then obtain qs where "qs \<in> set names" "qs \<noteq> ps" "suffix (drop c ps) qs"
    by (auto simp: shared_def)
  moreover have "drop d ps = drop (d - c) (drop c ps)" using \<open>c \<le> d\<close> by simp
  ultimately show ?thesis
    unfolding shared_def by (metis suffix_drop suffix_order.trans)
qed

lemma sharedI: "suffix (drop c ps) qs \<Longrightarrow> qs \<in> set names \<Longrightarrow> qs \<noteq> ps \<Longrightarrow> shared names ps c"
  by (auto simp: shared_def)

text \<open>The index is characterised by: all later suffixes are shared, and it is not unless it is 0.\<close>

lemma alias_start_unique:
  assumes "c \<le> n" and "\<And>d. c < d \<Longrightarrow> d \<le> n \<Longrightarrow> shared names ps d"
    and "0 < c \<Longrightarrow> \<not> shared names ps c"
  shows "alias_start names ps n = c"
  using assms
proof (induction n)
  case (Suc n)
  then show ?case by (cases "c = Suc n") auto
qed simp

lemma alias_start_le: "alias_start names ps n \<le> n"
  by (induction n) auto

lemma alias_start_not_shared: "0 < alias_start names ps n \<Longrightarrow> \<not> shared names ps (alias_start names ps n)"
  by (induction n) (auto split: if_splits)

subsection \<open>Invariants of the rounds\<close>

definition alias_ok :: "imageName \<Rightarrow> bool" where
  "alias_ok i \<longleftrightarrow> parts i \<noteq> [] \<and> last_part i = length (parts i) - 1 \<and> current i \<le> last_part i \<and>
     (\<forall>p\<in>set (parts i). separator \<notin> set p)"

text \<open>An alias was made longer only where it had to be.\<close>

definition justified :: "string list list \<Rightarrow> imageName \<Rightarrow> bool" where
  "justified names i \<longleftrightarrow> (\<forall>c. current i < c \<longrightarrow> c \<le> last_part i \<longrightarrow> shared names (parts i) c)"

fun alias_inv :: "alias_state \<Rightarrow> bool" where
  "alias_inv (l, names, mu) \<longleftrightarrow>
     names = map join l \<and> list_all alias_ok l \<and> list_all (justified (map parts l)) l"

lemma justified_extend:
  assumes "justified names i" and "shared names (parts i) (current i)"
  shows "justified names (fst (extend i))"
proof -
  have "shared names (parts i) c" if "current i - 1 < c" "c \<le> last_part i" for c
    using that assms by (cases "c = current i") (auto simp: justified_def)
  then show ?thesis by (auto simp: justified_def)
qed

lemma justified_extend_suffixes:
  assumes "justified names (fst st)" and "parts (fst st) \<noteq> parts b" and "parts b \<in> set names"
  shows "justified names (fst (extend_suffixes b i st))"
  using assms
proof (induction b i st rule: extend_suffixes.induct)
  case (2 b i a mu)
  let ?st = "if slices_Compare (drop (current a) (parts a)) (drop (Suc i) (parts b)) = 0
    then (case extend a of (a', ok) \<Rightarrow> (a', mu \<or> ok)) else (a, mu)"
  have "justified names (fst ?st)"
  proof (cases "drop (current a) (parts a) = drop (Suc i) (parts b)")
    case True
    then have "suffix (drop (current a) (parts a)) (parts b)" by (simp add: suffix_drop)
    then have "shared names (parts a) (current a)" by (rule sharedI) (use 2 in auto)
    with 2(2) True show ?thesis by (auto simp: justified_extend split: prod.splits dest: justified_extend)
  qed (use 2(2) in simp)
  moreover have "parts (fst ?st) = parts a"
    by (auto split: prod.splits simp: extend_parts)
  ultimately show ?case using 2 by auto
qed simp

lemma justified_extendIfSuffixMatches:
  assumes "extendIfSuffixMatches a b = (a', b', c)" and "parts a \<noteq> parts b"
    and "parts a \<in> set names" and "parts b \<in> set names"
    and "justified names a" and "justified names b"
  shows "justified names a' \<and> justified names b'"
proof (cases "extendable a")
  case True
  obtain a1 ma where a1: "extend a = (a1, ma)" by fastforce
  obtain b1 mb where b1: "extend b = (b1, mb)" by fastforce
  have parts: "parts a1 = parts a" "parts b1 = parts b"
    using a1 b1 extend_simps(2) by (metis fst_conv)+
  show ?thesis
  proof (cases "drop (current a - 1) (parts a) = drop (current b) (parts b)")
    case eq: True
    have "drop (current a) (parts a) = drop 1 (drop (current a - 1) (parts a))"
      using True by (simp add: extendable_def)
    then have "suffix (drop (current a) (parts a)) (parts b)"
      unfolding eq by (simp add: suffix_drop)
    moreover have "suffix (drop (current b) (parts b)) (parts a)"
      unfolding eq [symmetric] by (rule suffix_drop)
    ultimately have "shared names (parts a) (current a)" "shared names (parts b) (current b)"
      using assms by (auto intro: sharedI)
    then have "justified names a1" "justified names b1"
      using assms a1 b1 justified_extend [of names a] justified_extend [of names b] by auto
    moreover have "a' = fst (extend_suffixes b1 (last_part b1) (a1, ma \<or> mb))" "b' = b1"
      using assms(1) True eq a1 b1 by (auto simp: extendIfSuffixMatches_def split: prod.splits)
    ultimately show ?thesis
      using justified_extend_suffixes [of names "(a1, ma \<or> mb)" b1] assms(2,4) parts by auto
  next
    case False
    then have "a' = fst (extend_suffixes b (last_part b) (a, False))" "b' = b"
      using assms(1) True by (auto simp: extendIfSuffixMatches_def split: prod.splits)
    then show ?thesis
      using justified_extend_suffixes [of names "(a, False)" b] assms by auto
  qed
qed (use assms in \<open>auto simp: extendIfSuffixMatches_def\<close>)

lemma alias_ok_grown: "alias_ok i \<Longrightarrow> grown (i, c) (i', d) \<Longrightarrow> alias_ok i'"
  by (auto simp: alias_ok_def)

lemma alias_inv_update:
  assumes inv: "alias_inv (l, names, mu)" and "k < length l"
    and "grown (l ! k, c) (i, d)" and "justified (map parts l) i"
  shows "alias_inv (l[k := i], names[k := join i], mu')"
proof -
  have "map parts (l[k := i]) = map parts l"
    using assms by (auto simp: map_update list_update_same_conv)
  moreover have "alias_ok i"
    using assms by (auto simp: list_all_length intro: alias_ok_grown)
  ultimately show ?thesis
    using assms by (auto simp: map_update list_all_length nth_list_update)
qed

lemma alias_inv_extend_at:
  assumes "alias_inv st" and "k < length (fst st)"
    and "shared (map parts (fst st)) (parts (fst st ! k)) (current (fst st ! k))"
  shows "alias_inv (extend_at k st)"
proof -
  obtain l names mu where st: "st = (l, names, mu)" by (metis prod_cases3)
  obtain i ok where i: "extend (l ! k) = (i, ok)" by fastforce
  have "justified (map parts l) i"
    using assms justified_extend [of "map parts l" "l ! k"] i st by (auto simp: list_all_length)
  moreover have "grown (l ! k, False) (i, ok)"
    using grown_extend [of "l ! k" False] i by simp
  ultimately show ?thesis
    using assms alias_inv_update [of l names mu k False i ok True] i st
    by (auto simp: extend_at_def simp del: alias_inv.simps grown.simps)
qed

lemma equalParts_iff [simp]: "equalParts a b \<longleftrightarrow> parts a = parts b"
  by (simp add: equalParts_def)

lemma alias_okD:
  assumes "alias_ok i"
  shows "drop (current i) (parts i) \<noteq> []" "\<And>p. p \<in> set (drop (current i) (parts i)) \<Longrightarrow> separator \<notin> set p"
    "current i < length (parts i)"
proof -
  have "0 < length (parts i)" using assms by (simp add: alias_ok_def)
  moreover have "current i \<le> length (parts i) - 1" using assms by (simp add: alias_ok_def)
  ultimately show "current i < length (parts i)" by linarith
  then show "drop (current i) (parts i) \<noteq> []" by simp
qed (use assms in \<open>auto simp: alias_ok_def dest: in_set_dropD\<close>)

lemma join_inject:
  assumes "alias_ok i" and "alias_ok j"
  shows "join i = join j \<longleftrightarrow> drop (current i) (parts i) = drop (current j) (parts j)"
  unfolding join_def
  by (rule strings_Join_inject) (use assms alias_okD in blast)+

lemma shared_current_extend_at:
  assumes "drop (current (fst st ! n)) (parts (fst st ! n)) = drop (current (fst st ! m)) (parts (fst st ! m))"
    and "m \<noteq> n" and "m < length (fst st)"
    and "n < length (fst st)" and "parts (fst st ! m) \<noteq> parts (fst st ! n)"
  shows "shared (map parts (fst st)) (parts (fst st ! m)) (current (fst st ! m))"
    "shared (map parts (fst (extend_at m st))) (parts (fst (extend_at m st) ! n))
        (current (fst (extend_at m st) ! n))"
proof -
  obtain l names mu where st: "st = (l, names, mu)" by (metis prod_cases3)
  have "suffix (drop (current (l ! m)) (parts (l ! m))) (parts (l ! n))"
    using assms(1) suffix_drop [of "current (l ! n)" "parts (l ! n)"] by (simp add: st)
  then show "shared (map parts (fst st)) (parts (fst st ! m)) (current (fst st ! m))"
    using assms by (auto simp: st intro!: sharedI)
  have "suffix (drop (current (l ! n)) (parts (l ! n))) (parts (l ! m))"
    using assms(1) suffix_drop [of "current (l ! m)" "parts (l ! m)"] by (simp add: st)
  then have 2: "shared (map parts l) (parts (l ! n)) (current (l ! n))"
    using assms by (auto simp: st intro!: sharedI [of _ _ "parts (l ! m)"])
  have "map parts (fst (extend_at m st)) = map parts l \<and> fst (extend_at m st) ! n = l ! n"
    using assms
    by (auto simp: st extend_at_def map_update list_update_same_conv extend_parts split: prod.splits)
  with 2 show "shared (map parts (fst (extend_at m st))) (parts (fst (extend_at m st) ! n))
        (current (fst (extend_at m st) ! n))"
    by simp
qed

lemma alias_inv_alias_visit:
  assumes inv: "alias_inv st" and m: "m < length (fst st)" and n: "n < length (fst st)"
  shows "alias_inv (alias_visit n m st)"
proof (cases "m = n \<or> parts (fst st ! m) = parts (fst st ! n)")
  case False
  obtain l names mu where st: "st = (l, names, mu)" by (metis prod_cases3)
  let ?st1 = "if names ! m = names ! n then extend_at n (extend_at m st) else st"
  obtain l1 names1 mu1 where st1: "?st1 = (l1, names1, mu1)" by (metis prod_cases3)
  have "alias_inv (extend_at n (extend_at m st))" if "names ! m = names ! n"
  proof -
    have "drop (current (l ! n)) (parts (l ! n)) = drop (current (l ! m)) (parts (l ! m))"
      using that inv m n st join_inject [of "l ! n" "l ! m"] by (auto simp: list_all_length)
    then have sh: "shared (map parts (fst st)) (parts (fst st ! m)) (current (fst st ! m))"
      "shared (map parts (fst (extend_at m st))) (parts (fst (extend_at m st) ! n))
          (current (fst (extend_at m st) ! n))"
      using shared_current_extend_at [of st n m] False m n st by auto
    have "alias_inv (extend_at m st)" by (rule alias_inv_extend_at [OF inv m sh(1)])
    then show ?thesis by (rule alias_inv_extend_at) (use n sh(2) in auto)
  qed
  then have inv1: "alias_inv (l1, names1, mu1)" using inv st1 by (auto split: if_splits)
  have "progress st (extend_at n (extend_at m st))"
    using m n by (intro progress_trans [OF progress_extend_at progress_extend_at]) auto
  then have p1: "progress st (l1, names1, mu1)"
    unfolding st1 [symmetric] by simp
  then have len: "length l1 = length l" and parts1: "map parts l1 = map parts l" using st by auto
  have parts_eq: "parts (l1 ! k) = parts (l ! k)" if "k < length l" for k
    using parts1 len that by (metis nth_map)
  obtain a b c where ext: "extendIfSuffixMatches (l1 ! m) (l1 ! n) = (a, b, c)"
    by (metis prod_cases3)
  have mem: "parts (l1 ! m) \<in> set (map parts l1)" "parts (l1 ! n) \<in> set (map parts l1)"
    using m n len st by auto
  have just: "justified (map parts l1) a \<and> justified (map parts l1) b"
  proof (rule justified_extendIfSuffixMatches [OF ext _ mem])
    show "parts (l1 ! m) \<noteq> parts (l1 ! n)" using False m n st parts_eq by auto
  qed (use inv1 m n len st in \<open>auto simp: list_all_length\<close>)
  obtain ma mb where grown: "grown (l1 ! m, False) (a, ma)" "grown (l1 ! n, False) (b, mb)"
    using extendIfSuffixMatches_grown [OF ext] by blast
  have "alias_inv (l1[m := a], names1[m := join a], True)"
    using alias_inv_update [OF inv1 _ grown(1)] just m len st by simp
  moreover have "map parts (l1[m := a]) = map parts l1"
    using grown m len st by (auto simp: map_update list_update_same_conv)
  ultimately have "alias_inv (l1[m := a, n := b], names1[m := join a, n := join b], True)"
    using alias_inv_update [of "l1[m := a]" "names1[m := join a]" True n False b mb] False
      grown(2) just n len st by auto
  then show ?thesis
    using False inv1 st1 ext st by (auto simp: alias_visit_def simp del: alias_inv.simps)
qed (use inv in \<open>auto simp: alias_visit_def split: prod.splits\<close>)

lemma alias_inv_fold:
  assumes "\<And>x s. x \<in> set xs \<Longrightarrow> length (fst s) = k \<Longrightarrow> alias_inv s \<Longrightarrow> alias_inv (f x s)"
    and "\<And>x s. x \<in> set xs \<Longrightarrow> length (fst s) = k \<Longrightarrow> progress s (f x s)"
    and "length (fst s) = k" and "alias_inv s"
  shows "alias_inv (fold f xs s)"
  using assms
proof (induction xs arbitrary: s)
  case (Cons x xs)
  have "length (fst (f x s)) = k"
    using progress_length [of s "f x s"] Cons.prems by simp
  then show ?case using Cons by simp
qed simp

lemma alias_inv_alias_row:
  assumes "length (fst st) = k" and "n < k" and "alias_inv st"
  shows "alias_inv (alias_row k n st)"
  unfolding alias_row_def
  by (rule alias_inv_fold [where k = k])
    (use assms in \<open>auto intro: alias_inv_alias_visit progress_alias_visit\<close>)

lemma alias_inv_alias_round:
  assumes "alias_inv (l, names, False)"
  shows "alias_inv (alias_round l names)"
  unfolding alias_round_def
  by (rule alias_inv_fold [where k = "length l"])
    (use assms in \<open>auto intro: alias_inv_alias_row progress_alias_row simp del: alias_inv.simps\<close>)

lemma alias_inv_flag: "alias_inv (l, names, b) \<longleftrightarrow> alias_inv (l, names, c)"
  by simp

subsection \<open>When a round changes nothing\<close>

lemma extend_at_quiet:
  "\<not> snd (snd (extend_at k st)) \<Longrightarrow> extend_at k st = st \<and> \<not> extendable (fst st ! k)"
  by (auto simp: extend_at_def extend_def split: prod.splits if_splits)

lemma alias_visit_quiet:
  assumes "\<not> snd (snd (alias_visit n m (l, names, mu)))"
  shows "alias_visit n m (l, names, mu) = (l, names, mu)"
    and "m \<noteq> n \<Longrightarrow> parts (l ! m) \<noteq> parts (l ! n) \<Longrightarrow> names ! m = names ! n \<Longrightarrow> \<not> extendable (l ! m)"
    and "m \<noteq> n \<Longrightarrow> parts (l ! m) \<noteq> parts (l ! n) \<Longrightarrow>
      \<not> snd (snd (extendIfSuffixMatches (l ! m) (l ! n)))"
proof -
  let ?st = "(l, names, mu)"
  let ?st1 = "if names ! m = names ! n then extend_at n (extend_at m ?st) else ?st"
  obtain l1 names1 mu1 where st1: "?st1 = (l1, names1, mu1)" by (metis prod_cases3)
  have mu: "\<not> mu1 \<and> \<not> snd (snd (extendIfSuffixMatches (l1 ! m) (l1 ! n)))
      \<and> alias_visit n m ?st = (l1, names1, mu1)"
    if "m \<noteq> n" "parts (l ! m) \<noteq> parts (l ! n)"
    using assms that st1 by (auto simp: alias_visit_def split: prod.splits if_splits)
  have same: "?st1 = ?st \<and> (names ! m = names ! n \<longrightarrow> \<not> extendable (l ! m))"
    if "m \<noteq> n" "parts (l ! m) \<noteq> parts (l ! n)"
  proof (cases "names ! m = names ! n")
    case True
    have q2: "\<not> snd (snd (extend_at n (extend_at m ?st)))"
      using True mu [OF that] st1 by simp
    then have e: "extend_at n (extend_at m ?st) = extend_at m ?st"
      using extend_at_quiet by blast
    with q2 have "\<not> snd (snd (extend_at m ?st))" by simp
    then have "extend_at m ?st = ?st" "\<not> extendable (l ! m)"
      using extend_at_quiet [of m ?st] by auto
    with e show ?thesis by simp
  qed simp
  show "alias_visit n m ?st = ?st"
  proof (cases "m \<noteq> n \<and> parts (l ! m) \<noteq> parts (l ! n)")
    case True
    with mu same st1 show ?thesis by simp
  qed (auto simp: alias_visit_def)
  show "\<not> extendable (l ! m)" if "m \<noteq> n" "parts (l ! m) \<noteq> parts (l ! n)" "names ! m = names ! n"
    using same that by blast
  show "\<not> snd (snd (extendIfSuffixMatches (l ! m) (l ! n)))" if "m \<noteq> n" "parts (l ! m) \<noteq> parts (l ! n)"
    using same that mu st1 by simp
qed

lemma extend_suffixes_quiet:
  assumes "extendable a" and "\<not> snd (extend_suffixes b k (a, False))" and "current b < i" and "i \<le> k"
  shows "drop (current a) (parts a) \<noteq> drop i (parts b)"
  using assms
proof (induction k)
  case (Suc k)
  show ?case
  proof (cases "drop (current a) (parts a) = drop (Suc k) (parts b)")
    case True
    then have "extend_suffixes b (Suc k) (a, False) = extend_suffixes b k (fst (extend a), True)"
      using Suc.prems by (auto simp: extend_def)
    moreover have "grown (fst (extend a), True) (extend_suffixes b k (fst (extend a), True))"
      by (rule grown_extend_suffixes)
    ultimately show ?thesis
      using Suc.prems(2) by (cases "extend_suffixes b k (fst (extend a), True)") auto
  next
    case False
    with Suc show ?thesis by (cases "i = Suc k") auto
  qed
qed simp

lemma extendIfSuffixMatches_quiet:
  assumes "extendable a" and "\<not> snd (snd (extendIfSuffixMatches a b))"
    and "current b < i" and "i \<le> last_part b"
  shows "drop (current a) (parts a) \<noteq> drop i (parts b)"
proof -
  have "drop (current a - 1) (parts a) \<noteq> drop (current b) (parts b)"
  proof
    assume eq: "drop (current a - 1) (parts a) = drop (current b) (parts b)"
    obtain a1 where a1: "extend a = (a1, True)" using assms(1) by (auto simp: extend_def)
    obtain b1 mb where b1: "extend b = (b1, mb)" by fastforce
    have "grown (a1, True) (extend_suffixes b1 (last_part b1) (a1, True))"
      by (rule grown_extend_suffixes)
    then show False
      using assms(1,2) eq a1 b1
      by (cases "extend_suffixes b1 (last_part b1) (a1, True)")
        (auto simp: extendIfSuffixMatches_def)
  qed
  then have "\<not> snd (extend_suffixes b (last_part b) (a, False))"
    using assms(1,2) by (auto simp: extendIfSuffixMatches_def split: prod.splits)
  then show ?thesis using assms by (intro extend_suffixes_quiet) auto
qed

lemma alias_round_quiet:
  assumes "alias_round l names = (l', names', False)" and "n < length l" and "m < length l"
  shows "l' = l" "names' = names" "\<not> snd (snd (alias_visit n m (l, names, False)))"
proof -
  define flag where "flag = (\<lambda>st :: alias_state. snd (snd st))"
  have visit: "alias_visit i j st = st" if "\<not> flag (alias_visit i j st)" for i j st
    using that alias_visit_quiet(1) [of i j "fst st" "fst (snd st)" "snd (snd st)"]
    by (simp add: flag_def)
  have row: "alias_row k i st = st \<and> (\<forall>j\<in>set [0..<k]. alias_visit i j st = st)"
    if "\<not> flag (alias_row k i st)" for k i st
    unfolding alias_row_def
    by (rule fold_quiet [where flag = flag]) (use that visit in \<open>auto simp: alias_row_def\<close>)
  have round: "alias_round l names = (l, names, False) \<and>
      (\<forall>i\<in>set [0..<length l]. alias_row (length l) i (l, names, False) = (l, names, False))"
    unfolding alias_round_def
    by (rule fold_quiet [where flag = flag])
      (use assms(1) row in \<open>auto simp: alias_round_def flag_def\<close>)
  with assms(1) show "l' = l" "names' = names" by auto
  have "\<not> flag (alias_row (length l) n (l, names, False))"
    using round assms(2) by (simp add: flag_def)
  from row [OF this] assms(3) show "\<not> snd (snd (alias_visit n m (l, names, False)))"
    by simp
qed

text \<open>In a quiet state an alias that could still grow ends no other name.\<close>

lemma quiet_not_shared:
  assumes inv: "alias_inv (l, names, False)" and k: "k < length l"
    and quiet: "\<And>n m. n < length l \<Longrightarrow> m < length l \<Longrightarrow> \<not> snd (snd (alias_visit n m (l, names, False)))"
    and ext: "extendable (l ! k)"
  shows "\<not> shared (map parts l) (parts (l ! k)) (current (l ! k))"
proof
  assume "shared (map parts l) (parts (l ! k)) (current (l ! k))"
  then obtain j where j: "j < length l" "parts (l ! j) \<noteq> parts (l ! k)"
      and suf: "suffix (drop (current (l ! k)) (parts (l ! k))) (parts (l ! j))"
    by (auto simp: shared_def in_set_conv_nth)
  then have jk: "j \<noteq> k" by blast
  have ok: "alias_ok (l ! k)" "alias_ok (l ! j)" using inv k j by (auto simp: list_all_length)
  note fit = alias_okD [OF ok(1)] alias_okD [OF ok(2)]
  have last: "last_part (l ! x) = length (parts (l ! x)) - 1" if "x = k \<or> x = j" for x
    using ok that by (auto simp: alias_ok_def)
  from suf obtain zs where zs: "parts (l ! j) = zs @ drop (current (l ! k)) (parts (l ! k))"
    by (auto simp: suffix_def)
  define i where "i = length zs"
  have eq: "drop i (parts (l ! j)) = drop (current (l ! k)) (parts (l ! k))"
    by (simp add: zs i_def)
  have i_le: "i \<le> last_part (l ! j)"
    using arg_cong [OF eq, of length] fit last by auto
  consider "current (l ! j) < i" | "current (l ! j) = i" | "i < current (l ! j)" by linarith
  then show False
  proof cases
    case 1
    have "\<not> snd (snd (extendIfSuffixMatches (l ! k) (l ! j)))"
      using alias_visit_quiet(3) [OF quiet, of j k] j k jk by auto
    from extendIfSuffixMatches_quiet [OF ext this 1 i_le] eq show False by simp
  next
    case 2
    then have "names ! k = names ! j"
      using inv j k eq by (auto simp: join_def)
    then show False using alias_visit_quiet(2) [OF quiet, of j k] j k jk ext by auto
  next
    case 3
    define e where "e = current (l ! k) + (current (l ! j) - i)"
    have ej: "drop (current (l ! j)) (parts (l ! j)) = drop e (parts (l ! k))"
      using 3 arg_cong [OF eq, of "drop (current (l ! j) - i)"] by (simp add: e_def add.commute)
    have "e \<le> last_part (l ! k)"
      using arg_cong [OF ej, of length] fit last by auto
    moreover have "current (l ! k) < e" using 3 by (simp add: e_def)
    moreover have "extendable (l ! j)" using 3 by (simp add: extendable_def)
    moreover have "\<not> snd (snd (extendIfSuffixMatches (l ! j) (l ! k)))"
      using alias_visit_quiet(3) [OF quiet, of k j] j k jk by auto
    ultimately show False using extendIfSuffixMatches_quiet ej by blast
  qed
qed

subsection \<open>The result of \<open>MakeAliasesForNames\<close>\<close>

text \<open>The cache as \<open>NewAliasCache\<close> makes it: every alias is the last component.\<close>

definition fresh_cache :: "AliasCache \<Rightarrow> bool" where
  "fresh_cache l \<longleftrightarrow> list_all (\<lambda>i. alias_ok i \<and> current i = last_part i) l"

lemma fresh_newImageName: "alias_ok (newImageName name tag digest) \<and>
    current (newImageName name tag digest) = last_part (newImageName name tag digest)"
  by (auto simp: alias_ok_def newImageName_def Let_def dest: strings_Split_no_sep)

lemma fresh_NewAliasCache_images [simp]: "fresh_cache (NewAliasCache_images images)"
  using fresh_newImageName by (simp add: fresh_cache_def NewAliasCache_images_def list_all_iff)

lemma fresh_NewAliasCache_strings [simp]: "fresh_cache (NewAliasCache_strings names)"
  using fresh_newImageName
  by (simp add: fresh_cache_def NewAliasCache_strings_def list_all_iff split: prod.splits)

lemma alias_inv_fresh:
  assumes "fresh_cache l"
  shows "alias_inv (l, map shortest l, mu)"
proof -
  have "shortest i = join i" if "i \<in> set l" for i
  proof -
    have "alias_ok i" "current i = last_part i" using that assms by (auto simp: fresh_cache_def list_all_iff)
    moreover then have "drop (current i) (parts i) = [parts i ! last_part i]"
      using alias_okD(3) [of i] Cons_nth_drop_Suc [of "current i" "parts i"]
      by (auto simp: alias_ok_def)
    ultimately show ?thesis by (simp add: shortest_def join_def)
  qed
  then show ?thesis using assms by (auto simp: fresh_cache_def list_all_iff justified_def)
qed

lemma alias_rounds_spec:
  assumes "alias_inv (l, names, False)" and "alias_rounds l names = (l', names')"
  shows "alias_inv (l', names', False) \<and> map parts l' = map parts l \<and>
    alias_round l' names' = (l', names', False)"
  using assms
proof (induction l names rule: alias_rounds.induct)
  case (1 l names)
  obtain l1 names1 mu where r: "alias_round l names = (l1, names1, mu)" by (metis prod_cases3)
  have inv: "alias_inv (l1, names1, False)"
    using alias_inv_alias_round [OF 1(2)] r by simp
  have p: "map parts l1 = map parts l"
    using progress_alias_round [of l names] r by simp
  show ?case
  proof (cases mu)
    case True
    with 1(3) r have "alias_rounds l1 names1 = (l', names')"
      by (simp add: alias_rounds.simps [of l names])
    with 1(1) [OF r [symmetric] refl] True inv p show ?thesis by auto
  next
    case False
    with 1(3) r have "l' = l1" "names' = names1"
      by (simp_all add: alias_rounds.simps [of l names])
    moreover have "l1 = l" "names1 = names"
      using progress_alias_round [of l names] r False by auto
    ultimately show ?thesis using inv r False by simp
  qed
qed

lemma MakeAliasesForNames_spec:
  assumes "fresh_cache l" and "MakeAliasesForNames l = (l', aliases)"
  shows "map parts l' = map parts l" and "aliases = map join l'" and "list_all alias_ok l'"
    and "k < length l' \<Longrightarrow> current (l' ! k) =
      alias_start (map parts l) (parts (l' ! k)) (length (parts (l' ! k)) - 1)"
proof -
  have spec: "alias_inv (l', aliases, False)" "map parts l' = map parts l"
    "alias_round l' aliases = (l', aliases, False)"
    using alias_rounds_spec [OF alias_inv_fresh [OF assms(1)]] assms(2)
    by (auto simp: MakeAliasesForNames_def simp del: alias_inv.simps)
  then show "map parts l' = map parts l" "aliases = map join l'" "list_all alias_ok l'" by auto
  assume k: "k < length l'"
  have quiet: "\<not> snd (snd (alias_visit n m (l', aliases, False)))"
    if "n < length l'" "m < length l'" for n m
    using alias_round_quiet(3) [OF spec(3) that] .
  have ok: "alias_ok (l' ! k)" "justified (map parts l) (l' ! k)"
    using spec k by (auto simp: list_all_length)
  have "alias_start (map parts l) (parts (l' ! k)) (length (parts (l' ! k)) - 1) = current (l' ! k)"
  proof (rule alias_start_unique)
    show "current (l' ! k) \<le> length (parts (l' ! k)) - 1" using ok(1) by (simp add: alias_ok_def)
  next
    fix d
    assume "current (l' ! k) < d" and "d \<le> length (parts (l' ! k)) - 1"
    then show "shared (map parts l) (parts (l' ! k)) d"
      using ok by (simp add: justified_def alias_ok_def)
  next
    assume "0 < current (l' ! k)"
    then show "\<not> shared (map parts l) (parts (l' ! k)) (current (l' ! k))"
      using quiet_not_shared [OF spec(1) k quiet] spec(2) by (simp add: extendable_def)
  qed
  then show "current (l' ! k) =
      alias_start (map parts l) (parts (l' ! k)) (length (parts (l' ! k)) - 1)" by simp
qed

text \<open>The aliases of a list of names, as a function of the names alone.\<close>

definition alias_of :: "string list \<Rightarrow> string \<Rightarrow> string" where
  "alias_of names name =
     strings_Join (alias_parts (map (strings_Split separator) names) (strings_Split separator name))
       [separator]"

lemma MakeAliasesForNames_alias_of:
  assumes "fresh_cache l" and "map parts l = map (strings_Split separator) names"
  shows "snd (MakeAliasesForNames l) = map (alias_of names) names"
proof -
  obtain l' al where r: "MakeAliasesForNames l = (l', al)" by fastforce
  note spec = MakeAliasesForNames_spec [OF assms(1) r]
  have len: "length l' = length names"
    using arg_cong [OF spec(1), of length] arg_cong [OF assms(2), of length] by simp
  have "al ! k = alias_of names (names ! k)" if "k < length names" for k
  proof -
    have "parts (l' ! k) = strings_Split separator (names ! k)"
      using spec(1) assms(2) that len by (metis nth_map)
    then show ?thesis
      using that len spec(2) spec(4) [of k] assms(2)
      by (simp add: alias_of_def alias_parts_def join_def)
  qed
  then show ?thesis using len spec(2) r by (auto intro: nth_equalityI)
qed

lemma aliases_distinct:
  assumes "fresh_cache l" and "MakeAliasesForNames l = (l', aliases)"
    and "i < length l" and "j < length l" and "parts (l ! i) \<noteq> parts (l ! j)"
  shows "join (l' ! i) \<noteq> join (l' ! j)"
proof
  note spec = MakeAliasesForNames_spec [OF assms(1,2)]
  assume eq: "join (l' ! i) = join (l' ! j)"
  have len: "length l' = length l" using arg_cong [OF spec(1), of length] by simp
  have ps: "parts (l' ! k) = parts (l ! k)" if "k < length l" for k
    using spec(1) that len by (metis nth_map)
  have ok: "alias_ok (l' ! i)" "alias_ok (l' ! j)" using spec(3) assms len by (auto simp: list_all_length)
  from eq have d: "drop (current (l' ! i)) (parts (l' ! i)) = drop (current (l' ! j)) (parts (l' ! j))"
    using join_inject [OF ok] by simp
  have sh: "shared (map parts l) (parts (l' ! a)) (current (l' ! a))"
    if "(a, b) = (i, j) \<or> (a, b) = (j, i)" for a b
  proof (rule sharedI [of _ _ "parts (l' ! b)"])
    show "suffix (drop (current (l' ! a)) (parts (l' ! a))) (parts (l' ! b))"
      using that d suffix_drop by (metis prod.inject)
  qed (use that assms ps len in auto)
  have "current (l' ! a) = 0" if "(a, b) = (i, j) \<or> (a, b) = (j, i)" for a b
    using sh [OF that] spec(4) [of a] alias_start_not_shared that assms len by (metis neq0_conv prod.inject)
  from this [of i j] this [of j i] have "parts (l' ! i) = parts (l' ! j)" using d by simp
  with assms ps show False by simp
qed

subsection \<open>Looking an alias up\<close>

lemma Match_candidates:
  assumes "fresh_cache l" and r: "MakeAliasesForNames l = (l', aliases)" and i: "i < length l"
  shows "filter (\<lambda>j. aliases ! i = join j \<or> aliases ! i = longest j) l' =
    filter (\<lambda>j. parts j = parts (l' ! i)) l'"
proof (rule filter_cong [OF refl])
  note spec = MakeAliasesForNames_spec [OF assms(1,2)]
  have len: "length l' = length l" using arg_cong [OF spec(1), of length] by simp
  fix x
  assume "x \<in> set l'"
  then obtain j where j: "j < length l'" "x = l' ! j" by (auto simp: in_set_conv_nth)
  have ps: "parts (l' ! k) = parts (l ! k)" if "k < length l" for k
    using spec(1) that len by (metis nth_map)
  have ok: "alias_ok (l' ! i)" "alias_ok (l' ! j)" using spec(3) i j len by (auto simp: list_all_length)
  have al: "aliases ! i = join (l' ! i)" using spec(2) i len by simp
  show "(aliases ! i = join x \<or> aliases ! i = longest x) \<longleftrightarrow> parts x = parts (l' ! i)"
  proof (cases "parts x = parts (l' ! i)")
    case True
    then have "current x = current (l' ! i)" using spec(4) [of i] spec(4) [of j] i j len by simp
    with True al show ?thesis by (simp add: join_def)
  next
    case False
    then have "join (l' ! i) \<noteq> join x"
      using aliases_distinct [OF assms(1,2) i, of j] ps i j len by auto
    moreover have "join (l' ! i) \<noteq> longest x"
    proof
      assume "join (l' ! i) = longest x"
      then have eq: "drop (current (l' ! i)) (parts (l' ! i)) = parts x"
        unfolding join_def longest_def
        using ok j strings_Join_inject [of "drop (current (l' ! i)) (parts (l' ! i))" "parts x" separator]
          alias_okD [OF ok(1)] by (auto simp: alias_ok_def)
      then have "shared (map parts l) (parts (l' ! i)) (current (l' ! i))"
        using False j ps len by (intro sharedI [of _ _ "parts x"]) auto
      then have "current (l' ! i) = 0"
        using spec(4) [of i] alias_start_not_shared i len by (metis neq0_conv)
      with eq False show False by simp
    qed
    ultimately show ?thesis using False al by simp
  qed
qed

lemma Match_MakeAliases:
  assumes "fresh_cache l" and "MakeAliasesForNames l = (l', aliases)" and "i < length l"
  shows "Match l' (aliases ! i) =
    (let n = count_list (map parts l) (parts (l ! i)); name = longest (l ! i)
     in if n = 1 then (name, [], True) else ([], replicate n name, False))"
proof -
  note spec = MakeAliasesForNames_spec [OF assms(1,2)]
  have len: "length l' = length l" using arg_cong [OF spec(1), of length] by simp
  have ps: "parts (l' ! i) = parts (l ! i)" using spec(1) assms(3) len by (metis nth_map)
  let ?cs = "filter (\<lambda>j. parts j = parts (l' ! i)) l'"
  have "map longest ?cs = replicate (length ?cs) (longest (l ! i))"
    using ps by (intro replicate_eqI) (auto simp: longest_def)
  moreover have "length ?cs = count_list (map parts l) (parts (l ! i))"
    using ps spec(1) [symmetric] by (simp add: count_list_eq_length_filter filter_map comp_def eq_commute)
  moreover have "l' ! i \<in> set ?cs" using assms(3) len by simp
  then have "?cs \<noteq> []" by (metis empty_iff list.set(1))
  moreover have "Match l' (aliases ! i) =
     (case map longest ?cs of [c] \<Rightarrow> (c, [], True) | _ \<Rightarrow> ([], map longest ?cs, False))"
    unfolding Match_def Match_candidates [OF assms] Let_def
    using \<open>?cs \<noteq> []\<close> by (auto split: list.splits)
  ultimately show ?thesis
    by (cases "length ?cs"; cases "length ?cs - 1") (auto simp: Let_def split: list.splits)
qed

lemma parts_NewAliasCache_images:
  "map parts (NewAliasCache_images images) = map (strings_Split separator) (map OriginalName images)"
  by (simp add: NewAliasCache_images_def newImageName_def Let_def)

lemma split_sep_inject [simp]: "strings_Split separator a = strings_Split separator b \<longleftrightarrow> a = b"
  by (metis strings_Join_Split)

lemma longest_NewAliasCache_images:
  "i < length images \<Longrightarrow> longest (NewAliasCache_images images ! i) = OriginalName (images ! i)"
  by (simp add: NewAliasCache_images_def newImageName_def Let_def longest_def)

lemma length_NewAliasCache_images [simp]: "length (NewAliasCache_images images) = length images"
  by (simp add: NewAliasCache_images_def)

lemma alias_of_cong:
  assumes "set names = set names'"
  shows "alias_of names name = alias_of names' name"
proof -
  have "shared (map (strings_Split separator) names) ps c =
      shared (map (strings_Split separator) names') ps c" for ps c
    using assms by (simp add: shared_def)
  then have "alias_start (map (strings_Split separator) names) ps c =
      alias_start (map (strings_Split separator) names') ps c" for ps c
    by (induction c) auto
  then show ?thesis by (simp add: alias_of_def alias_parts_def)
qed

text \<open>Images to evaluate the definitions on.\<close>

definition sample_image :: "string \<Rightarrow> image" where
  "sample_image name = \<lparr>Sources = [], OriginalName = name, OriginalTag = [], Digest = [],
     NewName = [], NewTag = [], Alias = None\<rparr>"

definition sample_images :: "image list" where
  "sample_images = map sample_image [''a.io/x/web'', ''b.io/x/web'', ''b.io/x/db'', ''b.io/x/db'']"

lemma sample_names:
  "length sample_images = 4"
  "map OriginalName sample_images = [''a.io/x/web'', ''b.io/x/web'', ''b.io/x/db'', ''b.io/x/db'']"
  "OriginalName (sample_images ! Suc 0) = ''b.io/x/web''"
  "OriginalName (sample_images ! Suc (Suc 0)) = ''b.io/x/db''"
  by (simp_all add: sample_images_def sample_image_def)

lemma sample_aliases:
  "snd (MakeAliasesForNames (NewAliasCache_images sample_images)) =
     [''a.io/x/web'', ''b.io/x/web'', ''db'', ''db'']"
  by code_simp

subsection \<open>Properties\<close>

text \<open>
  C15: the aliasing loop computes its specification: the alias of every image is the shortest
  suffix of its name's components that is not a suffix of a different image's name, or the
  whole name when every suffix is.  In particular the nested loops always end, the result
  does not depend on the order of the images, and equal names get equal aliases.
\<close>

theorem MakeAliasesForNames_shortest_own_suffix:
  "snd (MakeAliasesForNames (NewAliasCache_images images)) =
     map (alias_of (map OriginalName images)) (map OriginalName images)"
  by (rule MakeAliasesForNames_alias_of) (simp_all add: parts_NewAliasCache_images)

text \<open>C21: two images whose names differ never get the same alias.\<close>

theorem aliases_of_different_names_differ:
  assumes "i < length images" and "j < length images"
    and "OriginalName (images ! i) \<noteq> OriginalName (images ! j)"
  shows "snd (MakeAliasesForNames (NewAliasCache_images images)) ! i \<noteq>
    snd (MakeAliasesForNames (NewAliasCache_images images)) ! j"
proof -
  let ?l = "NewAliasCache_images images"
  obtain l' al where r: "MakeAliasesForNames ?l = (l', al)" by fastforce
  note spec = MakeAliasesForNames_spec [OF fresh_NewAliasCache_images r]
  have "length l' = length images" using arg_cong [OF spec(1), of length] by simp
  moreover have "join (l' ! i) \<noteq> join (l' ! j)"
    by (rule aliases_distinct [OF fresh_NewAliasCache_images r])
      (use assms in \<open>simp_all add: NewAliasCache_images_def newImageName_def Let_def\<close>)
  ultimately show ?thesis using spec(2) r assms by simp
qed

theorem aliases_of_different_names_differ_witness:
  "snd (MakeAliasesForNames (NewAliasCache_images sample_images)) ! 0 \<noteq>
   snd (MakeAliasesForNames (NewAliasCache_images sample_images)) ! 1"
  by (rule aliases_of_different_names_differ) (simp_all add: sample_images_def sample_image_def)

text \<open>
  C22: looking an alias up finds the image it was made for: \<open>Match\<close> on the cache the aliases
  were computed in returns the full name when one image has it, and when several images share
  the name it reports all of them as candidates and no match.
\<close>

theorem Match_finds_alias:
  assumes "i < length images"
  shows "Match (fst (MakeAliasesForNames (NewAliasCache_images images)))
      (snd (MakeAliasesForNames (NewAliasCache_images images)) ! i) =
    (let name = OriginalName (images ! i); n = count_list (map OriginalName images) name
     in if n = 1 then (name, [], True) else ([], replicate n name, False))"
proof -
  let ?l = "NewAliasCache_images images"
  obtain l' al where r: "MakeAliasesForNames ?l = (l', al)" by fastforce
  have "parts (?l ! i) = strings_Split separator (OriginalName (images ! i))"
    using assms by (simp add: NewAliasCache_images_def newImageName_def Let_def)
  moreover have "count_list (map (strings_Split separator) names) (strings_Split separator n)
      = count_list names n" for names n
    by (induction names) auto
  ultimately show ?thesis
    using Match_MakeAliases [OF fresh_NewAliasCache_images r, of i] assms r
    by (simp add: parts_NewAliasCache_images longest_NewAliasCache_images Let_def del: map_map)
qed

theorem Match_finds_alias_witness:
  "Match (fst (MakeAliasesForNames (NewAliasCache_images sample_images)))
     (snd (MakeAliasesForNames (NewAliasCache_images sample_images)) ! 1) =
     (''b.io/x/web'', [], True) \<and>
   Match (fst (MakeAliasesForNames (NewAliasCache_images sample_images)))
     (snd (MakeAliasesForNames (NewAliasCache_images sample_images)) ! 2) =
     ([], [''b.io/x/db'', ''b.io/x/db''], False)"
  using Match_finds_alias [of 1 sample_images] Match_finds_alias [of 2 sample_images]
  by (simp add: sample_names numeral_2_eq_2 Let_def)

end
