(* ===== verification/Go_Filepath.thy ===== *)
theory Go_Filepath
  imports Go_Strings "HOL-Library.Sublist"
begin

section \<open>File paths\<close>

text \<open>
  The functions of Go's package \<open>path/filepath\<close> on Unix that the program calls: \<open>Clean\<close>,
  \<open>Join\<close>, \<open>Rel\<close>, \<open>Dir\<close>, \<open>Base\<close>, \<open>Ext\<close> and \<open>IsAbs\<close>.  A path is cleaned component by
  component: empty components and \<open>.\<close> go, \<open>..\<close> takes the component before it, at the root it
  goes too, and at the start of a relative path it stays.
\<close>

subsection \<open>Definitions\<close>

definition slash :: char where
  "slash = CHR ''/''"

definition filepath_IsAbs :: "string \<Rightarrow> bool" where
  "filepath_IsAbs p \<longleftrightarrow> (case p of [] \<Rightarrow> False | c # _ \<Rightarrow> c = slash)"

definition path_step :: "bool \<Rightarrow> string \<Rightarrow> string list \<Rightarrow> string list" where
  "path_step rooted c st =
     (if c = [] \<or> c = ''.'' then st
      else if c = ''..'' then
        (case st of
           [] \<Rightarrow> if rooted then [] else [''..'']
         | prev # rest \<Rightarrow> if prev = ''..'' then ''..'' # st else rest)
      else c # st)"

definition clean_comps :: "bool \<Rightarrow> string list \<Rightarrow> string list" where
  "clean_comps rooted cs = rev (fold (path_step rooted) cs [])"

definition path_comps :: "string \<Rightarrow> string list" where
  "path_comps p = clean_comps (filepath_IsAbs p) (strings_Split slash p)"

definition path_of :: "bool \<Rightarrow> string list \<Rightarrow> string" where
  "path_of rooted cs =
     (if rooted then slash # strings_Join cs [slash]
      else if cs = [] then ''.'' else strings_Join cs [slash])"

definition filepath_Clean :: "string \<Rightarrow> string" where
  "filepath_Clean p = path_of (filepath_IsAbs p) (path_comps p)"

definition filepath_Join :: "string list \<Rightarrow> string" where
  "filepath_Join elems =
     (case dropWhile (\<lambda>e. e = []) elems of
        [] \<Rightarrow> []
      | es \<Rightarrow> filepath_Clean (strings_Join es [slash]))"

text \<open>The components \<open>Rel\<close> walks over: those of a cleaned path, with \<open>.\<close> as the empty base.\<close>

definition rel_comps :: "string \<Rightarrow> string list" where
  "rel_comps p = (if p = [] then [] else if p = [slash] then [[]] else strings_Split slash p)"

fun strip_common :: "string list \<Rightarrow> string list \<Rightarrow> string list \<times> string list" where
  "strip_common (x # xs) (y # ys) = (if x = y then strip_common xs ys else (x # xs, y # ys))"
| "strip_common xs ys = (xs, ys)"

definition filepath_Rel :: "string \<Rightarrow> string \<Rightarrow> string res" where
  "filepath_Rel basepath targpath =
     (let base = filepath_Clean basepath; targ = filepath_Clean targpath
      in if targ = base then Inr ''.''
         else
           let base = (if base = ''.'' then [] else base)
           in if filepath_IsAbs base \<noteq> filepath_IsAbs targ
              then Inl (Fail (CannotMakeRelative targpath basepath))
              else case strip_common (rel_comps base) (rel_comps targ) of
                ([], ts) \<Rightarrow> Inr (strings_Join ts [slash])
              | (b # bs, ts) \<Rightarrow>
                  if b = ''..'' then Inl (Fail (CannotMakeRelative targpath basepath))
                  else Inr (strings_Join (replicate (Suc (length bs)) ''..'' @ ts) [slash]))"

definition filepath_Dir :: "string \<Rightarrow> string" where
  "filepath_Dir p = filepath_Clean (rev (dropWhile (\<lambda>c. c \<noteq> slash) (rev p)))"

definition filepath_Base :: "string \<Rightarrow> string" where
  "filepath_Base p =
     (if p = [] then ''.''
      else let q = rev (dropWhile (\<lambda>c. c = slash) (rev p));
               b = rev (takeWhile (\<lambda>c. c \<noteq> slash) (rev q))
           in if b = [] then [slash] else b)"

definition filepath_Ext :: "string \<Rightarrow> string" where
  "filepath_Ext p =
     (let plain = (\<lambda>c. c \<noteq> CHR ''.'' \<and> c \<noteq> slash); r = rev p
      in case dropWhile plain r of
           [] \<Rightarrow> []
         | c # _ \<Rightarrow> if c = CHR ''.'' then c # rev (takeWhile plain r) else [])"

subsection \<open>Cleaned components\<close>

definition normal_comps :: "bool \<Rightarrow> string list \<Rightarrow> bool" where
  "normal_comps rooted cs \<longleftrightarrow>
     (\<exists>n ds. cs = replicate n ''..'' @ ds \<and> ''..'' \<notin> set ds \<and> (rooted \<longrightarrow> n = 0)) \<and>
     [] \<notin> set cs \<and> ''.'' \<notin> set cs \<and> (\<forall>c\<in>set cs. slash \<notin> set c)"

text \<open>Components that go down only: none of them is \<open>..\<close>.\<close>

definition down_comps :: "string list \<Rightarrow> bool" where
  "down_comps cs \<longleftrightarrow>
     [] \<notin> set cs \<and> ''.'' \<notin> set cs \<and> ''..'' \<notin> set cs \<and> (\<forall>c\<in>set cs. slash \<notin> set c)"

lemma down_comps_normal [simp]: "down_comps cs \<Longrightarrow> normal_comps rooted cs"
  unfolding down_comps_def normal_comps_def by (auto intro!: exI [of _ 0])

lemma normal_comps_down: "normal_comps rooted cs \<Longrightarrow> ''..'' \<notin> set cs \<Longrightarrow> down_comps cs"
  by (auto simp: down_comps_def normal_comps_def)

lemma normal_comps_rooted [simp]: "normal_comps True cs \<longleftrightarrow> down_comps cs"
  by (auto simp: down_comps_def normal_comps_def)

lemma down_comps_simps [simp]:
  "down_comps []"
  "down_comps (c # cs) \<longleftrightarrow>
     c \<noteq> [] \<and> c \<noteq> ''.'' \<and> c \<noteq> ''..'' \<and> slash \<notin> set c \<and> down_comps cs"
  "down_comps (cs @ ds) \<longleftrightarrow> down_comps cs \<and> down_comps ds"
  "down_comps (rev cs) \<longleftrightarrow> down_comps cs"
  by (auto simp: down_comps_def)

lemma fold_down: "down_comps cs \<Longrightarrow> fold (path_step rooted) cs st = rev cs @ st"
  by (induction cs arbitrary: st) (auto simp: path_step_def)

lemma fold_up: "fold (path_step False) (replicate n ''..'') (replicate m ''..'') = replicate (n + m) ''..''"
proof (induction n arbitrary: m)
  case (Suc n)
  have "path_step False ''..'' (replicate m ''..'') = replicate (Suc m) ''..''"
    by (cases m) (auto simp: path_step_def)
  then show ?case using Suc [of "Suc m"] by simp
qed simp

lemma fold_normal: "normal_comps rooted cs \<Longrightarrow> fold (path_step rooted) cs [] = rev cs"
proof -
  assume norm: "normal_comps rooted cs"
  then obtain n ds where cs: "cs = replicate n ''..'' @ ds" "rooted \<longrightarrow> n = 0"
      and "''..'' \<notin> set ds"
    by (auto simp: normal_comps_def)
  with norm have ds: "down_comps ds" by (auto simp: normal_comps_def down_comps_def)
  have "fold (path_step rooted) (replicate n ''..'') [] = replicate n ''..''"
    using cs(2) fold_up [of n 0] by (cases rooted) auto
  with ds show ?thesis by (simp add: cs fold_down)
qed

lemma normal_path_step:
  assumes "normal_comps rooted (rev st)" and "slash \<notin> set c"
  shows "normal_comps rooted (rev (path_step rooted c st))"
proof -
  obtain n ds where ds: "rev st = replicate n ''..'' @ ds" "''..'' \<notin> set ds" "rooted \<longrightarrow> n = 0"
    using assms(1) unfolding normal_comps_def by blast
  then have st: "st = rev ds @ replicate n ''..''" "''..'' \<notin> set ds" "rooted \<longrightarrow> n = 0"
    by (simp_all add: rev_swap)
  have mem: "[] \<notin> set st" "''.'' \<notin> set st" "\<forall>c\<in>set st. slash \<notin> set c"
    using assms(1) by (simp_all add: normal_comps_def)
  consider "c = [] \<or> c = ''.''" | "c = ''..''" "ds = []" | "c = ''..''" "ds \<noteq> []"
    | "c \<noteq> []" "c \<noteq> ''.''" "c \<noteq> ''..''" by blast
  then show ?thesis
  proof cases
    case 1
    with assms(1) show ?thesis by (simp add: path_step_def)
  next
    case 2
    then have "path_step rooted c st = (if rooted then [] else replicate (Suc n) ''..'')"
      using st by (cases n) (auto simp: path_step_def)
    moreover have "normal_comps False (replicate (Suc n) ''..'')"
      unfolding normal_comps_def by (auto simp: slash_def intro!: exI [of _ "Suc n"])
    ultimately show ?thesis by (auto simp del: replicate_Suc)
  next
    case 3
    then obtain es e where "ds = es @ [e]" by (cases ds rule: rev_cases) auto
    moreover from this st(2) have "e \<noteq> ''..''" by auto
    ultimately have "rev (path_step rooted c st) = replicate n ''..'' @ es"
      using 3 st(1) by (simp add: path_step_def)
    then show ?thesis
      using st mem \<open>ds = es @ [e]\<close> unfolding normal_comps_def by (auto intro!: exI [of _ n])
  next
    case 4
    then have "rev (path_step rooted c st) = replicate n ''..'' @ (ds @ [c])"
      using st by (simp add: path_step_def)
    then show ?thesis
      using st mem 4 assms(2) unfolding normal_comps_def by (auto intro!: exI [of _ n])
  qed
qed

lemma normal_clean_comps:
  assumes "\<And>c. c \<in> set cs \<Longrightarrow> slash \<notin> set c"
  shows "normal_comps rooted (clean_comps rooted cs)"
proof -
  have "normal_comps rooted (rev st) \<Longrightarrow> \<forall>c\<in>set cs. slash \<notin> set c \<Longrightarrow>
      normal_comps rooted (rev (fold (path_step rooted) cs st))" for cs st
    by (induction cs arbitrary: st) (auto intro: normal_path_step)
  from this [of "[]" cs] assms show ?thesis by (simp add: clean_comps_def)
qed

lemma normal_path_comps [simp]: "normal_comps (filepath_IsAbs p) (path_comps p)"
  unfolding path_comps_def by (rule normal_clean_comps) (rule strings_Split_no_sep)

lemma path_comps_no_slash: "c \<in> set (path_comps p) \<Longrightarrow> slash \<notin> set c"
  using normal_path_comps [of p] by (auto simp: normal_comps_def)

subsection \<open>Paths of components\<close>

lemma strings_Split_append:
  "strings_Split c (a @ c # b) = strings_Split c a @ strings_Split c b"
proof (induction a)
  case (Cons x xs)
  then show ?case by (cases "strings_Split c xs") auto
qed simp

lemma IsAbs_path_of [simp]: "normal_comps rooted cs \<Longrightarrow> filepath_IsAbs (path_of rooted cs) = rooted"
proof (cases rooted)
  case False
  assume norm: "normal_comps rooted cs"
  show ?thesis
  proof (cases cs)
    case (Cons c cs')
    with norm have "c \<noteq> []" "slash \<notin> set c" by (auto simp: normal_comps_def)
    then show ?thesis
      using False Cons by (cases c) (auto simp: path_of_def filepath_IsAbs_def strings_Join_Cons)
  qed (use False in \<open>simp add: path_of_def filepath_IsAbs_def slash_def\<close>)
qed (simp add: path_of_def filepath_IsAbs_def)

lemma path_comps_path_of [simp]:
  assumes "normal_comps rooted cs"
  shows "path_comps (path_of rooted cs) = cs"
proof -
  have no_slash: "\<And>c. c \<in> set cs \<Longrightarrow> slash \<notin> set c"
    using assms by (auto simp: normal_comps_def)
  have split: "strings_Split slash (strings_Join cs [slash]) = (if cs = [] then [[]] else cs)"
    using strings_Split_Join [of cs slash] no_slash by auto
  have empty: "fold (path_step rooted) [[]] [] = []" by (simp add: path_step_def)
  have cons: "fold (path_step rooted) ([] # cs) [] = fold (path_step rooted) cs []"
    by (simp add: path_step_def)
  have dot: "fold (path_step False) [''.''] [] = []" by (simp add: path_step_def)
  show ?thesis
  proof (cases rooted)
    case True
    then have "strings_Split slash (path_of rooted cs) = [] # (if cs = [] then [[]] else cs)"
      by (simp add: path_of_def split)
    then show ?thesis
      using True assms fold_normal [OF assms] empty cons
      by (auto simp: path_comps_def clean_comps_def path_step_def)
  next
    case False
    then have "strings_Split slash (path_of rooted cs) = (if cs = [] then [''.''] else cs)"
      using split by (auto simp: path_of_def slash_def)
    then show ?thesis
      using False assms fold_normal [OF assms] dot by (auto simp: path_comps_def clean_comps_def)
  qed
qed

lemma path_of_inject:
  assumes "normal_comps r cs" and "normal_comps r ds"
  shows "path_of r cs = path_of r ds \<longleftrightarrow> cs = ds"
proof
  assume eq: "path_of r cs = path_of r ds"
  from arg_cong [OF eq, of path_comps] assms show "cs = ds" by simp
qed simp

lemma path_comps_Clean [simp]: "path_comps (filepath_Clean p) = path_comps p"
  by (simp add: filepath_Clean_def)

lemma IsAbs_Clean [simp]: "filepath_IsAbs (filepath_Clean p) = filepath_IsAbs p"
  by (simp add: filepath_Clean_def)

lemma Clean_Clean [simp]: "filepath_Clean (filepath_Clean p) = filepath_Clean p"
  unfolding filepath_Clean_def [of "filepath_Clean p"] by (simp add: filepath_Clean_def)

lemma Clean_eq_iff:
  "filepath_Clean p = filepath_Clean q \<longleftrightarrow>
     filepath_IsAbs p = filepath_IsAbs q \<and> path_comps p = path_comps q"
proof
  assume eq: "filepath_Clean p = filepath_Clean q"
  from arg_cong [OF eq, of filepath_IsAbs] arg_cong [OF eq, of path_comps]
  show "filepath_IsAbs p = filepath_IsAbs q \<and> path_comps p = path_comps q" by simp
qed (simp add: filepath_Clean_def)

lemma Clean_path_of [simp]: "normal_comps r cs \<Longrightarrow> filepath_Clean (path_of r cs) = path_of r cs"
  by (simp add: filepath_Clean_def)

subsection \<open>Join\<close>

lemma filepath_Join_two:
  "filepath_Join [a, b] =
     (if a = [] then (if b = [] then [] else filepath_Clean b)
      else filepath_Clean (a @ slash # b))"
  by (simp add: filepath_Join_def)

lemma IsAbs_append: "a \<noteq> [] \<Longrightarrow> filepath_IsAbs (a @ b) = filepath_IsAbs a"
  by (cases a) (auto simp: filepath_IsAbs_def)

text \<open>Joining a path that goes down only appends its components.\<close>

lemma path_comps_down: "\<not> filepath_IsAbs b \<Longrightarrow> ''..'' \<notin> set (path_comps b) \<Longrightarrow> down_comps (path_comps b)"
  by (rule normal_comps_down [OF normal_path_comps])

lemma fold_path_step_dots:
  assumes "filter (\<lambda>c. c \<noteq> [] \<and> c \<noteq> ''.'') cs = filter (\<lambda>c. c \<noteq> [] \<and> c \<noteq> ''.'') ds"
  shows "fold (path_step r) cs st = fold (path_step r) ds st"
proof -
  have "fold (path_step r) xs st = fold (path_step r) (filter (\<lambda>c. c \<noteq> [] \<and> c \<noteq> ''.'') xs) st" for xs
    by (induction xs arbitrary: st) (auto simp: path_step_def)
  from this [of cs] this [of ds] assms show ?thesis by simp
qed

text \<open>A path written without \<open>..\<close> anywhere.\<close>

definition plain_rel :: "string \<Rightarrow> bool" where
  "plain_rel p \<longleftrightarrow> \<not> filepath_IsAbs p \<and> ''..'' \<notin> set (strings_Split slash p)"

lemma plain_rel_comps:
  assumes "''..'' \<notin> set (strings_Split slash p)"
  shows "path_comps p = filter (\<lambda>c. c \<noteq> [] \<and> c \<noteq> ''.'') (strings_Split slash p)"
    and "down_comps (path_comps p)"
proof -
  let ?cs = "filter (\<lambda>c. c \<noteq> [] \<and> c \<noteq> ''.'') (strings_Split slash p)"
  have down: "down_comps ?cs"
    using assms strings_Split_no_sep [of _ slash p] by (auto simp: down_comps_def)
  have "fold (path_step (filepath_IsAbs p)) (strings_Split slash p) [] =
      fold (path_step (filepath_IsAbs p)) ?cs []"
    by (rule fold_path_step_dots) simp
  then show "path_comps p = ?cs"
    using fold_down [OF down] by (simp add: path_comps_def clean_comps_def)
  with down show "down_comps (path_comps p)" by simp
qed

lemma path_comps_append:
  assumes "a \<noteq> []" and "''..'' \<notin> set (strings_Split slash b)"
  shows "path_comps (a @ slash # b) = path_comps a @ path_comps b"
proof -
  let ?r = "filepath_IsAbs a"
  have "path_comps (a @ slash # b) =
      rev (fold (path_step ?r) (strings_Split slash b) (fold (path_step ?r) (strings_Split slash a) []))"
    using assms(1) by (simp add: path_comps_def clean_comps_def strings_Split_append IsAbs_append)
  also have "\<dots> = rev (fold (path_step ?r) (path_comps b)
      (fold (path_step ?r) (strings_Split slash a) []))"
    unfolding plain_rel_comps(1) [OF assms(2)] by (subst fold_path_step_dots) auto
  also have "\<dots> = path_comps a @ path_comps b"
    using fold_down [OF plain_rel_comps(2) [OF assms(2)]]
    by (simp add: path_comps_def clean_comps_def)
  finally show ?thesis .
qed

lemma path_comps_Join:
  assumes "a \<noteq> []" and "''..'' \<notin> set (strings_Split slash b)"
  shows "path_comps (filepath_Join [a, b]) = path_comps a @ path_comps b"
    and "filepath_IsAbs (filepath_Join [a, b]) = filepath_IsAbs a"
  using assms by (simp_all add: filepath_Join_two path_comps_append IsAbs_append)

text \<open>Different plain paths under one directory stay different unless they clean to the same.\<close>

lemma filepath_Join_inject:
  assumes "''..'' \<notin> set (strings_Split slash p)" and "''..'' \<notin> set (strings_Split slash q)"
    and "p \<noteq> []" and "q \<noteq> []" and "filepath_IsAbs p = filepath_IsAbs q"
  shows "filepath_Join [d, p] = filepath_Join [d, q] \<longleftrightarrow> filepath_Clean p = filepath_Clean q"
proof (cases "d = []")
  case True
  with assms show ?thesis by (simp add: filepath_Join_two)
next
  case False
  then have "filepath_Join [d, p] = filepath_Join [d, q] \<longleftrightarrow>
      path_comps (d @ slash # p) = path_comps (d @ slash # q)"
    by (simp add: filepath_Join_two Clean_eq_iff IsAbs_append)
  also have "\<dots> \<longleftrightarrow> path_comps p = path_comps q"
    using False assms by (simp add: path_comps_append)
  finally show ?thesis using assms(5) by (simp add: Clean_eq_iff)
qed

subsection \<open>Dir climbs\<close>

text \<open>A cleaned path is no longer than the path, and \<open>Dir\<close> makes a path smaller or leaves it.\<close>

definition comps_size :: "string list \<Rightarrow> nat" where
  "comps_size cs = sum_list (map (\<lambda>c. Suc (length c)) cs)"

lemma comps_size_simps [simp]:
  "comps_size [] = 0" "comps_size (c # cs) = Suc (length c) + comps_size cs"
  "comps_size (cs @ ds) = comps_size cs + comps_size ds" "comps_size (rev cs) = comps_size cs"
  by (simp_all add: comps_size_def rev_map [symmetric] sum_list_rev)

lemma comps_size_Split: "comps_size (strings_Split c s) = Suc (length s)"
proof (induction s)
  case (Cons x xs)
  then show ?case by (cases "strings_Split c xs") auto
qed simp

lemma comps_size_Join: "cs \<noteq> [] \<Longrightarrow> Suc (length (strings_Join cs [c])) = comps_size cs"
  by (induction cs "[c]" rule: strings_Join.induct) auto

lemma comps_size_clean:
  "comps_size (clean_comps r cs) \<le> comps_size (filter (\<lambda>c. c \<noteq> []) cs)"
proof -
  have step: "comps_size (path_step r c st) \<le> comps_size (filter (\<lambda>c. c \<noteq> []) [c]) + comps_size st" for c st
    by (cases st) (auto simp: path_step_def)
  have "comps_size (fold (path_step r) cs st) \<le> comps_size (filter (\<lambda>c. c \<noteq> []) cs) + comps_size st" for st
  proof (induction cs arbitrary: st)
    case (Cons c cs)
    from Cons [of "path_step r c st"] step [of c st] show ?case
      by (cases "c = []") auto
  qed simp
  from this [of "[]"] show ?thesis by (simp add: clean_comps_def)
qed

lemma length_Clean:
  assumes "p \<noteq> []"
  shows "length (filepath_Clean p) \<le> length p"
    and "last p = slash \<Longrightarrow> filepath_Clean p \<noteq> p \<Longrightarrow> length (filepath_Clean p) < length p"
proof -
  let ?r = "filepath_IsAbs p" and ?cs = "strings_Split slash p"
  let ?full = "filter (\<lambda>c. c \<noteq> []) ?cs"
  have size: "comps_size ?full + length (filter (\<lambda>c. c = []) ?cs) = Suc (length p)"
  proof -
    have "comps_size (filter (\<lambda>c. c \<noteq> []) xs) + length (filter (\<lambda>c. c = []) xs) = comps_size xs" for xs
      by (induction xs) auto
    then show ?thesis by (simp add: comps_size_Split)
  qed
  have bound: "path_comps p \<noteq> [] \<Longrightarrow>
      length (filepath_Clean p) \<le> (if ?r then comps_size ?full else comps_size ?full - 1)"
    using comps_size_clean [of ?r ?cs] comps_size_Join [of "path_comps p" slash]
    by (auto simp: filepath_Clean_def path_of_def path_comps_def)
  have one: "path_comps p = [] \<Longrightarrow> length (filepath_Clean p) = 1"
    by (auto simp: filepath_Clean_def path_of_def)
  have rooted: "?r \<Longrightarrow> ?cs = [] # strings_Split slash (tl p)"
    using assms by (cases p) (auto simp: filepath_IsAbs_def)
  have "?r \<Longrightarrow> 1 \<le> length (filter (\<lambda>c. c = []) ?cs)" by (simp add: rooted)
  moreover have "1 \<le> length p" using assms by (cases p) simp_all
  ultimately show "length (filepath_Clean p) \<le> length p"
    using size bound one by (cases "path_comps p = []"; cases ?r; simp only: if_True if_False simp_thms; linarith)
  assume l: "last p = slash" and ne: "filepath_Clean p \<noteq> p"
  then obtain q where p: "p = q @ [slash]" using assms by (metis append_butlast_last_id)
  have "q \<noteq> []"
  proof
    assume "q = []"
    then have "filepath_Clean p = p"
      using p Clean_path_of [of True "[]"] by (simp add: path_of_def)
    with ne show False by simp
  qed
  then have cs: "?cs = strings_Split slash q @ [[]]"
    using strings_Split_append [of slash q "[]"] by (simp add: p)
  have "?r \<Longrightarrow> 2 \<le> length (filter (\<lambda>c. c = []) ?cs)"
  proof -
    assume ?r
    then have "filepath_IsAbs q" using \<open>q \<noteq> []\<close> by (simp add: p IsAbs_append)
    then obtain t where "q = slash # t" by (cases q) (auto simp: filepath_IsAbs_def)
    then show ?thesis by (simp add: cs)
  qed
  moreover have "1 \<le> length (filter (\<lambda>c. c = []) ?cs)" by (simp add: cs)
  moreover have "2 \<le> length p" using \<open>q \<noteq> []\<close> by (cases q) (simp_all add: p)
  ultimately show "length (filepath_Clean p) < length p"
    using size bound one by (cases "path_comps p = []"; cases ?r; simp only: if_True if_False simp_thms; linarith)
qed

definition climb_measure :: "string \<Rightarrow> nat" where
  "climb_measure p = (if p = ''.'' then 0 else Suc (length p))"

lemma Dir_climbs: "filepath_Dir p \<noteq> p \<Longrightarrow> climb_measure (filepath_Dir p) < climb_measure p"
proof -
  assume ne: "filepath_Dir p \<noteq> p"
  let ?x = "rev (dropWhile (\<lambda>c. c \<noteq> slash) (rev p))"
  have dir: "filepath_Dir p = filepath_Clean ?x" by (simp add: filepath_Dir_def)
  have px: "p = ?x @ rev (takeWhile (\<lambda>c. c \<noteq> slash) (rev p))"
    by (metis rev_append rev_rev_ident takeWhile_dropWhile_id)
  then have len: "length ?x \<le> length p" by (metis le_add1 length_append)
  show ?thesis
  proof (cases "?x = []")
    case True
    have "filepath_Clean [] = ''.''"
      by (simp add: filepath_Clean_def path_comps_def clean_comps_def path_step_def path_of_def
          filepath_IsAbs_def)
    with True have "filepath_Dir p = ''.''" unfolding dir by (simp only:)
    with ne show ?thesis by (auto simp: climb_measure_def)
  next
    case False
    then have "last ?x = slash"
      by (metis (mono_tags, lifting) hd_dropWhile last_rev rev_is_Nil_conv)
    have "p \<noteq> ''.''"
    proof
      assume "p = ''.''"
      then have "?x = []" by (simp add: slash_def)
      with False show False by simp
    qed
    have "length (filepath_Dir p) < length p"
    proof (cases "?x = p")
      case True
      then show ?thesis using length_Clean(2) [OF False \<open>last ?x = slash\<close>] ne dir by simp
    next
      case xp: False
      then have "length ?x < length p"
        by (metis le_neq_implies_less len length_0_conv length_append nat_arith.rule0 add_left_cancel
            px append_Nil2)
      with length_Clean(1) [OF False] show ?thesis unfolding dir by linarith
    qed
    with \<open>p \<noteq> ''.''\<close> show ?thesis by (simp add: climb_measure_def)
  qed
qed

lemma Dir_path_of:
  assumes "down_comps (cs @ [c])"
  shows "filepath_Dir (path_of True (cs @ [c])) = path_of True cs"
proof -
  have join: "strings_Join (cs @ [c]) [slash] = (if cs = [] then c else strings_Join cs [slash] @ slash # c)"
    by (induction cs "[slash]" rule: strings_Join.induct) (auto simp: strings_Join_Cons)
  have c: "slash \<notin> set c" using assms by simp
  then have drop: "dropWhile (\<lambda>x. x \<noteq> slash) (rev c @ slash # ys) = slash # ys" for ys
    by (subst dropWhile_append2) auto
  have "filepath_Dir (path_of True (cs @ [c])) =
      filepath_Clean (if cs = [] then [slash] else path_of True cs @ slash # [])"
    by (auto simp: filepath_Dir_def path_of_def join drop)
  also have "\<dots> = path_of True cs"
  proof (cases "cs = []")
    case True
    then show ?thesis using Clean_path_of [of True "[]"] by (simp add: path_of_def)
  next
    case False
    have comps: "path_comps (path_of True cs @ slash # []) = cs"
      using path_comps_append [of "path_of True cs" "[]"] assms
      by (simp add: path_of_def [of True cs, symmetric] path_comps_def [of "[]"] clean_comps_def
          path_step_def filepath_IsAbs_def) (simp add: path_of_def)
    moreover have "filepath_IsAbs (path_of True cs @ slash # [])"
      by (simp add: path_of_def filepath_IsAbs_def)
    ultimately show ?thesis using False by (simp add: filepath_Clean_def)
  qed
  finally show ?thesis .
qed

subsection \<open>Rel between paths that go down\<close>

lemma strip_common_prefix: "fst (strip_common ds fs) = [] \<longleftrightarrow> prefix ds fs"
  by (induction ds fs rule: strip_common.induct) auto

lemma strip_common_append [simp]: "strip_common ds (ds @ es) = ([], es)"
  by (induction ds) (cases es; simp)+

lemma set_strip_common:
  "set (fst (strip_common ds fs)) \<subseteq> set ds" "set (snd (strip_common ds fs)) \<subseteq> set fs"
  by (induction ds fs rule: strip_common.induct) auto

lemma path_of_eq_dot: "normal_comps r cs \<Longrightarrow> path_of r cs = ''.'' \<longleftrightarrow> \<not> r \<and> cs = []"
proof
  assume norm: "normal_comps r cs" and eq: "path_of r cs = ''.''"
  have "\<not> r" using eq by (cases r) (auto simp: path_of_def slash_def)
  moreover have "path_comps (path_of False []) = []" by (rule path_comps_path_of) simp
  ultimately have "path_comps (path_of r cs) = []" using eq by (simp add: path_of_def)
  with norm \<open>\<not> r\<close> show "\<not> r \<and> cs = []" by simp
qed (simp add: path_of_def)

lemma rel_comps_path_of:
  assumes "down_comps cs"
  shows "rel_comps (path_of True cs) = [] # cs" and "cs \<noteq> [] \<Longrightarrow> rel_comps (path_of False cs) = cs"
proof -
  have split: "cs \<noteq> [] \<Longrightarrow> strings_Split slash (strings_Join cs [slash]) = cs"
    using assms by (intro strings_Split_Join) (auto simp: down_comps_def)
  have ne: "cs \<noteq> [] \<Longrightarrow> strings_Join cs [slash] \<noteq> []"
    using assms by (cases cs) (auto simp: strings_Join_Cons)
  show "rel_comps (path_of True cs) = [] # cs"
    using split ne by (cases "cs = []") (auto simp: rel_comps_def path_of_def)
  assume "cs \<noteq> []"
  moreover have "strings_Join cs [slash] \<noteq> [slash]"
    using assms \<open>cs \<noteq> []\<close> by (cases cs) (auto simp: strings_Join_Cons append_eq_Cons_conv)
  ultimately show "rel_comps (path_of False cs) = cs"
    using split ne \<open>cs \<noteq> []\<close> by (simp add: rel_comps_def path_of_def)
qed

lemma Rel_inside_root:
  assumes "down_comps (rs @ ds)" and "ds \<noteq> []"
  shows "filepath_Rel (path_of True rs) (path_of True (rs @ ds)) = Inr (path_of False ds)"
proof -
  have down: "down_comps rs" "down_comps (rs @ ds)" using assms(1) by simp_all
  have "path_of True (rs @ ds) \<noteq> path_of True rs"
    using assms by (subst path_of_inject) auto
  moreover have "path_of True rs \<noteq> ''.''" by (simp add: path_of_def slash_def)
  moreover have "filepath_IsAbs (path_of True cs)" for cs by (simp add: path_of_def filepath_IsAbs_def)
  ultimately show ?thesis
    using assms(2) down
    by (simp add: filepath_Rel_def Let_def rel_comps_path_of path_of_def [of False])
qed

lemma Rel_relative_cases:
  assumes "down_comps ds" and "down_comps fs" and "fs \<noteq> []"
  shows "\<exists>rel. filepath_Rel (path_of False ds) (path_of False fs) = Inr rel \<and>
    (if fs = ds then rel = ''.''
     else rel = strings_Join (replicate (length (fst (strip_common ds fs))) ''..'' @ snd (strip_common ds fs)) [slash])"
proof -
  have inj: "path_of False fs = path_of False ds \<longleftrightarrow> fs = ds"
    using assms by (subst path_of_inject) auto
  have abs: "\<not> filepath_IsAbs (path_of False cs)" if "down_comps cs" for cs
    using that by simp
  let ?b = "if path_of False ds = ''.'' then [] else path_of False ds"
  have base: "rel_comps ?b = ds" "\<not> filepath_IsAbs ?b"
    using assms(1) abs path_of_eq_dot [of False ds] rel_comps_path_of(2) [of ds]
    by (auto simp: rel_comps_def filepath_IsAbs_def)
  have rel: "filepath_Rel (path_of False ds) (path_of False fs) =
      (if fs = ds then Inr ''.''
       else case strip_common ds fs of
              ([], ts) \<Rightarrow> Inr (strings_Join ts [slash])
            | (b # bs, ts) \<Rightarrow>
                if b = ''..'' then Inl (Fail (CannotMakeRelative (path_of False fs) (path_of False ds)))
                else Inr (strings_Join (replicate (Suc (length bs)) ''..'' @ ts) [slash]))"
    using assms abs [OF assms(2)] base inj rel_comps_path_of(2) [OF assms(2,3)]
    by (simp add: filepath_Rel_def Let_def)
  show ?thesis
  proof (cases "strip_common ds fs")
    case (Pair bs ts)
    moreover have "''..'' \<notin> set bs"
      using set_strip_common(1) [of ds fs] assms(1) Pair by (auto simp: down_comps_def)
    ultimately show ?thesis using rel by (cases bs) auto
  qed
qed

subsection \<open>Absolute paths of files in a directory\<close>

text \<open>Cleaning a relative path first does not change what it is under an absolute one.\<close>

lemma path_step_skip: "c = [] \<or> c = ''.'' \<Longrightarrow> path_step r c st = st"
  by (auto simp: path_step_def)

lemma path_step_relative:
  "c = ''..'' \<and> st \<noteq> [] \<and> hd st \<noteq> ''..'' \<and> path_step False c st = tl st \<or>
   path_step False c st = st \<and> (c = [] \<or> c = ''.'') \<or>
   path_step False c st = c # st \<and> c \<noteq> [] \<and> c \<noteq> ''.''"
  by (cases st) (auto simp: path_step_def)

lemma fold_rooted_clean:
  "fold (path_step True) (clean_comps False cs) st = fold (path_step True) cs st"
proof -
  have "fold (path_step True) (rev (fold (path_step False) cs [])) st = fold (path_step True) cs st \<and>
      [] \<notin> set (fold (path_step False) cs []) \<and> ''.'' \<notin> set (fold (path_step False) cs [])"
  proof (induction cs rule: rev_induct)
    case (snoc c cs)
    let ?s = "fold (path_step False) cs []"
    from path_step_relative [of c ?s] consider
        "c = ''..''" "?s \<noteq> []" "hd ?s \<noteq> ''..''" "path_step False c ?s = tl ?s"
      | "path_step False c ?s = ?s" "c = [] \<or> c = ''.''"
      | "path_step False c ?s = c # ?s" "c \<noteq> []" "c \<noteq> ''.''"
      by blast
    then show ?case
    proof cases
      case 1
      then obtain x xs where s: "?s = x # xs" "x \<noteq> ''..''" by (cases ?s) auto
      then have x: "x \<noteq> []" "x \<noteq> ''.''" using snoc by auto
      have "fold (path_step True) cs st = path_step True x (fold (path_step True) (rev xs) st)"
        using snoc s by simp
      also have "\<dots> = x # fold (path_step True) (rev xs) st"
        using s(2) x by (simp add: path_step_def [of True x])
      finally have "path_step True ''..'' (fold (path_step True) cs st) = fold (path_step True) (rev xs) st"
        using s(2) by (simp add: path_step_def [of True "''..''"])
      with 1 s snoc show ?thesis by simp
    next
      case 2
      with snoc show ?thesis by (simp add: path_step_skip)
    next
      case 3
      with snoc show ?thesis by auto
    qed
  qed simp
  then show ?thesis by (simp add: clean_comps_def)
qed

lemma path_comps_rooted_append:
  assumes "filepath_IsAbs a"
  shows "path_comps (a @ slash # b) =
    rev (fold (path_step True) (strings_Split slash b) (rev (path_comps a)))"
proof -
  have "a \<noteq> []" using assms by (auto simp: filepath_IsAbs_def)
  then have "filepath_IsAbs (a @ slash # b)" using assms by (simp add: IsAbs_append)
  with assms show ?thesis
    by (simp add: path_comps_def [of "a @ slash # b"] path_comps_def [of a] clean_comps_def
        strings_Split_append)
qed

lemma path_comps_append_Clean:
  assumes "filepath_IsAbs a" and "\<not> filepath_IsAbs q"
  shows "path_comps (a @ slash # filepath_Clean q) = path_comps (a @ slash # q)"
proof -
  have "fold (path_step True) (strings_Split slash (filepath_Clean q)) st =
      fold (path_step True) (path_comps q) st" for st
  proof -
    have "fold (path_step True) (strings_Split slash (filepath_Clean q)) st =
        fold (path_step True) (clean_comps False (strings_Split slash (filepath_Clean q))) st"
      by (rule fold_rooted_clean [symmetric])
    also have "clean_comps False (strings_Split slash (filepath_Clean q)) = path_comps q"
      using path_comps_Clean [of q] assms(2) unfolding path_comps_def [of "filepath_Clean q"] by simp
    finally show ?thesis .
  qed
  moreover have "fold (path_step True) (path_comps q) st = fold (path_step True) (strings_Split slash q) st" for st
    using assms(2) by (simp add: path_comps_def fold_rooted_clean)
  ultimately show ?thesis by (simp add: path_comps_rooted_append [OF assms(1)])
qed

lemma Clean_rooted: "filepath_IsAbs p \<Longrightarrow> filepath_Clean p = path_of True (path_comps p)"
  by (simp add: filepath_Clean_def)

lemma Join_under_root:
  assumes "filepath_IsAbs wd" and "d \<noteq> []" and "p \<noteq> []" and "''..'' \<notin> set (strings_Split slash p)"
    and "\<not> filepath_IsAbs d"
  shows "filepath_Join [wd, filepath_Join [d, p]] = path_of True (path_comps (filepath_Join [wd, d]) @ path_comps p)"
proof -
  have wd: "wd \<noteq> []" using assms(1) by (auto simp: filepath_IsAbs_def)
  have rel: "\<not> filepath_IsAbs (d @ slash # p)" using assms(2,5) by (simp add: IsAbs_append)
  have abs: "filepath_IsAbs (wd @ x)" for x using assms(1) wd by (simp add: IsAbs_append)
  have "filepath_Join [wd, filepath_Join [d, p]] = filepath_Clean (wd @ slash # filepath_Clean (d @ slash # p))"
    using wd assms(2) by (simp add: filepath_Join_two)
  also have "\<dots> = path_of True (path_comps (wd @ slash # d @ slash # p))"
    by (simp only: Clean_rooted [OF abs] path_comps_append_Clean [OF assms(1) rel])
  also have "path_comps (wd @ slash # d @ slash # p) = path_comps (wd @ slash # d) @ path_comps p"
    using path_comps_append [of "wd @ slash # d" p] assms(4) by simp
  also have "path_comps (wd @ slash # d) = path_comps (filepath_Join [wd, d])"
    using wd by (simp add: filepath_Join_two)
  finally show ?thesis .
qed

end
