(* ===== verification/Image_List.thy ===== *)
theory Image_List
  imports Alias Go_Filepath
begin

section \<open>Lists of images\<close>

text \<open>
  \<open>manifest/image/list.go\<close>: the list of images a run works on, with the relation between
  images and the images found to belong to them, deduplication, aliases and grouping by
  manifest.
\<close>

subsection \<open>Data and operations\<close>

text \<open>\<open>deduped\<close> is the state of \<open>dedupeLock\<close>: whether its \<^verbatim>\<open>sync.Once\<close> has run.\<close>

record ImageList =
  items :: "image list"
  dir :: string
  deduped :: bool
  relationEntries :: "(string, string) gomap"

definition NewImageList :: "string \<Rightarrow> ImageList" where
  "NewImageList d = \<lparr>items = [], dir = d, deduped = False, relationEntries = []\<rparr>"

definition Paths :: "ImageList \<Rightarrow> string list res" where
  "Paths l = rmap_list (\<lambda>i. rmap (\<lambda>m. filepath_Join [dir l, m]) (image_Manifest i)) (items l)"

definition Len :: "ImageList \<Rightarrow> nat" where
  "Len l = length (items l)"

definition Append :: "image list \<Rightarrow> ImageList \<Rightarrow> ImageList" where
  "Append imgs l = (if length imgs = 0 then l else l\<lparr>items := items l @ imgs\<rparr>)"

definition AppendWithRelationTo :: "image \<Rightarrow> image \<Rightarrow> ImageList \<Rightarrow> ImageList res" where
  "AppendWithRelationTo target img l =
     (let k = Ref True img; t = Ref True target
      in case gm_get (relationEntries l) k of
           Some v \<Rightarrow> Inl (Fail (DuplicateRelation k v t))
         | None \<Rightarrow> Inr (Append [img] (l\<lparr>relationEntries := gm_put k t (relationEntries l)\<rparr>)))"

definition RelatedTo :: "order \<Rightarrow> string \<Rightarrow> ImageList \<Rightarrow> string list" where
  "RelatedTo ord ref l = map fst (filter (\<lambda>(k, v). v = ref) (gm_range ord (relationEntries l)))"

definition GetItemByRef :: "string \<Rightarrow> ImageList \<Rightarrow> image option" where
  "GetItemByRef ref l = find (\<lambda>i. Ref True i = ref) (items l)"

definition GetItemByDigest :: "string \<Rightarrow> ImageList \<Rightarrow> image option" where
  "GetItemByDigest digest l = find (\<lambda>i. Digest i = digest) (items l)"

definition CollectRelatedToRef :: "order \<Rightarrow> string \<Rightarrow> ImageList \<Rightarrow> ImageList" where
  "CollectRelatedToRef ord ref l =
     fold (\<lambda>relatedRef result.
             case GetItemByRef relatedRef l of
               None \<Rightarrow> result
             | Some relatedImage \<Rightarrow> Append [relatedImage] result)
       (RelatedTo ord ref l) (NewImageList (dir l))"

definition MakeAliases :: "ImageList \<Rightarrow> ImageList" where
  "MakeAliases l =
     (let aliases = snd (MakeAliasesForNames (NewAliasCache_images (items l)))
      in l\<lparr>items := map2 (\<lambda>i a. i\<lparr>Alias := Some a\<rparr>) (items l) aliases\<rparr>)"

text \<open>The order of the sources of one image: manifest, line, column.\<close>

definition compare_sources :: "source \<Rightarrow> source \<Rightarrow> int" where
  "compare_sources =
     cmp_then (\<lambda>a b. cmp_Compare (Manifest a) (Manifest b))
       (cmp_then (\<lambda>a b. cmp_Compare (Line a) (Line b)) (\<lambda>a b. cmp_Compare (Column a) (Column b)))"

text \<open>One iteration of the loop that fills \<open>unique\<close>.\<close>

definition dedup_add ::
    "image \<Rightarrow> (string \<times> string, image) gomap \<Rightarrow> (string \<times> string, image) gomap res" where
  "dedup_add img unique =
     rmap (\<lambda>ref.
         let k = (ref, Digest img);
             sources = (case gm_get unique k of
                          Some existing \<Rightarrow> Sources img @ Sources existing
                        | None \<Rightarrow> Sources img)
         in gm_put k
              \<lparr>Sources = sources, OriginalName = OriginalName img, OriginalTag = OriginalTag img,
               Digest = Digest img, NewName = NewName img, NewTag = NewTag img,
               Alias = None\<rparr> unique)
       (image_OriginalRef img)"

definition sort_item_sources :: "order \<Rightarrow> image \<Rightarrow> image" where
  "sort_item_sources ord v =
     (if length (Sources v) > 1
      then v\<lparr>Sources := SortFunc ord compare_sources (Sources v)\<rparr> else v)"

text \<open>
  The function under the \<^verbatim>\<open>sync.Once\<close>.  Choice 0 is the order of the \<^verbatim>\<open>range\<close> over
  \<open>unique\<close>, choice \<open>n + 1\<close> belongs to the sort of the n-th item.
\<close>

definition dedup_items :: "choices \<Rightarrow> image list \<Rightarrow> image list res" where
  "dedup_items c imgs =
     rmap (\<lambda>unique. map (\<lambda>(n, (k, v)). sort_item_sources (c (Suc n)) v)
                      (List.enumerate 0 (gm_range (c 0) unique)))
       (rfold dedup_add imgs [])"

text \<open>On an error the list is unchanged.\<close>

definition Dedup :: "choices \<Rightarrow> ImageList \<Rightarrow> ImageList res" where
  "Dedup c l =
     (case find (\<lambda>i. Digest i = []) (items l) of
        Some img \<Rightarrow> Inl (Fail (ImageHasNoDigest (Ref True img)))
      | None \<Rightarrow>
          rmap MakeAliases
            (if deduped l then Inr l
             else rmap (\<lambda>imgs. l\<lparr>items := imgs, deduped := True\<rparr>) (dedup_items c (items l))))"

text \<open>\<open>GroupByManifest\<close>: one entry per source, filed under the path of its manifest.\<close>

definition single_source :: "image \<Rightarrow> source \<Rightarrow> image" where
  "single_source item s =
     \<lparr>Sources = [s], OriginalName = OriginalName item, OriginalTag = OriginalTag item,
      Digest = Digest item, NewName = NewName item, NewTag = NewTag item, Alias = None\<rparr>"

definition group_add ::
    "string \<Rightarrow> string \<Rightarrow> image \<Rightarrow> (string, ImageList) gomap \<Rightarrow> (string, ImageList) gomap" where
  "group_add d manifest item groups =
     (let p = filepath_Join [d, manifest];
          g = (case gm_get groups p of Some g \<Rightarrow> g | None \<Rightarrow> NewImageList d)
      in gm_put p (Append [item] g) groups)"

definition GroupByManifest :: "ImageList \<Rightarrow> (string, ImageList) gomap" where
  "GroupByManifest l =
     fold (\<lambda>item. fold (\<lambda>s. group_add (dir l) (Manifest s) (single_source item s)) (Sources item))
       (items l) []"

lemmas list_defs = NewImageList_def Append_def

subsection \<open>Appending and relations\<close>

lemma Append_simps [simp]:
  "items (Append imgs l) = items l @ imgs" "dir (Append imgs l) = dir l"
  "deduped (Append imgs l) = deduped l" "relationEntries (Append imgs l) = relationEntries l"
  by (simp_all add: Append_def)

lemma NewImageList_simps [simp]:
  "items (NewImageList d) = []" "dir (NewImageList d) = d" "deduped (NewImageList d) = False"
  "relationEntries (NewImageList d) = []"
  by (simp_all add: NewImageList_def)

lemma items_CollectRelatedToRef:
  "items (CollectRelatedToRef ord ref l) =
     List.map_filter (\<lambda>r. GetItemByRef r l) (RelatedTo ord ref l)"
proof -
  have "items (fold (\<lambda>r res. case GetItemByRef r l of None \<Rightarrow> res | Some i \<Rightarrow> Append [i] res) rs acc)
      = items acc @ List.map_filter (\<lambda>r. GetItemByRef r l) rs" for rs acc
    by (induction rs arbitrary: acc) (auto simp: List.map_filter_simps split: option.splits)
  then show ?thesis by (simp add: CollectRelatedToRef_def)
qed

text \<open>
  Lists made by \<open>AppendWithRelationTo\<close> alone: the relation has exactly one entry for every item,
  in the same order.
\<close>

definition relation_inv :: "ImageList \<Rightarrow> bool" where
  "relation_inv l \<longleftrightarrow> map (Ref True) (items l) = map fst (relationEntries l) \<and>
     distinct (map fst (relationEntries l))"

lemma relation_inv_new [simp]: "relation_inv (NewImageList d)"
  by (simp add: relation_inv_def)

lemma AppendWithRelationTo_Inr_iff:
  "AppendWithRelationTo target img l = Inr l' \<longleftrightarrow>
     Ref True img \<notin> fst ` set (relationEntries l) \<and>
     l' = l\<lparr>items := items l @ [img],
            relationEntries := relationEntries l @ [(Ref True img, Ref True target)]\<rparr>"
  by (auto simp: AppendWithRelationTo_def Let_def gm_get_None_iff [symmetric] gm_put_fresh Append_def
      split: option.splits)

lemma relation_inv_append:
  "AppendWithRelationTo target img l = Inr l' \<Longrightarrow> relation_inv l \<Longrightarrow> relation_inv l'"
  by (auto simp: AppendWithRelationTo_Inr_iff relation_inv_def)

lemma relation_append_all:
  assumes "rfold (\<lambda>(t, i). AppendWithRelationTo t i) ps l = Inr l'"
  shows "items l' = items l @ map snd ps \<and> dir l' = dir l \<and> deduped l' = deduped l \<and>
    relationEntries l' = relationEntries l @ map (\<lambda>(t, i). (Ref True i, Ref True t)) ps \<and>
    (relation_inv l \<longrightarrow> relation_inv l')"
  using assms
proof (induction ps arbitrary: l)
  case (Cons p ps)
  obtain t i where p: "p = (t, i)" by fastforce
  from Cons.prems obtain m where m: "AppendWithRelationTo t i l = Inr m"
      "rfold (\<lambda>(t, i). AppendWithRelationTo t i) ps m = Inr l'"
    by (auto simp: p res_simps)
  from Cons.IH [OF m(2)] m(1) relation_inv_append [OF m(1)] show ?case
    by (simp add: p AppendWithRelationTo_Inr_iff)
qed simp

lemma GetItemByRef_distinct:
  assumes "distinct (map (Ref True) (items l))" and "i \<in> set (items l)"
  shows "GetItemByRef (Ref True i) l = Some i"
proof -
  have "distinct (map (Ref True) xs) \<Longrightarrow> i \<in> set xs \<Longrightarrow> find (\<lambda>j. Ref True j = Ref True i) xs = Some i" for xs
    by (induction xs) auto
  with assms show ?thesis by (simp add: GetItemByRef_def)
qed

text \<open>
  C23: the relation keeps what was put into it: after any sequence of successful
  \<open>AppendWithRelationTo\<close> calls on a new list, \<open>CollectRelatedToRef\<close> returns, for every
  reference, exactly the images that were appended as related to it, in whatever order the map
  iteration visits them.
\<close>

theorem CollectRelatedToRef_returns_what_was_related:
  assumes "rfold (\<lambda>(t, i). AppendWithRelationTo t i) pairs (NewImageList d) = Inr l"
  shows "mset (items (CollectRelatedToRef ord ref l)) =
    mset (map snd (filter (\<lambda>(t, i). Ref True t = ref) pairs))"
proof -
  note spec = relation_append_all [OF assms]
  then have inv: "relation_inv l" by simp
  have items: "items l = map snd pairs" and rel: "relationEntries l = map (\<lambda>(t, i). (Ref True i, Ref True t)) pairs"
    using spec by simp_all
  let ?keys = "map (\<lambda>(t, i). Ref True i) (filter (\<lambda>(t, i). Ref True t = ref) pairs)"
  have "mset (RelatedTo ord ref l) = mset (map fst (filter (\<lambda>(k, v). v = ref) (relationEntries l)))"
    unfolding RelatedTo_def by simp
  also have "map fst (filter (\<lambda>(k, v). v = ref) (relationEntries l)) = ?keys"
    by (simp add: rel filter_map comp_def case_prod_unfold)
  finally have "mset (RelatedTo ord ref l) = mset ?keys" .
  moreover have "mset xs = mset ys \<Longrightarrow> mset (List.map_filter f xs) = mset (List.map_filter f ys)"
    for xs ys and f :: "string \<Rightarrow> image option"
    by (simp add: List.map_filter_def)
  moreover have "List.map_filter (\<lambda>r. GetItemByRef r l) (map (\<lambda>(t, i). Ref True i) qs) = map snd qs"
    if "set qs \<subseteq> set pairs" for qs
    using that
  proof (induction qs)
    case (Cons q qs)
    have "distinct (map (Ref True) (items l))" using inv by (simp add: relation_inv_def)
    then have "GetItemByRef (Ref True (snd q)) l = Some (snd q)"
      by (rule GetItemByRef_distinct) (use Cons.prems items in auto)
    with Cons show ?case by (auto simp: List.map_filter_simps split: prod.splits)
  qed (simp add: List.map_filter_simps)
  ultimately show ?thesis
    by (metis (no_types, lifting) filter_is_subset items_CollectRelatedToRef)
qed

theorem CollectRelatedToRef_returns_what_was_related_witness:
  "let t = sample_image ''a''; pairs = [(t, sample_image ''b''), (sample_image ''x'', sample_image ''c''),
         (t, sample_image ''d'')]
   in \<exists>l. rfold (\<lambda>(t, i). AppendWithRelationTo t i) pairs (NewImageList ''k8s'') = Inr l \<and>
        mset (items (CollectRelatedToRef reversed_order ''a'' l)) =
          {#sample_image ''b'', sample_image ''d''#}"
proof -
  let ?t = "sample_image ''a''"
  let ?pairs = "[(?t, sample_image ''b''), (sample_image ''x'', sample_image ''c''), (?t, sample_image ''d'')]"
  obtain l where "rfold (\<lambda>(t, i). AppendWithRelationTo t i) ?pairs (NewImageList ''k8s'') = Inr l"
    by (simp add: AppendWithRelationTo_def Let_def Ref_def sample_image_def gm_get_def gm_put_def
        Append_def NewImageList_def)
  with CollectRelatedToRef_returns_what_was_related [OF this, of reversed_order "''a''"]
  show ?thesis by (simp add: Let_def) (simp add: Ref_def sample_image_def)
qed

subsection \<open>Aliases of a list\<close>

lemma MakeAliases_eq:
  "MakeAliases l = l\<lparr>items :=
     map (\<lambda>i. i\<lparr>Alias := Some (alias_of (map OriginalName (items l)) (OriginalName i))\<rparr>) (items l)\<rparr>"
proof -
  have "map2 (\<lambda>i a. i\<lparr>Alias := Some a\<rparr>) imgs (map f imgs) = map (\<lambda>i. i\<lparr>Alias := Some (f i)\<rparr>) imgs"
    for imgs and f :: "image \<Rightarrow> string"
    by (induction imgs) auto
  then show ?thesis
    unfolding MakeAliases_def Let_def
    by (subst MakeAliasesForNames_alias_of [OF _ parts_NewAliasCache_images])
      (simp_all add: comp_def)
qed

lemma MakeAliases_simps [simp]:
  "dir (MakeAliases l) = dir l" "deduped (MakeAliases l) = deduped l"
  "relationEntries (MakeAliases l) = relationEntries l"
  by (simp_all add: MakeAliases_eq)

lemma map_items_MakeAliases:
  "(\<And>i a. f (i\<lparr>Alias := a\<rparr>) = f i) \<Longrightarrow> map f (items (MakeAliases l)) = map f (items l)"
  by (simp add: MakeAliases_eq comp_def)

lemma MakeAliases_idem [simp]: "MakeAliases (MakeAliases l) = MakeAliases l"
  by (simp add: MakeAliases_eq [of "MakeAliases l"] map_items_MakeAliases)
    (simp add: MakeAliases_eq comp_def)

subsection \<open>Deduplication\<close>

text \<open>
  Images are the same when they have the same reference in the manifest and the same digest.  An
  image as the scanner and the resolver make it has a source, and all its sources carry the same
  reference.
\<close>

definition key_of :: "image \<Rightarrow> string \<times> string" where
  "key_of i = (OriginalRef (hd (Sources i)), Digest i)"

definition wf_image :: "image \<Rightarrow> bool" where
  "wf_image i \<longleftrightarrow> Sources i \<noteq> [] \<and> (\<forall>s\<in>set (Sources i). OriginalRef s = fst (key_of i))"

text \<open>\<open>o\<close> stands for the images \<open>its\<close>: all their sources, sorted, and the last one's names.\<close>

definition merged_from :: "image list \<Rightarrow> image \<Rightarrow> bool" where
  "merged_from its r \<longleftrightarrow>
     mset (Sources r) = mset (concat (map Sources its)) \<and>
     sorted_wrt (\<lambda>a b. compare_sources a b \<le> 0) (Sources r) \<and>
     OriginalName r = OriginalName (last its) \<and> OriginalTag r = OriginalTag (last its) \<and>
     Digest r = Digest (last its) \<and> NewName r = NewName (last its) \<and> NewTag r = NewTag (last its)"

definition merge_images :: "image list \<Rightarrow> image" where
  "merge_images its =
     (let i = last its
      in \<lparr>Sources = concat (map Sources (rev its)), OriginalName = OriginalName i,
          OriginalTag = OriginalTag i, Digest = Digest i, NewName = NewName i, NewTag = NewTag i,
          Alias = None\<rparr>)"

interpretation sources: comparator compare_sources
  unfolding compare_sources_def by (intro cmp_intros)

lemma compare_sources_0:
  "compare_sources a b = 0 \<longleftrightarrow> Manifest a = Manifest b \<and> Line a = Line b \<and> Column a = Column b"
  by (auto simp: compare_sources_def cmp_then_def split: if_splits)

definition dedup_put ::
    "image \<Rightarrow> (string \<times> string, image) gomap \<Rightarrow> (string \<times> string, image) gomap" where
  "dedup_put img u = gm_put (key_of img)
     (merge_images [img]\<lparr>Sources := Sources img @
        (case gm_get u (key_of img) of Some e \<Rightarrow> Sources e | None \<Rightarrow> [])\<rparr>) u"

lemma dedup_add_eq: "Sources img \<noteq> [] \<Longrightarrow> dedup_add img u = Inr (dedup_put img u)"
  by (simp add: dedup_add_def dedup_put_def image_OriginalRef_Inr key_of_def merge_images_def
      Let_def split: option.splits)

lemma rfold_dedup_add:
  "\<forall>i\<in>set imgs. Sources i \<noteq> [] \<Longrightarrow> rfold dedup_add imgs u = Inr (fold dedup_put imgs u)"
  by (rule rfold_total) (simp add: dedup_add_eq)

lemma gm_ok_fold_dedup_put: "gm_ok u \<Longrightarrow> gm_ok (fold dedup_put imgs u)"
  by (induction imgs arbitrary: u) (auto simp: dedup_put_def gomap.ok_put)

text \<open>What the loop leaves in \<open>unique\<close>, key by key.\<close>

lemma gm_get_fold_dedup_put:
  "gm_get (fold dedup_put imgs []) k =
     (let its = filter (\<lambda>i. key_of i = k) imgs in if its = [] then None else Some (merge_images its))"
proof (induction imgs rule: rev_induct)
  case (snoc img imgs)
  let ?u = "fold dedup_put imgs []"
  have "gm_ok ?u" by (rule gm_ok_fold_dedup_put) simp
  with snoc show ?case
    by (auto simp: dedup_put_def [of img ?u] gomap.get_put Let_def merge_images_def)
qed simp

lemma fold_dedup_put_entry:
  assumes "(k, v) \<in> set (fold dedup_put imgs [])"
  shows "filter (\<lambda>i. key_of i = k) imgs \<noteq> []" and "v = merge_images (filter (\<lambda>i. key_of i = k) imgs)"
proof -
  have "gm_get (fold dedup_put imgs []) k = Some v"
    using assms gm_ok_fold_dedup_put [of "[]" imgs] by (simp add: gm_get_Some_iff)
  then show "filter (\<lambda>i. key_of i = k) imgs \<noteq> []" "v = merge_images (filter (\<lambda>i. key_of i = k) imgs)"
    by (auto simp: gm_get_fold_dedup_put Let_def split: if_splits)
qed

lemma fold_dedup_put_keys: "fst ` set (fold dedup_put imgs []) = key_of ` set imgs"
proof -
  have "k \<in> fst ` set (fold dedup_put imgs []) \<longleftrightarrow> gm_get (fold dedup_put imgs []) k \<noteq> None" for k
    unfolding gm_get_None_iff by simp
  then have "k \<in> fst ` set (fold dedup_put imgs []) \<longleftrightarrow> k \<in> key_of ` set imgs" for k
    by (auto simp: gm_get_fold_dedup_put Let_def filter_empty_conv image_iff)
  then show ?thesis by blast
qed

lemma sort_item_sources_simps [simp]:
  "mset (Sources (sort_item_sources ord v)) = mset (Sources v)"
  "OriginalName (sort_item_sources ord v) = OriginalName v"
  "OriginalTag (sort_item_sources ord v) = OriginalTag v"
  "Digest (sort_item_sources ord v) = Digest v" "NewName (sort_item_sources ord v) = NewName v"
  "NewTag (sort_item_sources ord v) = NewTag v" "Alias (sort_item_sources ord v) = Alias v"
  by (simp_all add: sort_item_sources_def)

lemma sorted_sort_item_sources:
  "sorted_wrt (\<lambda>a b. compare_sources a b \<le> 0) (Sources (sort_item_sources ord v))"
  by (cases "Sources v"; cases "tl (Sources v)")
    (auto simp: sort_item_sources_def sources.sorted_SortFunc)

lemma merge_images_wf:
  assumes "its \<noteq> []" and "\<And>i. i \<in> set its \<Longrightarrow> wf_image i \<and> key_of i = k"
  shows "Sources (merge_images its) \<noteq> []" "\<forall>s\<in>set (Sources (merge_images its)). OriginalRef s = fst k"
    "Digest (merge_images its) = snd k"
proof -
  have last: "last its \<in> set its" "wf_image (last its)" "key_of (last its) = k"
    using assms by simp_all
  from last(3) show "Digest (merge_images its) = snd k"
    by (auto simp: merge_images_def Let_def key_of_def)
  from last(1,2) show "Sources (merge_images its) \<noteq> []"
    unfolding merge_images_def Let_def by (auto simp: wf_image_def)
  show "\<forall>s\<in>set (Sources (merge_images its)). OriginalRef s = fst k"
    using assms(2) by (auto simp: merge_images_def Let_def wf_image_def)
qed

text \<open>One item of the result stands for the images of its key.\<close>

lemma dedup_entry:
  assumes "(k, v) \<in> set (fold dedup_put imgs [])" and "\<forall>i\<in>set imgs. wf_image i"
  shows "key_of (sort_item_sources ord v) = k" "wf_image (sort_item_sources ord v)"
    "merged_from (filter (\<lambda>i. key_of i = k) imgs) (sort_item_sources ord v)"
proof -
  let ?its = "filter (\<lambda>i. key_of i = k) imgs" and ?r = "sort_item_sources ord v"
  note entry = fold_dedup_put_entry [OF assms(1)]
  have its: "\<And>i. i \<in> set ?its \<Longrightarrow> wf_image i \<and> key_of i = k" using assms(2) by simp
  note wf = merge_images_wf [OF entry(1) its, folded entry(2)]
  have set_eq: "set (Sources ?r) = set (Sources v)" by (rule mset_eq_setD) simp
  then have ne: "Sources ?r \<noteq> []" using wf(1) by auto
  then have "hd (Sources ?r) \<in> set (Sources v)" using set_eq hd_in_set by blast
  then show key: "key_of ?r = k"
    using wf(2,3) by (simp add: key_of_def prod_eq_iff)
  show "wf_image ?r"
    using ne key set_eq wf(2) by (auto simp: wf_image_def)
  have "mset (concat (map Sources (rev its))) = mset (concat (map Sources its))" for its
    by (induction its) auto
  then show "merged_from ?its ?r"
    unfolding merged_from_def sort_item_sources_simps
    by (simp add: sorted_sort_item_sources entry(2) merge_images_def Let_def)
qed

text \<open>The result of the function under the \<^verbatim>\<open>sync.Once\<close>.\<close>

lemma dedup_items_Inr:
  assumes "\<forall>i\<in>set imgs. Sources i \<noteq> []"
  shows "dedup_items c imgs =
    Inr (map (\<lambda>(n, (k, v)). sort_item_sources (c (Suc n)) v)
      (List.enumerate 0 (gm_range (c 0) (fold dedup_put imgs []))))"
  using assms by (simp add: dedup_items_def rfold_dedup_add)

lemma dedup_items_spec:
  assumes wf: "\<forall>i\<in>set imgs. wf_image i" and res: "dedup_items c imgs = Inr out"
  shows "distinct (map key_of out)" "set (map key_of out) = set (map key_of imgs)"
    "\<forall>r\<in>set out. wf_image r \<and> merged_from (filter (\<lambda>i. key_of i = key_of r) imgs) r"
proof -
  let ?u = "fold dedup_put imgs []" and ?sort = "\<lambda>(n, (k, v)). sort_item_sources (c (Suc n)) v"
  have ne: "\<forall>i\<in>set imgs. Sources i \<noteq> []" using wf by (auto simp: wf_image_def)
  have out: "out = map ?sort (List.enumerate 0 (gm_range (c 0) ?u))"
    using res dedup_items_Inr [OF ne, of c] by simp
  have entries: "snd p \<in> set ?u" if "p \<in> set (List.enumerate 0 (gm_range (c 0) ?u))" for p
  proof -
    have "snd p \<in> set (map snd (List.enumerate 0 (gm_range (c 0) ?u)))"
      using that by (metis image_eqI list.set_map)
    then show ?thesis by (simp only: map_snd_enumerate set_gm_range)
  qed
  have key: "key_of (?sort p) = fst (snd p)" if "p \<in> set (List.enumerate 0 (gm_range (c 0) ?u))" for p
    using entries [OF that] dedup_entry(1) [OF _ wf] by (cases p) (auto split: prod.splits)
  have "map key_of out = map (\<lambda>p. fst (snd p)) (List.enumerate 0 (gm_range (c 0) ?u))"
    unfolding out map_map by (rule map_cong [OF refl]) (simp add: key)
  also have "\<dots> = map fst (map snd (List.enumerate 0 (gm_range (c 0) ?u)))"
    by (simp only: map_map comp_def)
  also have "\<dots> = map fst (gm_range (c 0) ?u)"
    by (simp only: map_snd_enumerate)
  finally have keys: "map key_of out = map fst (gm_range (c 0) ?u)" .
  have "gm_ok ?u" by (rule gm_ok_fold_dedup_put) simp
  then show "distinct (map key_of out)" unfolding keys by (rule gomap.range_distinct)
  show "set (map key_of out) = set (map key_of imgs)"
    unfolding keys using fold_dedup_put_keys [of imgs] by simp
  show "\<forall>r\<in>set out. wf_image r \<and> merged_from (filter (\<lambda>i. key_of i = key_of r) imgs) r"
  proof
    fix r
    assume "r \<in> set out"
    then obtain p where p: "p \<in> set (List.enumerate 0 (gm_range (c 0) ?u))" "r = ?sort p"
      unfolding out by auto
    obtain n k v where "p = (n, k, v)" by (metis prod_cases3)
    with p entries [OF p(1)] dedup_entry [OF _ wf, of k v] show
      "wf_image r \<and> merged_from (filter (\<lambda>i. key_of i = key_of r) imgs) r" by auto
  qed
qed

definition all_digests :: "ImageList \<Rightarrow> bool" where
  "all_digests l \<longleftrightarrow> (\<forall>i\<in>set (items l). Digest i \<noteq> [])"

lemma find_no_digest: "find (\<lambda>i. Digest i = []) (items l) = None \<longleftrightarrow> all_digests l"
  by (auto simp: find_None_iff all_digests_def)

lemma Dedup_all_digests:
  "all_digests l \<Longrightarrow> Dedup c l = rmap MakeAliases
     (if deduped l then Inr l
      else rmap (\<lambda>imgs. l\<lparr>items := imgs, deduped := True\<rparr>) (dedup_items c (items l)))"
  by (simp add: Dedup_def find_no_digest [symmetric])

lemma key_of_alias [simp]: "key_of (i\<lparr>Alias := a\<rparr>) = key_of i"
  by (simp add: key_of_def)

lemma wf_image_alias [simp]: "wf_image (i\<lparr>Alias := a\<rparr>) = wf_image i"
  by (simp add: wf_image_def)

lemma merged_from_alias [simp]: "merged_from its (i\<lparr>Alias := a\<rparr>) = merged_from its i"
  by (simp add: merged_from_def)

lemma set_items_MakeAliases:
  "r \<in> set (items (MakeAliases l)) \<longleftrightarrow> (\<exists>i\<in>set (items l).
     r = i\<lparr>Alias := Some (alias_of (map OriginalName (items l)) (OriginalName i))\<rparr>)"
  by (auto simp: MakeAliases_eq)

text \<open>
  C14: deduplication.  On a list whose images all have a digest (and have the sources a scan gives
  them), the first \<open>Dedup\<close> succeeds and leaves one image for every pair of manifest
  reference and digest: no pair twice, none lost, the sources of the merged images all there and
  sorted by manifest, line and column, and every image with the alias that is its shortest own
  suffix among the remaining names.  The list keeps its directory and its relation.
\<close>

theorem Dedup_merges_images:
  assumes "all_digests l" and "\<forall>i\<in>set (items l). wf_image i" and "\<not> deduped l"
  shows "\<exists>l'. Dedup c l = Inr l' \<and> dir l' = dir l \<and> relationEntries l' = relationEntries l \<and>
    distinct (map key_of (items l')) \<and>
    set (map key_of (items l')) = set (map key_of (items l)) \<and>
    (\<forall>r\<in>set (items l'). merged_from (filter (\<lambda>i. key_of i = key_of r) (items l)) r \<and>
       Alias r = Some (alias_of (map OriginalName (items l')) (OriginalName r)))"
proof -
  have "\<forall>i\<in>set (items l). Sources i \<noteq> []" using assms(2) by (auto simp: wf_image_def)
  then obtain out where out: "dedup_items c (items l) = Inr out"
    using dedup_items_Inr by blast
  note spec = dedup_items_spec [OF assms(2) out]
  let ?m = "l\<lparr>items := out, deduped := True\<rparr>" and ?l' = "MakeAliases (l\<lparr>items := out, deduped := True\<rparr>)"
  have "Dedup c l = Inr ?l'" using assms out by (simp add: Dedup_all_digests)
  moreover have keys: "map key_of (items ?l') = map key_of out"
    by (subst map_items_MakeAliases) simp_all
  moreover have names: "map OriginalName (items ?l') = map OriginalName out"
    by (subst map_items_MakeAliases) simp_all
  moreover have "merged_from (filter (\<lambda>i. key_of i = key_of r) (items l)) r \<and>
      Alias r = Some (alias_of (map OriginalName out) (OriginalName r))" if "r \<in> set (items ?l')" for r
    using that spec(3) by (auto simp: set_items_MakeAliases)
  ultimately show ?thesis
    using spec(1,2) by (intro exI [of _ ?l']) simp
qed

definition sample_source :: "string \<Rightarrow> int \<Rightarrow> string \<Rightarrow> source" where
  "sample_source m n ref = \<lparr>Manifest = m, ManifestDigest = ''00'', Line = n, Column = 5, NodePath = [],
     OriginalRef = ref\<rparr>"

definition sample_list :: ImageList where
  "sample_list = \<lparr>items =
     [(sample_image ''a.io/web'')\<lparr>Sources := [sample_source ''x.yaml'' 7 ''a.io/web'']\<rparr>\<lparr>Digest := ''d1''\<rparr>,
      (sample_image ''b.io/db'')\<lparr>Sources := [sample_source ''x.yaml'' 9 ''b.io/db'']\<rparr>\<lparr>Digest := ''d2''\<rparr>,
      (sample_image ''a.io/web'')\<lparr>Sources := [sample_source ''x.yaml'' 3 ''a.io/web'']\<rparr>\<lparr>Digest := ''d1''\<rparr>],
     dir = ''k8s'', deduped = False, relationEntries = []\<rparr>"

lemma sample_list_ok:
  "all_digests sample_list" "\<forall>i\<in>set (items sample_list). wf_image i" "\<not> deduped sample_list"
  by (simp_all add: sample_list_def sample_image_def sample_source_def all_digests_def wf_image_def
      key_of_def)

theorem Dedup_merges_images_witness:
  "\<exists>l'. Dedup (\<lambda>_. reversed_order) sample_list = Inr l' \<and> dir l' = ''k8s'' \<and>
     set (map key_of (items l')) = {(''a.io/web'', ''d1''), (''b.io/db'', ''d2'')}"
proof -
  have "dir sample_list = ''k8s''"
    "set (map key_of (items sample_list)) = {(''a.io/web'', ''d1''), (''b.io/db'', ''d2'')}"
    by (auto simp: sample_list_def sample_image_def sample_source_def key_of_def)
  then show ?thesis
    using Dedup_merges_images [OF sample_list_ok, of "\<lambda>_. reversed_order"] by metis
qed

lemma dedup_items_Inl_iff:
  "dedup_items c imgs = Inl f \<longleftrightarrow> f = Panic EmptySources \<and> (\<exists>i\<in>set imgs. Sources i = [])"
proof -
  have "rfold dedup_add imgs u = Inl f \<longleftrightarrow> f = Panic EmptySources \<and> (\<exists>i\<in>set imgs. Sources i = [])" for u
  proof (induction imgs arbitrary: u)
    case (Cons i imgs)
    then show ?case
      by (cases "Sources i = []")
        (auto simp: dedup_add_eq, auto simp: dedup_add_def image_OriginalRef_def primarySource_def)
  qed simp
  then show ?thesis by (auto simp: dedup_items_def rmap_def res_simps)
qed

text \<open>
  The outcome of \<open>Dedup\<close> otherwise: it returns an error exactly when some image has no
  digest, and the error names the first one; it panics exactly when all have digests, the
  function under the \<^verbatim>\<open>sync.Once\<close> still has to run and some image has no source.
\<close>

theorem Dedup_failures:
  "(Dedup c l = Inl (Fail e) \<longleftrightarrow>
     (\<exists>img. find (\<lambda>i. Digest i = []) (items l) = Some img \<and> e = ImageHasNoDigest (Ref True img))) \<and>
   (Dedup c l = Inl (Panic p) \<longleftrightarrow>
     p = EmptySources \<and> all_digests l \<and> \<not> deduped l \<and> (\<exists>img\<in>set (items l). Sources img = []))"
proof -
  show ?thesis
  proof (cases "find (\<lambda>i. Digest i = []) (items l)")
    case None
    then have "all_digests l" by (simp add: find_no_digest)
    with None dedup_items_Inl_iff show ?thesis
      by (auto simp: Dedup_all_digests rmap_def res_simps)
  next
    case (Some img)
    then have "\<not> all_digests l" by (simp add: find_no_digest [symmetric])
    with Some show ?thesis by (auto simp: Dedup_def)
  qed
qed

lemma all_digests_MakeAliases [simp]: "all_digests (MakeAliases l) \<longleftrightarrow> all_digests l"
  by (auto simp: all_digests_def MakeAliases_eq)

lemma all_digests_dedup_items:
  assumes "dedup_items c imgs = Inr out" and "\<forall>i\<in>set imgs. Sources i \<noteq> []"
    and "\<forall>i\<in>set imgs. Digest i \<noteq> []"
  shows "\<forall>r\<in>set out. Digest r \<noteq> []"
proof
  fix r
  assume "r \<in> set out"
  then obtain n k v where nkv: "(n, k, v) \<in> set (List.enumerate 0 (gm_range (c 0) (fold dedup_put imgs [])))"
      "Digest r = Digest v"
    using assms(1) dedup_items_Inr [OF assms(2), of c] by auto
  let ?g = "gm_range (c 0) (fold dedup_put imgs [])"
  from nkv(1) have "n < length ?g" "?g ! n = (k, v)"
    by (simp_all add: in_set_enumerate_eq)
  then have "(k, v) \<in> set ?g" by (metis nth_mem)
  then have "(k, v) \<in> set (fold dedup_put imgs [])" by simp
  note entry = fold_dedup_put_entry [OF this]
  then have "last (filter (\<lambda>i. key_of i = k) imgs) \<in> set imgs"
    using last_in_set by fastforce
  with entry(2) nkv(2) assms(3) show "Digest r \<noteq> []" by (simp add: merge_images_def Let_def)
qed

lemma Dedup_InrE:
  assumes "Dedup c l = Inr l'"
  obtains m where "l' = MakeAliases m" "all_digests l" "all_digests m" "deduped m"
    "deduped l \<and> m = l \<or>
     \<not> deduped l \<and> (\<exists>out. dedup_items c (items l) = Inr out \<and> m = l\<lparr>items := out, deduped := True\<rparr>)"
proof -
  have ok: "all_digests l"
    using assms by (auto simp: Dedup_def simp flip: find_no_digest split: option.splits)
  show thesis
  proof (cases "deduped l")
    case True
    with assms ok that show thesis by (auto simp: Dedup_all_digests)
  next
    case False
    with assms ok obtain out where out: "dedup_items c (items l) = Inr out"
        "l' = MakeAliases (l\<lparr>items := out, deduped := True\<rparr>)"
      by (cases "dedup_items c (items l)") (auto simp: Dedup_all_digests)
    have "\<forall>i\<in>set (items l). Sources i \<noteq> []"
      using out(1) dedup_items_Inl_iff [of c "items l" "Panic EmptySources"] by auto
    then have "\<forall>r\<in>set out. Digest r \<noteq> []"
      using all_digests_dedup_items out(1) ok by (auto simp: all_digests_def)
    with out False ok show thesis by (intro that [of "l\<lparr>items := out, deduped := True\<rparr>"])
        (auto simp: all_digests_def)
  qed
qed

text \<open>Deduplicating again changes nothing, whatever the second call's choices.\<close>

theorem Dedup_idempotent:
  assumes "Dedup c l = Inr l'"
  shows "Dedup c' l' = Inr l'"
proof -
  from assms obtain m where "l' = MakeAliases m" "all_digests m" "deduped m"
    by (rule Dedup_InrE)
  then show ?thesis by (simp add: Dedup_all_digests)
qed

theorem Dedup_idempotent_witness:
  "\<exists>l'. Dedup (\<lambda>_. in_order) sample_list = Inr l' \<and> Dedup (\<lambda>_. reversed_order) l' = Inr l'"
proof -
  have "\<forall>i\<in>set (items sample_list). Sources i \<noteq> []"
    using sample_list_ok(2) by (auto simp: wf_image_def)
  from dedup_items_Inr [OF this, of "\<lambda>_. in_order"] sample_list_ok
  obtain l' where "Dedup (\<lambda>_. in_order) sample_list = Inr l'"
    by (auto simp: Dedup_all_digests)
  with Dedup_idempotent [OF this, of "\<lambda>_. reversed_order"] show ?thesis by blast
qed

subsection \<open>What the choices of the run time can change\<close>

definition position :: "source \<Rightarrow> string \<times> int \<times> int" where
  "position s = (Manifest s, Line s, Column s)"

lemma sort_item_sources_choice:
  assumes "inj_on position (set (Sources v))"
  shows "sort_item_sources o1 v = sort_item_sources o2 v"
proof -
  have "SortFunc o1 compare_sources (Sources v) = SortFunc o2 compare_sources (Sources v)"
    by (rule sources.SortFunc_unique_on)
      (use assms in \<open>auto simp: compare_sources_0 position_def inj_on_def\<close>)
  then show ?thesis by (simp add: sort_item_sources_def)
qed

lemma mset_dedup_items:
  assumes "dedup_items c imgs = Inr out"
    and inj: "inj_on position (set (concat (map Sources imgs)))"
  shows "mset out =
    image_mset (\<lambda>(k, v). sort_item_sources in_order v) (mset (fold dedup_put imgs []))"
proof -
  let ?u = "fold dedup_put imgs []" and ?sort = "\<lambda>(n, (k, v)). sort_item_sources (c (Suc n)) v"
    and ?canon = "\<lambda>(k, v). sort_item_sources in_order v"
  have ne: "\<forall>i\<in>set imgs. Sources i \<noteq> []"
    using assms(1) dedup_items_Inl_iff [of c imgs "Panic EmptySources"] by auto
  have "?sort p = ?canon (snd p)" if "p \<in> set (List.enumerate 0 (gm_range (c 0) ?u))" for p
  proof -
    obtain n k v where p: "p = (n, k, v)" by (metis prod_cases3)
    have "snd p \<in> set (map snd (List.enumerate 0 (gm_range (c 0) ?u)))"
      using that by (metis image_eqI list.set_map)
    then have "(k, v) \<in> set ?u" by (simp only: map_snd_enumerate set_gm_range p prod.sel)
    from fold_dedup_put_entry(2) [OF this]
    have "set (Sources v) \<subseteq> set (concat (map Sources imgs))"
      by (auto simp: merge_images_def Let_def)
    then have "inj_on position (set (Sources v))" using inj by (rule inj_on_subset [rotated])
    from sort_item_sources_choice [OF this] show ?thesis by (simp add: p)
  qed
  then have "map ?sort (List.enumerate 0 (gm_range (c 0) ?u)) =
      map ?canon (map snd (List.enumerate 0 (gm_range (c 0) ?u)))"
    by (simp only: map_map comp_def cong: map_cong)
  also have "\<dots> = map ?canon (gm_range (c 0) ?u)" by (simp only: map_snd_enumerate)
  finally have "out = map ?canon (gm_range (c 0) ?u)"
    using assms(1) dedup_items_Inr [OF ne, of c] by simp
  then show ?thesis by simp
qed

lemma mset_MakeAliases:
  assumes "mset (items m) = mset (items n)"
  shows "mset (items (MakeAliases m)) = mset (items (MakeAliases n))"
proof -
  have "set (map OriginalName (items m)) = set (map OriginalName (items n))"
    using mset_eq_setD [OF assms] by simp
  then have "alias_of (map OriginalName (items m)) = alias_of (map OriginalName (items n))"
    by (intro ext alias_of_cong)
  then show ?thesis by (simp add: MakeAliases_eq assms)
qed

text \<open>
  The run time's choices (map iteration, ties in the sort) can change the order of the
  deduplicated list only: when no two sources stand at the same place, any two runs of
  \<open>Dedup\<close> give the same images with the same sources and the same aliases.
\<close>

theorem Dedup_choices_only_reorder:
  assumes "Dedup c l = Inr l1" and "Dedup c' l = Inr l2"
    and "inj_on position (set (concat (map Sources (items l))))"
  shows "mset (items l1) = mset (items l2)"
proof -
  from assms(1) obtain m where m: "l1 = MakeAliases m"
      "deduped l \<and> m = l \<or> \<not> deduped l \<and>
        (\<exists>out. dedup_items c (items l) = Inr out \<and> m = l\<lparr>items := out, deduped := True\<rparr>)"
    by (rule Dedup_InrE)
  from assms(2) obtain n where n: "l2 = MakeAliases n"
      "deduped l \<and> n = l \<or> \<not> deduped l \<and>
        (\<exists>out. dedup_items c' (items l) = Inr out \<and> n = l\<lparr>items := out, deduped := True\<rparr>)"
    by (rule Dedup_InrE)
  have "mset (items m) = mset (items n)"
    using m(2) n(2) mset_dedup_items [OF _ assms(3)] by auto
  then show ?thesis unfolding m(1) n(1) by (rule mset_MakeAliases)
qed

theorem Dedup_choices_only_reorder_witness:
  "\<exists>l1 l2. Dedup (\<lambda>_. in_order) sample_list = Inr l1 \<and>
     Dedup (\<lambda>_. reversed_order) sample_list = Inr l2 \<and> mset (items l1) = mset (items l2)"
proof -
  have "\<forall>i\<in>set (items sample_list). Sources i \<noteq> []"
    using sample_list_ok(2) by (auto simp: wf_image_def)
  from dedup_items_Inr [OF this] sample_list_ok
  obtain l1 l2 where l: "Dedup (\<lambda>_. in_order) sample_list = Inr l1"
      "Dedup (\<lambda>_. reversed_order) sample_list = Inr l2"
    by (auto simp: Dedup_all_digests)
  moreover have "inj_on position (set (concat (map Sources (items sample_list))))"
    by (simp add: sample_list_def sample_source_def sample_image_def position_def)
  ultimately show ?thesis using Dedup_choices_only_reorder [OF l] by blast
qed

subsection \<open>Grouping by manifest\<close>

lemma fold_nested:
  "fold (\<lambda>x. fold (f x) (g x)) xs s = fold (\<lambda>(x, y). f x y) (concat (map (\<lambda>x. map (Pair x) (g x)) xs)) s"
proof (induction xs arbitrary: s)
  case (Cons x xs)
  have "fold (f x) ys s = fold (\<lambda>(x, y). f x y) (map (Pair x) ys) s" for ys
    by (induction ys arbitrary: s) auto
  with Cons show ?case by simp
qed simp

text \<open>Every source with its image, in order.\<close>

definition source_pairs :: "ImageList \<Rightarrow> (image \<times> source) list" where
  "source_pairs l = concat (map (\<lambda>i. map (Pair i) (Sources i)) (items l))"

lemma gm_get_group_fold:
  defines "F \<equiv> \<lambda>d (i, s). group_add d (Manifest s) (single_source i s)"
  shows "gm_ok (fold (F d) ps []) \<and> gm_get (fold (F d) ps []) p =
    (let its = map (\<lambda>(i, s). single_source i s)
                 (filter (\<lambda>(i, s). filepath_Join [d, Manifest s] = p) ps)
     in if its = [] then None else Some ((NewImageList d)\<lparr>items := its\<rparr>))"
proof (induction ps arbitrary: p rule: rev_induct)
  case (snoc q ps)
  obtain i s where q: "q = (i, s)" by fastforce
  let ?u = "fold (F d) ps []"
  have ok: "gm_ok ?u" using snoc by blast
  have "fold (F d) (ps @ [q]) [] = group_add d (Manifest s) (single_source i s) ?u"
    by (simp add: q F_def)
  then show ?case
    using ok snoc
    by (auto simp: q group_add_def Let_def gomap.get_put gomap.ok_put Append_def NewImageList_def
        split: option.splits)
qed simp

text \<open>
  C26: \<open>GroupByManifest\<close> files every source of every image under the path of its manifest, once,
  as an image with that source alone and the image's names and digest: the group of a path holds
  exactly the sources whose manifest has that path, in the order of the list, and there is no
  group for any other path.
\<close>

theorem GroupByManifest_groups:
  "gm_get (GroupByManifest l) path =
     (let its = map (\<lambda>(i, s). single_source i s)
                  (filter (\<lambda>(i, s). filepath_Join [dir l, Manifest s] = path) (source_pairs l))
      in if its = [] then None else Some ((NewImageList (dir l))\<lparr>items := its\<rparr>))"
  unfolding GroupByManifest_def fold_nested source_pairs_def [symmetric]
  by (rule conjunct2 [OF gm_get_group_fold])

lemma gm_ok_GroupByManifest [simp]: "gm_ok (GroupByManifest l)"
  unfolding GroupByManifest_def fold_nested source_pairs_def [symmetric]
  by (rule conjunct1 [OF gm_get_group_fold])

end
