(* ===== verification/Sha256.thy ===== *)
theory Sha256
  imports Go_Strings
begin

section \<open>Digests\<close>

text \<open>
  The package \<open>attest/digest\<close>: a SHA256 digest is the hexadecimal string of the hash, and it is
  exported and read back as an in-toto digest set.  JSON is modelled as the tree that
  \<^verbatim>\<open>encoding/json\<close> writes and reads, not as text.
\<close>

subsection \<open>JSON trees\<close>

datatype json =
    JNull
  | JBool bool
  | JNumber int
  | JString string
  | JArray "json list"
  | JObject "(string \<times> json) list"

text \<open>
  Reading into a Go value.  \<open>null\<close> leaves a map, a slice or a struct field at its zero value; a value
  of the wrong kind is an error.  Objects are read as decoders produce them, the last of
  repeated keys deciding.
\<close>

abbreviation type_error :: "'a res" where
  "type_error \<equiv> Inl (Fail (External ''json: cannot unmarshal''))"

fun json_string :: "json \<Rightarrow> string res" where
  "json_string (JString s) = Inr s"
| "json_string JNull = Inr []"
| "json_string _ = type_error"

fun json_int :: "json \<Rightarrow> int res" where
  "json_int (JNumber n) = Inr n"
| "json_int JNull = Inr 0"
| "json_int _ = type_error"

fun json_array :: "json \<Rightarrow> json list res" where
  "json_array (JArray xs) = Inr xs"
| "json_array JNull = Inr []"
| "json_array _ = type_error"

fun json_object :: "json \<Rightarrow> (string, json) gomap res" where
  "json_object (JObject kvs) = Inr (fold (\<lambda>(k, v). gm_put k v) kvs [])"
| "json_object JNull = Inr []"
| "json_object _ = type_error"

definition json_field :: "string \<Rightarrow> (string, json) gomap \<Rightarrow> json" where
  "json_field k m = (case gm_get m k of Some v \<Rightarrow> v | None \<Rightarrow> JNull)"

text \<open>\<^verbatim>\<open>json.Unmarshal\<close> into a \<^verbatim>\<open>map[string]string\<close>.\<close>

definition json_string_map :: "json \<Rightarrow> (string, string) gomap res" where
  "json_string_map j = rbind (json_object j) (rmap_list (\<lambda>(k, v). rmap (Pair k) (json_string v)))"

subsection \<open>Operations\<close>

type_synonym SHA256 = string

type_synonym DigestSet = "(string, string) gomap"

definition algoSHA256 :: string where
  "algoSHA256 = ''sha256''"

text \<open>\<open>hash_Sum\<close> are the bytes the hash function returns.\<close>

definition MakeSHA256 :: "string \<Rightarrow> SHA256" where
  "MakeSHA256 hash_Sum = hex_EncodeToString hash_Sum"

definition SHA256_DigestSet :: "SHA256 \<Rightarrow> DigestSet" where
  "SHA256_DigestSet d = (if d \<noteq> [] then gm_put algoSHA256 d [] else [])"

definition json_of_DigestSet :: "DigestSet \<Rightarrow> json" where
  "json_of_DigestSet ds = JObject (map (\<lambda>(k, v). (k, JString v)) ds)"

definition SHA256_MarshalJSON :: "SHA256 \<Rightarrow> json" where
  "SHA256_MarshalJSON d = json_of_DigestSet (SHA256_DigestSet d)"

definition SHA256_UnmarshalJSON :: "json \<Rightarrow> SHA256 res" where
  "SHA256_UnmarshalJSON data =
     rbind (json_string_map data) (\<lambda>digestSet.
       case gm_get digestSet algoSHA256 of
         None \<Rightarrow> Inl (Fail MissingSHA256)
       | Some v \<Rightarrow> Inr v)"

definition SHA256_IsEqual :: "SHA256 \<Rightarrow> string \<Rightarrow> bool" where
  "SHA256_IsEqual d checksum \<longleftrightarrow> d = checksum"

subsection \<open>Facts\<close>

lemma json_string_map_DigestSet [simp]:
  "json_string_map (json_of_DigestSet (SHA256_DigestSet d)) = Inr (SHA256_DigestSet d)"
  by (simp add: json_string_map_def json_of_DigestSet_def SHA256_DigestSet_def gm_put_def)

lemma gm_get_SHA256_DigestSet [simp]:
  "gm_get (SHA256_DigestSet d) algoSHA256 = (if d = [] then None else Some d)"
  by (simp add: SHA256_DigestSet_def gm_put_def gm_get_def)

text \<open>
  A digest that is exported and read back is the same digest, unless it is the empty one,
  which is exported as an empty digest set and is then refused.
\<close>

lemma SHA256_roundtrip:
  "SHA256_UnmarshalJSON (SHA256_MarshalJSON d) =
     (if d = [] then Inl (Fail MissingSHA256) else Inr d)"
  by (simp add: SHA256_UnmarshalJSON_def SHA256_MarshalJSON_def)

lemma MakeSHA256_inject [simp]: "MakeSHA256 h1 = MakeSHA256 h2 \<longleftrightarrow> h1 = h2"
  by (simp add: MakeSHA256_def hex_EncodeToString_inject)

end
