(* ===== verification/Attest_Types.thy ===== *)
theory Attest_Types
  imports Sha256
begin

section \<open>Attestation statements\<close>

text \<open>
  The package \<open>attest/types\<close>: subjects, statements and their order, the summary annotation, and
  the collection that groups the summaries of checked paths by repository.  The interfaces
  \<open>PathChecker\<close> and \<open>PathCheckSummary\<close> are records of their methods; what the collection needs of
  them is the locale \<open>path_check_summary\<close>.
\<close>

subsection \<open>Subjects\<close>

record Subject =
  Name :: string
  SubjectDigest :: SHA256

type_synonym Subjects = "Subject list"

text \<open>\<open>toto.Subject\<close>: a name and a digest set.\<close>

type_synonym toto_Subject = "string \<times> DigestSet"

definition MakeSubject :: "string \<Rightarrow> SHA256 \<Rightarrow> Subject" where
  "MakeSubject name d = \<lparr>Name = name, SubjectDigest = d\<rparr>"

definition Subject_Export :: "Subject \<Rightarrow> toto_Subject list" where
  "Subject_Export s = [(Name s, SHA256_DigestSet (SubjectDigest s))]"

definition Subjects_Export :: "Subjects \<Rightarrow> toto_Subject list" where
  "Subjects_Export ss = concat (map Subject_Export ss)"

definition json_of_toto_Subjects :: "toto_Subject list \<Rightarrow> json" where
  "json_of_toto_Subjects ss =
     JArray (map (\<lambda>(n, ds). JObject [(''name'', JString n), (''digest'', json_of_DigestSet ds)]) ss)"

definition read_toto_Subjects :: "json \<Rightarrow> toto_Subject list res" where
  "read_toto_Subjects data =
     rbind (json_array data) (rmap_list (\<lambda>j.
       rbind (json_object j) (\<lambda>fields.
       rbind (json_string (json_field ''name'' fields)) (\<lambda>n.
       rmap (Pair n) (json_string_map (json_field ''digest'' fields))))))"

definition Subject_MarshalJSON :: "Subject \<Rightarrow> json" where
  "Subject_MarshalJSON s = json_of_toto_Subjects (Subject_Export s)"

definition Subject_UnmarshalJSON :: "json \<Rightarrow> Subject res" where
  "Subject_UnmarshalJSON data =
     rbind (read_toto_Subjects data) (\<lambda>subjects.
       case subjects of
         [] \<Rightarrow> Inl (Fail SubjectZeroEntries)
       | [(n, ds)] \<Rightarrow>
           (case gm_get ds ''sha256'' of
              None \<Rightarrow> Inl (Fail MissingSHA256)
            | Some v \<Rightarrow> Inr \<lparr>Name = n, SubjectDigest = v\<rparr>)
       | _ \<Rightarrow> Inl (Fail SubjectMultipleEntries))"

definition Subjects_MarshalJSON :: "Subjects \<Rightarrow> json" where
  "Subjects_MarshalJSON ss = json_of_toto_Subjects (Subjects_Export ss)"

text \<open>
  Reading appends to the list \<open>s\<close> that is there.  On an error the subjects before the bad one
  have been appended already; the second component is the list as it is left.
\<close>

fun append_subjects :: "toto_Subject list \<Rightarrow> Subjects \<Rightarrow> unit res \<times> Subjects" where
  "append_subjects [] s = (Inr (), s)"
| "append_subjects ((n, ds) # rest) s =
     (case gm_get ds ''sha256'' of
        None \<Rightarrow> (Inl (Fail MissingSHA256), s)
      | Some v \<Rightarrow> append_subjects rest (s @ [\<lparr>Name = n, SubjectDigest = v\<rparr>]))"

definition Subjects_UnmarshalJSON :: "json \<Rightarrow> Subjects \<Rightarrow> unit res \<times> Subjects" where
  "Subjects_UnmarshalJSON data s =
     (case read_toto_Subjects data of
        Inl f \<Rightarrow> (Inl f, s)
      | Inr subjects \<Rightarrow>
          if length subjects = 0 then (Inl (Fail SubjectZeroEntries), s)
          else append_subjects subjects s)"

lemma Subjects_Export_simps [simp]:
  "Subjects_Export [] = []"
  "Subjects_Export (s # ss) = (Name s, SHA256_DigestSet (SubjectDigest s)) # Subjects_Export ss"
  by (simp_all add: Subjects_Export_def Subject_Export_def)

lemma Subject_Export_single: "Subject_Export s = Subjects_Export [s]"
  by (simp add: Subject_Export_def)

lemma length_Subjects_Export [simp]: "length (Subjects_Export ss) = length ss"
  by (induction ss) auto

lemma read_toto_Subjects_Export [simp]:
  "read_toto_Subjects (json_of_toto_Subjects (Subjects_Export ss)) = Inr (Subjects_Export ss)"
  by (induction ss)
    (simp_all add: read_toto_Subjects_def json_of_toto_Subjects_def json_field_def gm_put_def
      gm_get_def)

lemma append_subjects_Export:
  "append_subjects (Subjects_Export ss) s =
     (let good = takeWhile (\<lambda>x. SubjectDigest x \<noteq> []) ss
      in (if good = ss then Inr () else Inl (Fail MissingSHA256), s @ good))"
proof (induction ss arbitrary: s)
  case (Cons x xs)
  have "gm_get (SHA256_DigestSet (SubjectDigest x)) ''sha256'' =
      (if SubjectDigest x = [] then None else Some (SubjectDigest x))"
    using gm_get_SHA256_DigestSet [of "SubjectDigest x"] by (simp only: algoSHA256_def)
  with Cons show ?case by (simp add: Let_def)
qed (simp add: Let_def)

lemma Subjects_read_back:
  "Subjects_UnmarshalJSON (Subjects_MarshalJSON ss) [] =
     (if ss = [] then (Inl (Fail SubjectZeroEntries), [])
      else if \<forall>s\<in>set ss. SubjectDigest s \<noteq> [] then (Inr (), ss)
      else (Inl (Fail MissingSHA256), takeWhile (\<lambda>s. SubjectDigest s \<noteq> []) ss))"
  by (auto simp: Subjects_UnmarshalJSON_def Subjects_MarshalJSON_def append_subjects_Export Let_def
      takeWhile_eq_all_conv)

text \<open>
  Subjects that are marshalled and read back into an empty list are the same subjects,
  exactly when there is at least one and every one has a digest; otherwise reading fails, and
  the subjects before the first one without a digest are left in the list.
\<close>

theorem Subjects_roundtrip:
  "Subjects_UnmarshalJSON (Subjects_MarshalJSON ss) [] =
     (if ss = [] then (Inl (Fail SubjectZeroEntries), [])
      else if [] \<notin> SubjectDigest ` set ss then (Inr (), ss)
      else (Inl (Fail MissingSHA256), takeWhile (\<lambda>s. SubjectDigest s \<noteq> []) ss))"
  using Subjects_read_back [of ss] by (auto simp: image_iff)

subsection \<open>Path check summaries\<close>

record PathCheckSummaryCommon =
  Unmodified :: bool
  SummaryPath :: string
  SummaryURI :: string
  IsDir :: bool
  SummaryDigest :: SHA256

text \<open>The methods of the interface \<open>PathCheckSummary\<close>, for summaries of type \<open>'s\<close>.\<close>

record 's PathCheckSummary =
  SummaryProviderName :: "'s \<Rightarrow> string"
  Common :: "'s \<Rightarrow> PathCheckSummaryCommon"
  SameRepo :: "'s \<Rightarrow> 's \<Rightarrow> bool"

text \<open>
  The methods of the interface \<open>PathChecker\<close>, for checkers of type \<open>'c\<close>.  A checker is a pointer
  to a cache that its methods fill, so each of them returns the checker it leaves.
\<close>

record ('c, 's) PathChecker =
  ProviderName :: string
  DetectRepo :: "'c \<Rightarrow> bool res \<times> 'c"
  Check :: "'c \<Rightarrow> (bool \<times> bool) res \<times> 'c"
  MakeSummary :: "'c \<Rightarrow> 's res \<times> 'c"

record 's PathCheckSummaryCollection =
  Providers :: "string list"
  EntryGroups :: "'s list list"

text \<open>The first loop of \<open>MakePathCheckSummaryCollection\<close>: a \<open>None\<close> is a nil entry.\<close>

fun make_summaries ::
    "('c \<Rightarrow> 's res \<times> 'c) \<Rightarrow> nat \<Rightarrow> 'c option list \<Rightarrow> 's list res \<times> 'c option list" where
  "make_summaries mk i [] = (Inr [], [])"
| "make_summaries mk i (None # es) = (Inl (Fail (NilPathChecker i)), None # es)"
| "make_summaries mk i (Some e # es) =
     (case mk e of
        (Inl f, e') \<Rightarrow> (Inl f, Some e' # es)
      | (Inr s, e') \<Rightarrow>
          (case make_summaries mk (Suc i) es of (r, es') \<Rightarrow> (rmap (Cons s) r, Some e' # es')))"

text \<open>The inner loop over the groups: \<open>s\<close> joins the first group whose first entry has its repository.\<close>

fun place_summary ::
    "('s \<Rightarrow> 's \<Rightarrow> bool) \<Rightarrow> nat \<Rightarrow> 's \<Rightarrow> 's list list \<Rightarrow> 's list list res" where
  "place_summary same g s [] = Inr [[s]]"
| "place_summary same g s ([] # groups) = Inl (Fail (EmptyGroup g))"
| "place_summary same g s ((h # t) # groups) =
     (if same s h then Inr ((h # t @ [s]) # groups)
      else rmap (Cons (h # t)) (place_summary same (Suc g) s groups))"

text \<open>\<open>a[0]\<close>.\<close>

definition first_entry :: "'a list \<Rightarrow> 'a res" where
  "first_entry a = (case a of [] \<Rightarrow> Inl (Panic IndexOutOfRange) | x # _ \<Rightarrow> Inr x)"

definition comparePathCheckSummaries :: "'s PathCheckSummary \<Rightarrow> 's \<Rightarrow> 's \<Rightarrow> int" where
  "comparePathCheckSummaries S a b =
     cmp_Compare (SummaryPath (Common S a)) (SummaryPath (Common S b))"

definition compare_first :: "'s PathCheckSummary \<Rightarrow> 's \<Rightarrow> 's \<Rightarrow> int" where
  "compare_first S =
     cmp_then (\<lambda>a b. cmp_Compare (SummaryProviderName S a) (SummaryProviderName S b))
       (comparePathCheckSummaries S)"

definition comparePathCheckSummariesSlice ::
    "'s PathCheckSummary \<Rightarrow> 's list \<Rightarrow> 's list \<Rightarrow> int res" where
  "comparePathCheckSummariesSlice S a b =
     rbind (first_entry a) (\<lambda>x. rbind (first_entry b) (\<lambda>y. Inr (compare_first S x y)))"

text \<open>
  The order \<open>SortFunc\<close> gets; it is only asked for groups that have an entry, because the loop
  that collects the providers has read the first entry of every group before.
\<close>

definition slice_order :: "'s PathCheckSummary \<Rightarrow> 's list \<Rightarrow> 's list \<Rightarrow> int" where
  "slice_order S a b =
     (case comparePathCheckSummariesSlice S a b of Inr n \<Rightarrow> n | Inl _ \<Rightarrow> 0)"

definition sort_tail :: "'s PathCheckSummary \<Rightarrow> order \<Rightarrow> 's list \<Rightarrow> 's list" where
  "sort_tail S ord g =
     (if length g \<le> 1 then g
      else hd g # SortFunc ord (comparePathCheckSummaries S) (tl g))"

text \<open>
  Choice 0 is the order of the \<^verbatim>\<open>range\<close> over the providers, choice 1 belongs to the sort of
  the groups, choice \<open>n + 2\<close> to the sort of the n-th group.
\<close>

definition group_collection ::
    "'s PathCheckSummary \<Rightarrow> choices \<Rightarrow> 's list \<Rightarrow> 's PathCheckSummaryCollection res" where
  "group_collection S c summaries =
     rbind (rfold (place_summary (SameRepo S) 0) summaries []) (\<lambda>groups.
     rmap (\<lambda>providers.
         \<lparr>Providers = sort (shuffle (c 0) (key_set providers)),
          EntryGroups = map (\<lambda>(n, g). sort_tail S (c (n + 2)) g)
            (List.enumerate 0 (SortFunc (c 1) (slice_order S) groups))\<rparr>)
       (rmap_list (\<lambda>entry. rmap (SummaryProviderName S) (first_entry entry)) groups))"

definition MakePathCheckSummaryCollection ::
    "'s PathCheckSummary \<Rightarrow> ('c \<Rightarrow> 's res \<times> 'c) \<Rightarrow> choices \<Rightarrow> 'c option list
      \<Rightarrow> 's PathCheckSummaryCollection option res \<times> 'c option list" where
  "MakePathCheckSummaryCollection S mk c entries =
     (if length entries = 0 then (Inr None, entries)
      else case make_summaries mk 0 entries of
             (Inl f, entries') \<Rightarrow> (Inl f, entries')
           | (Inr summaries, entries') \<Rightarrow>
               (rmap Some (group_collection S c summaries), entries'))"

definition collection_Subject :: "'s PathCheckSummary \<Rightarrow> 's PathCheckSummaryCollection \<Rightarrow> Subjects" where
  "collection_Subject S c =
     concat (map (\<lambda>g. concat (map (\<lambda>e.
         let common = Common S e
         in if SummaryDigest common = [] then []
            else [MakeSubject (SummaryPath common) (SummaryDigest common)]) g))
       (EntryGroups c))"

fun compare_groups :: "'s PathCheckSummary \<Rightarrow> 's list list \<Rightarrow> 's list list \<Rightarrow> int res" where
  "compare_groups S (a # as) (b # bs) =
     rbind (comparePathCheckSummariesSlice S a b)
       (\<lambda>c. if c \<noteq> 0 then Inr c else compare_groups S as bs)"
| "compare_groups S _ _ = Inr 0"

definition collection_Compare ::
    "'s PathCheckSummary \<Rightarrow> 's PathCheckSummaryCollection \<Rightarrow> 's PathCheckSummaryCollection \<Rightarrow> int res" where
  "collection_Compare S a b =
     (if slices_Compare (Providers a) (Providers b) \<noteq> 0
      then Inr (slices_Compare (Providers a) (Providers b))
      else if length (EntryGroups a) > length (EntryGroups b) then Inr 1
      else if length (EntryGroups a) < length (EntryGroups b) then Inr (-1)
      else if length (EntryGroups a) = 0 \<and> length (EntryGroups b) = 0 then Inr 0
      else compare_groups S (EntryGroups a) (EntryGroups b))"

subsection \<open>What grouping relies on, and what it gives\<close>

text \<open>
  The contract of \<open>PathCheckSummary\<close>: among the summaries a checker makes (\<open>made\<close>), being in
  the same repository is an equivalence, and summaries of one repository have one provider.
\<close>

locale path_check_summary =
  fixes S :: "'s PathCheckSummary" and made :: "'s \<Rightarrow> bool"
  assumes same_refl: "made a \<Longrightarrow> SameRepo S a a"
    and same_sym: "made a \<Longrightarrow> made b \<Longrightarrow> SameRepo S a b \<Longrightarrow> SameRepo S b a"
    and same_trans: "made a \<Longrightarrow> made b \<Longrightarrow> made c \<Longrightarrow> SameRepo S a b \<Longrightarrow> SameRepo S b c \<Longrightarrow> SameRepo S a c"
    and same_provider: "SameRepo S a b \<Longrightarrow> SummaryProviderName S a = SummaryProviderName S b"

text \<open>
  The contract of \<open>PathChecker\<close>: \<open>belongs p d\<close> are the states of a checker that was made for
  path \<open>p\<close> and digest \<open>d\<close>.  Summaries do not depend on what was asked before, and carry the digest
  and the path in the repository (\<open>at p\<close>) of the checker.
\<close>

locale path_checker = path_check_summary S made
  for S :: "'s PathCheckSummary" and made :: "'s \<Rightarrow> bool" +
  fixes mk :: "'c \<Rightarrow> 's res \<times> 'c" and new_checker :: "string \<Rightarrow> SHA256 \<Rightarrow> 'c"
    and belongs :: "string \<Rightarrow> SHA256 \<Rightarrow> 'c \<Rightarrow> bool" and at_path :: "string \<Rightarrow> string res"
  assumes belongs_new: "belongs p d (new_checker p d)"
    and belongs_mk: "belongs p d c \<Longrightarrow> belongs p d (snd (mk c))"
    and mk_answer: "belongs p d c \<Longrightarrow> fst (mk c) = fst (mk (new_checker p d))"
    and mk_summary: "fst (mk (new_checker p d)) = Inr s \<Longrightarrow>
      made s \<and> SummaryDigest (Common S s) = d \<and> at_path p = Inr (SummaryPath (Common S s))"
begin

text \<open>Asking a list of checkers for their summaries.\<close>

lemma make_summaries_spec:
  assumes "list_all2 (\<lambda>(p, d) c. \<exists>k. c = Some k \<and> belongs p d k) pds cs"
  shows "fst (make_summaries mk i cs) = rmap_list (\<lambda>(p, d). fst (mk (new_checker p d))) pds"
    and "list_all2 (\<lambda>(p, d) c. \<exists>k. c = Some k \<and> belongs p d k) pds (snd (make_summaries mk i cs))"
proof -
  have "fst (make_summaries mk i cs) = rmap_list (\<lambda>(p, d). fst (mk (new_checker p d))) pds \<and>
    list_all2 (\<lambda>(p, d) c. \<exists>k. c = Some k \<and> belongs p d k) pds (snd (make_summaries mk i cs))"
    using assms
  proof (induction pds arbitrary: cs i)
    case (Cons pd pds)
    obtain p d where pd: "pd = (p, d)" by fastforce
    from Cons.prems obtain k ks where cs: "cs = Some k # ks" "belongs p d k"
        "list_all2 (\<lambda>(p, d) c. \<exists>k. c = Some k \<and> belongs p d k) pds ks"
      by (auto simp: pd list_all2_Cons1)
    have k: "fst (mk k) = fst (mk (new_checker p d))" "belongs p d (snd (mk k))"
      using mk_answer [OF cs(2)] belongs_mk [OF cs(2)] by simp_all
    show ?case
    proof (cases "mk k")
      case (Pair r k')
      then have new: "fst (mk (new_checker p d)) = r" "belongs p d k'" using k by simp_all
      show ?thesis
      proof (cases r)
        case (Inl f)
        with Pair new cs(3) show ?thesis by (simp add: pd cs(1))
      next
        case (Inr s)
        from Cons.IH [OF cs(3), of "Suc i"] obtain r' ks' where
            "make_summaries mk (Suc i) ks = (r', ks')"
            "r' = rmap_list (\<lambda>(p, d). fst (mk (new_checker p d))) pds"
            "list_all2 (\<lambda>(p, d) c. \<exists>k. c = Some k \<and> belongs p d k) pds ks'"
          by (cases "make_summaries mk (Suc i) ks") auto
        with Inr Pair new show ?thesis by (simp add: pd cs(1) rmap_def)
      qed
    qed
  qed simp
  then show "fst (make_summaries mk i cs) = rmap_list (\<lambda>(p, d). fst (mk (new_checker p d))) pds"
    "list_all2 (\<lambda>(p, d) c. \<exists>k. c = Some k \<and> belongs p d k) pds (snd (make_summaries mk i cs))"
    by simp_all
qed

end

text \<open>
  The groups of \<open>xs\<close>: each group is, in the order of \<open>xs\<close>, the entries that are in the
  repository of its first one; different groups are of different repositories; together they
  hold exactly \<open>xs\<close>.
\<close>

definition grouped :: "('s \<Rightarrow> 's \<Rightarrow> bool) \<Rightarrow> 's list \<Rightarrow> 's list list \<Rightarrow> bool" where
  "grouped same xs gs \<longleftrightarrow>
     (\<forall>g\<in>set gs. g \<noteq> [] \<and> g = filter (\<lambda>x. same x (hd g)) xs) \<and>
     sorted_wrt (\<lambda>g h. \<not> same (hd h) (hd g)) gs \<and>
     mset (concat gs) = mset xs"

lemma place_summary_cases:
  assumes "\<forall>g\<in>set gs. g \<noteq> []"
  shows "(\<exists>as g bs. gs = as @ g # bs \<and> (\<forall>a\<in>set as. \<not> same s (hd a)) \<and> same s (hd g) \<and>
           place_summary same n s gs = Inr (as @ (g @ [s]) # bs)) \<or>
         (\<forall>g\<in>set gs. \<not> same s (hd g)) \<and> place_summary same n s gs = Inr (gs @ [[s]])"
  using assms
proof (induction gs arbitrary: n)
  case (Cons g gs)
  then obtain h t where g: "g = h # t" by (cases g) auto
  show ?case
  proof (cases "same s h")
    case True
    then show ?thesis
      by (intro disjI1 exI [of _ "[]"] exI [of _ g] exI [of _ gs]) (simp add: g)
  next
    case False
    from Cons.IH [of "Suc n"] Cons.prems consider
        as k bs where "gs = as @ k # bs" "\<forall>a\<in>set as. \<not> same s (hd a)" "same s (hd k)"
          "place_summary same (Suc n) s gs = Inr (as @ (k @ [s]) # bs)"
      | "\<forall>g\<in>set gs. \<not> same s (hd g)" "place_summary same (Suc n) s gs = Inr (gs @ [[s]])"
      by auto
    then show ?thesis
    proof cases
      case 1
      then show ?thesis
        using False by (intro disjI1 exI [of _ "g # as"] exI [of _ k] exI [of _ bs]) (simp add: g)
    next
      case 2
      with False show ?thesis by (simp add: g)
    qed
  qed
qed simp

lemma slice_order_nonempty:
  "a \<noteq> [] \<Longrightarrow> b \<noteq> [] \<Longrightarrow> slice_order S a b = compare_first S (hd a) (hd b)"
  by (simp add: slice_order_def comparePathCheckSummariesSlice_def first_entry_def
      split: list.splits)

lemma comparator_paths: "comparator (comparePathCheckSummaries S)"
  unfolding comparePathCheckSummaries_def [abs_def] by (rule comparator_key)

lemma comparator_first: "comparator (compare_first S)"
  unfolding compare_first_def by (intro comparator_then comparator_key comparator_paths)

lemma comparator_hd: "comparator c \<Longrightarrow> comparator (\<lambda>a b. c (hd a) (hd b))"
  unfolding comparator_def by blast

lemma sort_tail_nonempty:
  "g \<noteq> [] \<Longrightarrow> sort_tail S ord g = hd g # SortFunc ord (comparePathCheckSummaries S) (tl g)"
  by (cases g) (auto simp: sort_tail_def)

lemma mset_sort_tail [simp]: "mset (sort_tail S ord g) = mset g"
  by (cases g) (auto simp: sort_tail_def)

text \<open>What the collection is for given groups, and what sorting promises of it.\<close>

definition collection_of ::
    "'s PathCheckSummary \<Rightarrow> 's list \<Rightarrow> 's list list \<Rightarrow> 's PathCheckSummaryCollection \<Rightarrow> bool" where
  "collection_of S xs gs col \<longleftrightarrow>
     sorted (Providers col) \<and> distinct (Providers col) \<and>
     set (Providers col) = SummaryProviderName S ` set xs \<and>
     (\<exists>gs'. mset gs' = mset gs \<and> sorted_wrt (\<lambda>a b. compare_first S (hd a) (hd b) \<le> 0) gs' \<and>
        list_all2 (\<lambda>e g. hd e = hd g \<and> mset e = mset g \<and>
            sorted_wrt (\<lambda>a b. SummaryPath (Common S a) \<le> SummaryPath (Common S b)) (tl e))
          (EntryGroups col) gs')"

context path_check_summary
begin

lemma grouped_place:
  assumes gr: "grouped (SameRepo S) xs gs" and made: "\<forall>x\<in>set (xs @ [s]). made x"
  shows "\<exists>gs'. place_summary (SameRepo S) n s gs = Inr gs' \<and> grouped (SameRepo S) (xs @ [s]) gs'"
proof -
  let ?same = "SameRepo S"
  have ne: "\<forall>g\<in>set gs. g \<noteq> [] \<and> g = filter (\<lambda>x. ?same x (hd g)) xs"
    and dist: "sorted_wrt (\<lambda>g h. \<not> ?same (hd h) (hd g)) gs" and all: "mset (concat gs) = mset xs"
    using gr by (auto simp: grouped_def)
  have heads: "made (hd g)" if "g \<in> set gs" for g
  proof -
    have "hd g \<in> set (concat gs)" using that ne by force
    then have "hd g \<in> set xs" unfolding mset_eq_setD [OF all] .
    with made show ?thesis by simp
  qed
  have ms: "made s" using made by simp
  from place_summary_cases [of gs ?same s n] ne consider
      as g bs where "gs = as @ g # bs" "\<forall>a\<in>set as. \<not> ?same s (hd a)" "?same s (hd g)"
        "place_summary ?same n s gs = Inr (as @ (g @ [s]) # bs)"
    | "\<forall>g\<in>set gs. \<not> ?same s (hd g)" "place_summary ?same n s gs = Inr (gs @ [[s]])"
    by auto
  then show ?thesis
  proof cases
    case 1
    have hg: "hd (g @ [s]) = hd g" using ne 1(1) by simp
    have "\<not> ?same s (hd b)" if b: "b \<in> set bs" for b
    proof
      assume sb: "?same s (hd b)"
      have mb: "made (hd b)" and mg: "made (hd g)" using heads 1(1) b by auto
      have "?same (hd b) (hd g)"
        by (rule same_trans [OF mb ms mg same_sym [OF ms mb sb] 1(3)])
      with dist 1(1) b show False by (auto simp: sorted_wrt_append)
    qed
    with 1(2) have others: "\<forall>a\<in>set as \<union> set bs. \<not> ?same s (hd a)" by blast
    have "grouped ?same (xs @ [s]) (as @ (g @ [s]) # bs)"
      unfolding grouped_def
    proof (intro conjI)
      show "\<forall>h\<in>set (as @ (g @ [s]) # bs). h \<noteq> [] \<and> h = filter (\<lambda>x. ?same x (hd h)) (xs @ [s])"
        using ne others 1(1,3) hg by auto
      show "sorted_wrt (\<lambda>g h. \<not> ?same (hd h) (hd g)) (as @ (g @ [s]) # bs)"
        using dist 1(1) hg by (auto simp: sorted_wrt_append)
      show "mset (concat (as @ (g @ [s]) # bs)) = mset (xs @ [s])"
        using all 1(1) by (simp add: ac_simps)
    qed
    with 1(4) show ?thesis by blast
  next
    case 2
    have fresh: "filter (\<lambda>x. ?same x s) xs = []"
    proof (rule ccontr)
      assume "\<not> ?thesis"
      then obtain x where x: "x \<in> set xs" "?same x s" by (auto simp: filter_empty_conv)
      then have "x \<in> set (concat gs)" unfolding mset_eq_setD [OF all] by simp
      then obtain g where g: "g \<in> set gs" "x \<in> set g" by auto
      have "x \<in> set (filter (\<lambda>y. ?same y (hd g)) xs)" using ne g by metis
      then have xg: "?same x (hd g)" by simp
      have mx: "made x" and mg: "made (hd g)" using made x heads g by auto
      have "?same s (hd g)" by (rule same_trans [OF ms mx mg same_sym [OF mx ms x(2)] xg])
      with 2(1) g show False by blast
    qed
    have "grouped ?same (xs @ [s]) (gs @ [[s]])"
      unfolding grouped_def
    proof (intro conjI)
      show "\<forall>h\<in>set (gs @ [[s]]). h \<noteq> [] \<and> h = filter (\<lambda>x. ?same x (hd h)) (xs @ [s])"
        using ne 2(1) fresh same_refl [OF ms] by auto
      show "sorted_wrt (\<lambda>g h. \<not> ?same (hd h) (hd g)) (gs @ [[s]])"
        using dist 2(1) by (auto simp: sorted_wrt_append)
      show "mset (concat (gs @ [[s]])) = mset (xs @ [s])" using all by simp
    qed
    with 2(2) show ?thesis by blast
  qed
qed

lemma grouped_all:
  assumes "\<forall>x\<in>set xs. made x"
  shows "\<exists>gs. rfold (place_summary (SameRepo S) 0) xs [] = Inr gs \<and> grouped (SameRepo S) xs gs"
  using assms
proof (induction xs rule: rev_induct)
  case (snoc x xs)
  then obtain gs where gs: "rfold (place_summary (SameRepo S) 0) xs [] = Inr gs"
      "grouped (SameRepo S) xs gs" by auto
  from grouped_place [OF gs(2) snoc.prems, of 0] gs(1) show ?case
    by (auto simp: rfold_append)
qed (simp add: grouped_def)


lemma group_collection_eq:
  assumes "\<forall>x\<in>set xs. made x"
  obtains gs where "grouped (SameRepo S) xs gs"
    and "group_collection S c xs = Inr
      \<lparr>Providers = sort (shuffle (c 0) (key_set (map (\<lambda>g. SummaryProviderName S (hd g)) gs))),
       EntryGroups = map (\<lambda>(n, g). hd g # SortFunc (c (n + 2)) (comparePathCheckSummaries S) (tl g))
         (List.enumerate 0 (SortFunc (c 1) (\<lambda>a b. compare_first S (hd a) (hd b)) gs))\<rparr>"
proof -
  from grouped_all [OF assms] obtain gs where
      gs: "rfold (place_summary (SameRepo S) 0) xs [] = Inr gs" "grouped (SameRepo S) xs gs" by blast
  then have ne: "g \<noteq> []" if "g \<in> set gs" for g using that by (simp add: grouped_def)
  have "rmap_list (\<lambda>e. rmap (SummaryProviderName S) (first_entry e)) gs =
      Inr (map (\<lambda>g. SummaryProviderName S (hd g)) gs)"
    by (rule rmap_list_total) (auto dest!: ne simp: first_entry_def split: list.splits)
  moreover have "SortFunc (c 1) (slice_order S) gs =
      SortFunc (c 1) (\<lambda>a b. compare_first S (hd a) (hd b)) gs"
    by (rule SortFunc_cong) (simp add: ne slice_order_nonempty)
  moreover have "(\<lambda>(n, g). sort_tail S (c (n + 2)) g) p =
      (\<lambda>(n, g). hd g # SortFunc (c (n + 2)) (comparePathCheckSummaries S) (tl g)) p"
    if "p \<in> set (List.enumerate 0 (SortFunc (c 1) (\<lambda>a b. compare_first S (hd a) (hd b)) gs))" for p
  proof -
    have "snd p \<in> set gs"
      using that by (metis image_eqI list.set_map map_snd_enumerate set_SortFunc)
    then show ?thesis using ne by (cases p) (simp add: sort_tail_nonempty)
  qed
  ultimately show thesis
    by (intro that [OF gs(2)]) (simp add: group_collection_def gs(1) cong: map_cong)
qed

theorem group_collection_spec:
  assumes "\<forall>x\<in>set xs. made x"
  shows "\<exists>gs col. group_collection S c xs = Inr col \<and> grouped (SameRepo S) xs gs \<and>
    collection_of S xs gs col"
proof -
  obtain gs where gr: "grouped (SameRepo S) xs gs"
    and eq: "group_collection S c xs = Inr
      \<lparr>Providers = sort (shuffle (c 0) (key_set (map (\<lambda>g. SummaryProviderName S (hd g)) gs))),
       EntryGroups = map (\<lambda>(n, g). hd g # SortFunc (c (n + 2)) (comparePathCheckSummaries S) (tl g))
         (List.enumerate 0 (SortFunc (c 1) (\<lambda>a b. compare_first S (hd a) (hd b)) gs))\<rparr>"
    by (rule group_collection_eq [OF assms])
  let ?gs' = "SortFunc (c 1) (\<lambda>a b. compare_first S (hd a) (hd b)) gs"
  have ne: "g \<noteq> []" if "g \<in> set gs" for g using gr that by (simp add: grouped_def)
  have all: "mset (concat gs) = mset xs" using gr by (simp add: grouped_def)
  have providers: "(\<lambda>g. SummaryProviderName S (hd g)) ` set gs = SummaryProviderName S ` set xs"
  proof -
    have "SummaryProviderName S x = SummaryProviderName S (hd g)" if "g \<in> set gs" "x \<in> set g" for g x
    proof -
      have "g = filter (\<lambda>x. SameRepo S x (hd g)) xs" using gr that by (simp add: grouped_def)
      with that(2) have "SameRepo S x (hd g)" by (metis mem_Collect_eq set_filter)
      then show ?thesis by (rule same_provider)
    qed
    then have "SummaryProviderName S ` set g = {SummaryProviderName S (hd g)}" if "g \<in> set gs" for g
      using hd_in_set [OF ne [OF that]] that by blast
    moreover have "SummaryProviderName S ` set xs = (\<Union>g\<in>set gs. SummaryProviderName S ` set g)"
      unfolding mset_eq_setD [OF all, symmetric] by (simp add: image_UN)
    ultimately show ?thesis by (simp add: UNION_singleton_eq_range)
  qed
  have "list_all2 (\<lambda>e g. hd e = hd g \<and> mset e = mset g \<and>
        sorted_wrt (\<lambda>a b. SummaryPath (Common S a) \<le> SummaryPath (Common S b)) (tl e))
      (map (\<lambda>(n, g). hd g # SortFunc (c (n + 2)) (comparePathCheckSummaries S) (tl g))
         (List.enumerate 0 ?gs')) ?gs'"
  proof -
    have "sorted_wrt (\<lambda>a b. SummaryPath (Common S a) \<le> SummaryPath (Common S b))
        (SortFunc o' (comparePathCheckSummaries S) ys)" for o' ys
      using comparator.sorted_SortFunc [OF comparator_paths [of S]]
      by (simp add: comparePathCheckSummaries_def)
    moreover have "add_mset (hd (?gs' ! i)) (mset (tl (?gs' ! i))) = mset (?gs' ! i)"
      if "i < length gs" for i
    proof -
      have "?gs' ! i \<noteq> []" using ne that by (metis length_SortFunc nth_mem set_SortFunc)
      then show ?thesis by (cases "?gs' ! i") auto
    qed
    ultimately show ?thesis
      by (simp add: list_all2_conv_all_nth nth_enumerate_eq)
  qed
  moreover have "sorted_wrt (\<lambda>a b. compare_first S (hd a) (hd b) \<le> 0) ?gs'"
    by (rule comparator.sorted_SortFunc [OF comparator_hd [OF comparator_first]])
  ultimately have "collection_of S xs gs \<lparr>Providers =
        sort (shuffle (c 0) (key_set (map (\<lambda>g. SummaryProviderName S (hd g)) gs))),
       EntryGroups = map (\<lambda>(n, g). hd g # SortFunc (c (n + 2)) (comparePathCheckSummaries S) (tl g))
         (List.enumerate 0 ?gs')\<rparr>"
    unfolding collection_of_def using providers by (auto intro!: exI [of _ ?gs'])
  with eq gr show ?thesis by blast
qed

text \<open>
  All in one repository: one group, whose head is the first entry and whose other entries are
  sorted by path.  With distinct paths nothing depends on the order of those entries or on the
  choices of the run time.
\<close>

lemma grouped_one_repo:
  assumes gr: "grouped (SameRepo S) xs gs" and "xs \<noteq> []"
    and same: "\<forall>x\<in>set xs. \<forall>y\<in>set xs. SameRepo S x y"
  shows "gs = [xs]"
proof -
  have all: "mset (concat gs) = mset xs" using gr by (simp add: grouped_def)
  have g: "g = xs" if "g \<in> set gs" for g
  proof -
    have eq: "g \<noteq> []" "g = filter (\<lambda>x. SameRepo S x (hd g)) xs"
      using gr that by (auto simp: grouped_def)
    then have "hd g \<in> set xs" by (metis filter_is_subset hd_in_set subsetD)
    with same eq(2) show ?thesis by (metis (no_types, lifting) filter_True)
  qed
  have "length gs * length xs = length xs"
  proof -
    have "length (concat gs) = length gs * length xs"
      using g by (induction gs) auto
    with mset_eq_length [OF all] show ?thesis by (simp only:)
  qed
  then have "length gs = 1" using \<open>xs \<noteq> []\<close> by simp
  then show ?thesis using g by (cases gs) auto
qed

lemma collection_one_repo:
  assumes "\<forall>x\<in>set (b # xs). made x" and "\<forall>x\<in>set (b # xs). \<forall>y\<in>set (b # xs). SameRepo S x y"
  shows "group_collection S c (b # xs) = Inr
    \<lparr>Providers = [SummaryProviderName S b],
     EntryGroups = [b # SortFunc (c 2) (comparePathCheckSummaries S) xs]\<rparr>"
proof -
  obtain gs where gr: "grouped (SameRepo S) (b # xs) gs"
    and eq: "group_collection S c (b # xs) = Inr
      \<lparr>Providers = sort (shuffle (c 0) (key_set (map (\<lambda>g. SummaryProviderName S (hd g)) gs))),
       EntryGroups = map (\<lambda>(n, g). hd g # SortFunc (c (n + 2)) (comparePathCheckSummaries S) (tl g))
         (List.enumerate 0 (SortFunc (c 1) (\<lambda>a b. compare_first S (hd a) (hd b)) gs))\<rparr>"
    by (rule group_collection_eq [OF assms(1)])
  have "gs = [b # xs]" by (rule grouped_one_repo [OF gr _ assms(2)]) simp
  then show ?thesis unfolding eq by (simp add: key_set_def gm_put_def numeral_2_eq_2)
qed

lemma collection_choices:
  assumes "\<forall>x\<in>set (b # xs). made x" and "\<forall>x\<in>set (b # xs). \<forall>y\<in>set (b # xs). SameRepo S x y"
    and "mset xs = mset ys" and "inj_on (\<lambda>x. SummaryPath (Common S x)) (set xs)"
  shows "group_collection S c (b # xs) = group_collection S c' (b # ys)"
proof -
  have set: "set ys = set xs" using assms(3) mset_eq_setD by metis
  have "SortFunc (c 2) (comparePathCheckSummaries S) xs = SortFunc (c' 2) (comparePathCheckSummaries S) ys"
    by (rule comparator.SortFunc_unique_on [OF comparator_paths assms(3)])
      (use assms(4) in \<open>auto simp: comparePathCheckSummaries_def inj_on_def\<close>)
  then show ?thesis
    using collection_one_repo [OF assms(1,2)] collection_one_repo [of b ys] assms(1,2)
    by (simp add: set)
qed

end

end
