(* ===== verification/Attest_Statements.thy ===== *)
theory Attest_Statements
  imports Attest_Types
begin

section \<open>Statements and their summary\<close>

text \<open>
  The rest of \<open>attest/types/types.go\<close>: predicates and generic statements with their export and
  their order, and the summary annotation of a list of statements.  \<open>'p\<close> are the structs that
  are stored in a statement as its predicate.
\<close>

subsection \<open>Data\<close>

record 'p Predicate =
  Type :: string
  ComparablePredicate :: 'p

record 'p GenericStatement =
  Subjects :: Subjects
  StatementPredicate :: "'p Predicate"

type_synonym 'p Statements = "'p GenericStatement list"

text \<open>
  What a value of type \<^verbatim>\<open>any\<close> can hold where predicates are compared: the struct that is stored in
  a predicate, or a \<open>Predicate[T]\<close>.
\<close>

datatype 'p dynamic = PredicateStruct 'p | PredicateValue "'p Predicate"

record 'p toto_Statement =
  StatementType :: string
  PredicateType :: string
  toto_Subjects :: "toto_Subject list"
  toto_Predicate :: "'p dynamic"

record SummaryAnnotation =
  NumStamentes :: int
  PredicateTypes :: "string list"
  SummarySubjects :: Subjects

type_synonym Cmp = "int option"

subsection \<open>Operations of a statement\<close>

definition GetType :: "'p GenericStatement \<Rightarrow> string" where
  "GetType s = Type (StatementPredicate s)"

definition GetPredicate :: "'p GenericStatement \<Rightarrow> 'p dynamic" where
  "GetPredicate s = PredicateStruct (ComparablePredicate (StatementPredicate s))"

text \<open>
  \<open>Predicate.Compare\<close>.  \<open>as_T\<close> is the type assertion \<^verbatim>\<open>.(T)\<close>, which panics when it gives
  nothing; \<open>compare_T\<close> is the method \<open>Compare\<close> that the stored struct has from the value it embeds.
\<close>

definition Predicate_Compare ::
    "('p \<Rightarrow> 't option) \<Rightarrow> ('p \<Rightarrow> 't \<Rightarrow> Cmp res) \<Rightarrow> 'p Predicate \<Rightarrow> 'p dynamic \<Rightarrow> Cmp res" where
  "Predicate_Compare as_T compare_T p b =
     (case b of
        PredicateValue q \<Rightarrow>
          (case as_T (ComparablePredicate q) of
             Some t \<Rightarrow> compare_T (ComparablePredicate p) t
           | None \<Rightarrow> Inl (Panic FailedTypeAssertion))
      | PredicateStruct _ \<Rightarrow> Inr None)"

definition MakeStatement :: "order \<Rightarrow> string \<Rightarrow> 'p \<Rightarrow> Subject list \<Rightarrow> 'p GenericStatement" where
  "MakeStatement ord predicateType predicate subjects =
     \<lparr>Subjects = SortFunc ord (\<lambda>a b. cmp_Compare (Name a) (Name b)) subjects,
      StatementPredicate = \<lparr>Type = predicateType, ComparablePredicate = predicate\<rparr>\<rparr>"

definition StatementInTotoV01 :: string where
  "StatementInTotoV01 = ''https://in-toto.io/Statement/v0.1''"

definition Export :: "'p GenericStatement \<Rightarrow> 'p toto_Statement" where
  "Export s =
     \<lparr>StatementType = StatementInTotoV01, PredicateType = GetType s,
      toto_Subjects = Subjects_Export (Subjects s), toto_Predicate = GetPredicate s\<rparr>"

definition Statements_Export :: "'p Statements \<Rightarrow> 'p toto_Statement list" where
  "Statements_Export s = map Export s"

text \<open>An encoder writes a statement to a stream of type \<open>'w\<close>.\<close>

definition EncodeWith ::
    "('p toto_Statement \<Rightarrow> 'w \<Rightarrow> 'w res) \<Rightarrow> 'p GenericStatement \<Rightarrow> 'w \<Rightarrow> 'w res" where
  "EncodeWith e s = e (Export s)"

definition Statements_EncodeWith ::
    "('p toto_Statement \<Rightarrow> 'w \<Rightarrow> 'w res) \<Rightarrow> 'p Statements \<Rightarrow> 'w \<Rightarrow> 'w res" where
  "Statements_EncodeWith encoder s = rfold (EncodeWith encoder) s"

text \<open>
  \<open>SetSubjects\<close> changes the subjects in place and stops at the first error; the subjects before
  it stay changed, and so does what \<open>f\<close> did to the one it failed on.
\<close>

fun set_subjects :: "(Subject \<Rightarrow> unit res \<times> Subject) \<Rightarrow> Subjects \<Rightarrow> unit res \<times> Subjects" where
  "set_subjects f [] = (Inr (), [])"
| "set_subjects f (s # ss) =
     (case f s of
        (Inl e, s') \<Rightarrow> (Inl e, s' # ss)
      | (Inr _, s') \<Rightarrow> (case set_subjects f ss of (r, ss') \<Rightarrow> (r, s' # ss')))"

definition SetSubjects ::
    "(Subject \<Rightarrow> unit res \<times> Subject) \<Rightarrow> 'p GenericStatement \<Rightarrow> unit res \<times> 'p GenericStatement" where
  "SetSubjects f s = (case set_subjects f (Subjects s) of (r, ss) \<Rightarrow> (r, s\<lparr>Subjects := ss\<rparr>))"

definition GenericStatement_Compare ::
    "('p \<Rightarrow> 't option) \<Rightarrow> ('p \<Rightarrow> 't \<Rightarrow> Cmp res)
      \<Rightarrow> 'p GenericStatement \<Rightarrow> 'p GenericStatement \<Rightarrow> Cmp res" where
  "GenericStatement_Compare as_T compare_T a b =
     (let c = cmp_Compare (GetType a) (GetType b)
      in if c \<noteq> 0 then Inr (Some c)
      else let c = cmp_Compare (length (Subjects a)) (length (Subjects b))
      in if c \<noteq> 0 then Inr (Some c)
      else rbind (first_entry (Subjects a)) (\<lambda>sa. rbind (first_entry (Subjects b)) (\<lambda>sb.
           let c = cmp_Compare (Name sa) (Name sb)
           in if c \<noteq> 0 then Inr (Some c)
           else Predicate_Compare as_T compare_T (StatementPredicate a) (GetPredicate b))))"

subsection \<open>The summary annotation\<close>

text \<open>
  Choices 0 and 1 are the orders of the \<^verbatim>\<open>range\<close> loops over the collected types and subjects,
  choice 2 belongs to the sort of the subjects.
\<close>

definition MakeSummaryAnnotation :: "choices \<Rightarrow> 'p Statements \<Rightarrow> SummaryAnnotation" where
  "MakeSummaryAnnotation c s =
     (let types = key_set (map GetType s);
          subjects = key_set (concat (map Subjects s))
      in \<lparr>NumStamentes = int (length s),
          PredicateTypes = sort (shuffle (c 0) types),
          SummarySubjects =
            SortFunc (c 2) (\<lambda>a b. cmp_Compare (Name a) (Name b)) (shuffle (c 1) subjects)\<rparr>)"

definition SummaryAnnotation_to_json :: "SummaryAnnotation \<Rightarrow> json" where
  "SummaryAnnotation_to_json a =
     JObject [(''numStamentes'', JNumber (NumStamentes a)),
              (''predicateTypes'', JArray (map JString (PredicateTypes a))),
              (''subject'', Subjects_MarshalJSON (SummarySubjects a))]"

text \<open>
  What \<open>UnmarshalSummaryAnnotation\<close> reads.  A field that is not there keeps its zero value, and
  \<open>Subjects.UnmarshalJSON\<close> is only called for a field that is there.
\<close>

definition SummaryAnnotation_of_json :: "json \<Rightarrow> SummaryAnnotation res" where
  "SummaryAnnotation_of_json j =
     rbind (json_object j) (\<lambda>fields.
     rbind (json_int (json_field ''numStamentes'' fields)) (\<lambda>n.
     rbind (json_array (json_field ''predicateTypes'' fields)) (\<lambda>ts.
     rbind (rmap_list json_string ts) (\<lambda>types.
     rbind (case gm_get fields ''subject'' of
              None \<Rightarrow> Inr []
            | Some s \<Rightarrow> (case Subjects_UnmarshalJSON s [] of (r, ss) \<Rightarrow> rmap (\<lambda>_. ss) r)) (\<lambda>ss.
     Inr \<lparr>NumStamentes = n, PredicateTypes = types, SummarySubjects = ss\<rparr>)))))"

subsection \<open>Comparing statements\<close>

text \<open>The part of a statement that \<open>Compare\<close> gets to look at.\<close>

definition header :: "'p GenericStatement \<Rightarrow> string \<times> nat \<times> string" where
  "header s = (GetType s, length (Subjects s), (case Subjects s of [] \<Rightarrow> [] | x # _ \<Rightarrow> Name x))"

definition compare_headers :: "'p GenericStatement \<Rightarrow> 'p GenericStatement \<Rightarrow> int" where
  "compare_headers =
     cmp_then (\<lambda>a b. cmp_Compare (GetType a) (GetType b))
       (cmp_then (\<lambda>a b. cmp_Compare (length (Subjects a)) (length (Subjects b)))
          (\<lambda>a b. cmp_Compare (snd (snd (header a))) (snd (snd (header b)))))"

lemma comparator_headers: "comparator compare_headers"
  unfolding compare_headers_def by (intro cmp_intros)

lemma compare_headers_eq_0: "compare_headers a b = 0 \<longleftrightarrow> header a = header b"
  by (auto simp: compare_headers_def cmp_then_def header_def)

lemma GenericStatement_Compare_cases:
  "GenericStatement_Compare as_T compare_T a b =
     (if header a = header b
      then if Subjects a = [] then Inl (Panic IndexOutOfRange) else Inr None
      else Inr (Some (compare_headers a b)))"
proof -
  have "Predicate_Compare as_T compare_T p (GetPredicate b) = Inr None" for p
    by (simp add: Predicate_Compare_def GetPredicate_def)
  then show ?thesis
    by (cases "Subjects a"; cases "Subjects b")
      (auto simp: GenericStatement_Compare_def Let_def compare_headers_def cmp_then_def header_def
        first_entry_def)
qed

text \<open>
  Two statements are ordered by their headers (type, number of subjects, name of the first
  subject) alone.  Where the headers agree there is no answer, whatever the predicates are and
  however the predicate type compares them, because \<open>GetPredicate\<close> returns the stored struct and
  never a \<open>Predicate[T]\<close>; and when neither statement has a subject the comparison panics.
\<close>

theorem GenericStatement_Compare_only_headers:
  "GenericStatement_Compare as_T compare_T a b =
     (if (GetType a, length (Subjects a)) \<noteq> (GetType b, length (Subjects b))
      then Inr (Some (cmp_then (\<lambda>a b. cmp_Compare (GetType a) (GetType b))
             (\<lambda>a b. cmp_Compare (length (Subjects a)) (length (Subjects b))) a b))
      else if Subjects a = [] then Inl (Panic IndexOutOfRange)
      else if Name (hd (Subjects a)) \<noteq> Name (hd (Subjects b))
      then Inr (Some (cmp_Compare (Name (hd (Subjects a))) (Name (hd (Subjects b)))))
      else Inr None)"
  unfolding GenericStatement_Compare_cases
  by (cases "Subjects a"; cases "Subjects b") (auto simp: header_def compare_headers_def cmp_then_def)

subsection \<open>Setting subjects\<close>

lemma set_subjects_Inr:
  "set_subjects f ss = (Inr u, ss') \<longleftrightarrow>
     (\<forall>s\<in>set ss. fst (f s) = Inr ()) \<and> ss' = map (\<lambda>s. snd (f s)) ss"
proof (induction ss arbitrary: ss')
  case (Cons s ss)
  show ?case
  proof (cases "f s")
    case (Pair r s')
    then show ?thesis
      using Cons by (cases r; cases "set_subjects f ss") (auto simp: image_iff)
  qed
qed auto

lemma length_set_subjects [simp]: "length (snd (set_subjects f ss)) = length ss"
  by (induction f ss rule: set_subjects.induct) (auto split: prod.splits sum.splits)

subsection \<open>The summary annotation lists what the statements hold\<close>

text \<open>
  The annotation counts the statements, lists every predicate type once in ascending order,
  and lists every subject of every statement exactly once, by name.
\<close>

theorem MakeSummaryAnnotation_lists:
  fixes c ss
  defines "a \<equiv> MakeSummaryAnnotation c ss"
  shows "NumStamentes a = int (length ss) \<and>
    set (PredicateTypes a) = GetType ` set ss \<and> sorted (PredicateTypes a) \<and> distinct (PredicateTypes a) \<and>
    set (SummarySubjects a) = (\<Union>s\<in>set ss. set (Subjects s)) \<and> distinct (SummarySubjects a) \<and>
    sorted (map Name (SummarySubjects a))"
proof -
  have "sorted_wrt (\<lambda>a b. cmp_Compare (Name a) (Name b) \<le> 0)
      (SortFunc ord (\<lambda>a b. cmp_Compare (Name a) (Name b)) xs)" for ord and xs :: Subjects
    by (rule comparator.sorted_SortFunc [OF comparator_key])
  then show ?thesis by (simp add: a_def MakeSummaryAnnotation_def Let_def sorted_wrt_map)
qed

lemma summary_subjects_unique:
  fixes xs ys :: Subjects
  assumes "mset xs = mset ys" and "inj_on Name (set xs)"
  shows "SortFunc o1 (\<lambda>a b. cmp_Compare (Name a) (Name b)) xs =
    SortFunc o2 (\<lambda>a b. cmp_Compare (Name a) (Name b)) ys"
  by (rule comparator.SortFunc_unique_on [OF comparator_key assms(1)])
    (use assms(2) in \<open>auto simp: inj_on_def\<close>)

text \<open>
  C25: when no two different subjects share a name, the annotation depends on neither the run
  time's choices nor the order of the statements.
\<close>

theorem MakeSummaryAnnotation_deterministic:
  assumes "mset ss = mset tt"
    and "inj_on Name (\<Union>s\<in>set ss. set (Subjects s))"
  shows "MakeSummaryAnnotation c ss = MakeSummaryAnnotation c' tt"
proof -
  have set: "set ss = set tt" using assms(1) by (rule mset_eq_setD)
  have "mset (key_set xs) = mset (key_set ys)" if "set xs = set ys" for xs ys :: "'a list"
    using that by (simp add: set_eq_iff_mset_eq_distinct [symmetric])
  then have "mset (shuffle (c 0) (key_set (map GetType ss))) = mset (shuffle (c' 0) (key_set (map GetType tt)))"
    and subj: "mset (shuffle (c 1) (key_set (concat (map Subjects ss)))) =
      mset (shuffle (c' 1) (key_set (concat (map Subjects tt))))"
    by (simp_all add: set_eq_iff_mset_eq_distinct [symmetric] set)
  then have "sort (shuffle (c 0) (key_set (map GetType ss))) = sort (shuffle (c' 0) (key_set (map GetType tt)))"
    by (metis sorted_list_of_multiset_mset)
  moreover have "SortFunc (c 2) (\<lambda>a b. cmp_Compare (Name a) (Name b)) (shuffle (c 1) (key_set (concat (map Subjects ss))))
      = SortFunc (c' 2) (\<lambda>a b. cmp_Compare (Name a) (Name b)) (shuffle (c' 1) (key_set (concat (map Subjects tt))))"
    by (rule summary_subjects_unique [OF subj]) (use assms(2) in simp)
  moreover have "length ss = length tt" using assms(1) by (rule mset_eq_length)
  ultimately show ?thesis by (simp add: MakeSummaryAnnotation_def Let_def)
qed

definition sample_statement :: "string \<Rightarrow> string \<Rightarrow> string \<Rightarrow> nat GenericStatement" where
  "sample_statement t n d = MakeStatement in_order t 0 [\<lparr>Name = n, SubjectDigest = d\<rparr>]"

lemmas sample_statement_simps = sample_statement_def MakeStatement_def GetType_def

theorem MakeSummaryAnnotation_deterministic_witness:
  "MakeSummaryAnnotation (\<lambda>_. reversed_order)
       [sample_statement ''t'' ''a.yaml'' ''1'', sample_statement ''u'' ''b.yaml'' ''2''] =
     MakeSummaryAnnotation (\<lambda>_. in_order)
       [sample_statement ''u'' ''b.yaml'' ''2'', sample_statement ''t'' ''a.yaml'' ''1'']"
  by (rule MakeSummaryAnnotation_deterministic) (simp_all add: sample_statement_simps)


lemma json_string_list [simp]: "rmap_list (json_string \<circ> JString) xs = Inr xs"
  by (induction xs) auto

lemma rmap_list_map: "rmap_list f (map g xs) = rmap_list (f \<circ> g) xs"
  by (induction xs) auto

lemma SummaryAnnotation_read_back:
  "SummaryAnnotation_of_json (SummaryAnnotation_to_json a) =
     (if SummarySubjects a = [] then Inl (Fail SubjectZeroEntries)
      else if [] \<notin> SubjectDigest ` set (SummarySubjects a) then Inr a
      else Inl (Fail MissingSHA256))"
proof -
  have "[] \<in> SubjectDigest ` set ss \<longleftrightarrow> \<not> (\<forall>s\<in>set ss. SubjectDigest s \<noteq> [])" for ss :: Subjects
    by (metis image_iff)
  then show ?thesis
    by (simp add: SummaryAnnotation_of_json_def SummaryAnnotation_to_json_def json_field_def
        gm_put_def gm_get_def rmap_list_map Subjects_read_back)
qed

text \<open>
  An annotation that is written and read back is unchanged, when it has a subject and all its
  subjects have digests.  An annotation without subjects is written but cannot be read.
\<close>

theorem SummaryAnnotation_roundtrip:
  "SummaryAnnotation_of_json (SummaryAnnotation_to_json a) =
     (if SummarySubjects a = [] then Inl (Fail SubjectZeroEntries)
      else if [] \<notin> SubjectDigest ` set (SummarySubjects a) then Inr a
      else Inl (Fail MissingSHA256))"
  by (rule SummaryAnnotation_read_back)

end
