(* ===== verification/Attest_Manifest.thy ===== *)
theory Attest_Manifest
  imports Attest_Statements Image_List
begin

section \<open>Statements about images and manifests\<close>

text \<open>
  The package \<open>attest/manifest\<close>: the statements about original, resolved and replaced image
  references (\<open>images.go\<close>) and about the contents of the manifest directory
  (\<open>manifest.go\<close>).
\<close>

subsection \<open>Predicates\<close>

record ImageRefenceWithLocation =
  Reference :: string
  RefLine :: int
  RefColumn :: int
  RefAlias :: "string option"

text \<open>A nil \<open>VCSEntries\<close> is \<open>None\<close>.\<close>

record 's SourceDirectory =
  DirPath :: string
  VCSEntries :: "'s PathCheckSummaryCollection option"

text \<open>
  The struct stored in a statement embeds one of these under a JSON name of its own; the
  constructors are those names.
\<close>

datatype 's predicate =
    FoundImageReference ImageRefenceWithLocation
  | ReplacedImageReference ImageRefenceWithLocation
  | ResolvedImageReference ImageRefenceWithLocation
  | ContainedInDirectory "'s SourceDirectory"

datatype 's embedded = EmbeddedRef ImageRefenceWithLocation | EmbeddedDir "'s SourceDirectory"

fun embedded_in :: "'s predicate \<Rightarrow> 's embedded" where
  "embedded_in (FoundImageReference r) = EmbeddedRef r"
| "embedded_in (ReplacedImageReference r) = EmbeddedRef r"
| "embedded_in (ResolvedImageReference r) = EmbeddedRef r"
| "embedded_in (ContainedInDirectory d) = EmbeddedDir d"

definition OriginalImageRefPredicateType :: string where
  "OriginalImageRefPredicateType = ''docker.com/tape/OriginalImageRef/v0.1''"

definition ResolvedImageRefPredicateType :: string where
  "ResolvedImageRefPredicateType = ''docker.com/tape/ResolvedImageRef/v0.1''"

definition ReplacedImageRefPredicateType :: string where
  "ReplacedImageRefPredicateType = ''docker.com/tape/ReplacedImageRef/v0.1''"

definition ManifestDirPredicateType :: string where
  "ManifestDirPredicateType = ''docker.com/tape/ManifestDir/v0.1''"

subsection \<open>Operations\<close>

definition ImageRefence_Compare :: "ImageRefenceWithLocation \<Rightarrow> ImageRefenceWithLocation \<Rightarrow> Cmp" where
  "ImageRefence_Compare a b =
     Some (cmp_then (\<lambda>a b. cmp_Compare (Reference a) (Reference b))
            (cmp_then (\<lambda>a b. cmp_Compare (RefLine a) (RefLine b))
               (\<lambda>a b. cmp_Compare (RefColumn a) (RefColumn b))) a b)"

definition SourceDirectory_Compare ::
    "'s PathCheckSummary \<Rightarrow> 's SourceDirectory \<Rightarrow> 's SourceDirectory \<Rightarrow> Cmp res" where
  "SourceDirectory_Compare S a b =
     (let c = cmp_Compare (DirPath a) (DirPath b)
      in if c \<noteq> 0 then Inr (Some c)
      else case (VCSEntries a, VCSEntries b) of
             (None, Some _) \<Rightarrow> Inr (Some (-1))
           | (Some _, None) \<Rightarrow> Inr (Some 1)
           | (None, None) \<Rightarrow> Inl (Panic NilDereference)
           | (Some x, Some y) \<Rightarrow> rmap Some (collection_Compare S x y))"

text \<open>The method \<open>Compare\<close> that a stored struct has from the value it embeds, applied to a \<open>T\<close>.\<close>

definition predicate_Compare :: "'s PathCheckSummary \<Rightarrow> 's predicate \<Rightarrow> 's embedded \<Rightarrow> Cmp res" where
  "predicate_Compare S p t =
     (case (embedded_in p, t) of
        (EmbeddedRef a, EmbeddedRef b) \<Rightarrow> Inr (ImageRefence_Compare a b)
      | (EmbeddedDir a, EmbeddedDir b) \<Rightarrow> SourceDirectory_Compare S a b
      | _ \<Rightarrow> Inr None)"

text \<open>The loops of \<open>forEachImage\<close>: the calls of \<open>do\<close>, in order.\<close>

definition image_reference :: "image \<Rightarrow> source \<Rightarrow> ImageRefenceWithLocation" where
  "image_reference i s =
     \<lparr>Reference = Ref True i, RefLine = Line s, RefColumn = Column s, RefAlias = Alias i\<rparr>"

definition forEachImage :: "ImageList \<Rightarrow> (Subject \<times> ImageRefenceWithLocation) list" where
  "forEachImage images =
     concat (map (\<lambda>i. map (\<lambda>s.
         (\<lparr>Name = Manifest s, SubjectDigest = ManifestDigest s\<rparr>, image_reference i s)) (Sources i))
       (items images))"

text \<open>With one subject there is nothing to sort.\<close>

definition MakeOriginalImageRefStatements :: "ImageList \<Rightarrow> 's predicate Statements" where
  "MakeOriginalImageRefStatements images =
     map (\<lambda>(subject, ref). MakeStatement in_order OriginalImageRefPredicateType
            (FoundImageReference ref) [subject])
       (forEachImage images)"

definition MakeReplacedImageRefStatements :: "ImageList \<Rightarrow> 's predicate Statements" where
  "MakeReplacedImageRefStatements images =
     map (\<lambda>(subject, ref). MakeStatement in_order ReplacedImageRefPredicateType
            (ReplacedImageReference ref) [subject])
       (forEachImage images)"

definition MakeResovedImageRefStatements :: "ImageList \<Rightarrow> 's predicate Statements" where
  "MakeResovedImageRefStatements images =
     map (\<lambda>(subject, ref). MakeStatement in_order ResolvedImageRefPredicateType
            (ResolvedImageReference ref) [subject])
       (forEachImage images)"

definition MakeDirContentsStatement ::
    "'s PathCheckSummary \<Rightarrow> order \<Rightarrow> string \<Rightarrow> 's PathCheckSummaryCollection option
      \<Rightarrow> 's predicate GenericStatement res" where
  "MakeDirContentsStatement S ord d entries =
     (case entries of
        None \<Rightarrow> Inl (Panic NilDereference)
      | Some c \<Rightarrow>
          Inr (MakeStatement ord ManifestDirPredicateType
            (ContainedInDirectory \<lparr>DirPath = d, VCSEntries = Some c\<rparr>) (collection_Subject S c)))"

subsection \<open>The statements of an image list\<close>

lemma MakeStatement_simps [simp]:
  "GetType (MakeStatement ord t p ss) = t"
  "Subjects (MakeStatement ord t p ss) = SortFunc ord (\<lambda>a b. cmp_Compare (Name a) (Name b)) ss"
  "StatementPredicate (MakeStatement ord t p ss) = \<lparr>Type = t, ComparablePredicate = p\<rparr>"
  by (simp_all add: MakeStatement_def GetType_def)

lemma forEachImage_source_pairs:
  "forEachImage l = map (\<lambda>(i, s). (\<lparr>Name = Manifest s, SubjectDigest = ManifestDigest s\<rparr>,
     image_reference i s)) (source_pairs l)"
  by (simp add: forEachImage_def source_pairs_def map_concat comp_def)

text \<open>
  What a statement says apart from the alias: the subject, and the reference with its place.
\<close>

definition place_of :: "string \<Rightarrow> source \<Rightarrow> Subject \<times> ImageRefenceWithLocation" where
  "place_of ref s = (\<lparr>Name = Manifest s, SubjectDigest = ManifestDigest s\<rparr>,
     \<lparr>Reference = ref, RefLine = Line s, RefColumn = Column s, RefAlias = None\<rparr>)"

definition without_alias :: "Subject \<times> ImageRefenceWithLocation \<Rightarrow> Subject \<times> ImageRefenceWithLocation" where
  "without_alias p = (fst p, (snd p)\<lparr>RefAlias := None\<rparr>)"

definition image_places :: "image \<Rightarrow> (Subject \<times> ImageRefenceWithLocation) multiset" where
  "image_places i = image_mset (place_of (Ref True i)) (mset (Sources i))"

lemma places_of_list:
  "mset (map without_alias (forEachImage l)) = sum_list (map image_places (items l))"
proof -
  have "mset (map without_alias (concat (map (\<lambda>i. map (\<lambda>s. (\<lparr>Name = Manifest s, SubjectDigest = ManifestDigest s\<rparr>,
     image_reference i s)) (Sources i)) imgs))) = sum_list (map image_places imgs)" for imgs
    by (induction imgs)
      (simp_all add: image_places_def without_alias_def place_of_def [abs_def] image_reference_def
        multiset.map_comp comp_def)
  then show ?thesis by (simp add: forEachImage_def)
qed

lemma sum_by_key:
  fixes f :: "'a \<Rightarrow> 'b::comm_monoid_add"
  assumes "distinct ks" and "key ` set xs \<subseteq> set ks"
  shows "sum_list (map (\<lambda>k. sum_list (map f (filter (\<lambda>x. key x = k) xs))) ks) = sum_list (map f xs)"
  using assms(2)
proof (induction xs)
  case (Cons x xs)
  have "sum_list (map (\<lambda>k. sum_list (map f (filter (\<lambda>y. key y = k) (x # xs)))) ks) =
      sum_list (map (\<lambda>k. (if key x = k then f x else 0) + sum_list (map f (filter (\<lambda>y. key y = k) xs))) ks)"
    by (rule arg_cong [of _ _ sum_list], rule map_cong) auto
  also have "\<dots> = sum_list (map (\<lambda>k. if key x = k then f x else 0) ks) + sum_list (map f xs)"
    using Cons by (simp add: sum_list_addf)
  also have "sum_list (map (\<lambda>k. if key x = k then f x else 0) ks) = f x"
    using assms(1) Cons.prems by (simp add: sum_list_distinct_conv_sum_set sum.delta)
  finally show ?case by simp
qed simp

text \<open>
  Images with the same reference in the manifest have the same name and tag, as those have that
  \<open>image_of_ref\<close> makes from it.
\<close>

definition consistent :: "ImageList \<Rightarrow> bool" where
  "consistent l \<longleftrightarrow> (\<forall>i\<in>set (items l). \<forall>j\<in>set (items l). key_of i = key_of j \<longrightarrow> Ref True i = Ref True j)"

lemma places_merged:
  assumes "merged_from its r" and "its \<noteq> []" and "\<forall>i\<in>set its. Ref True i = Ref True (last its)"
  shows "image_places r = sum_list (map image_places its)"
proof -
  have ref: "Ref True r = Ref True (last its)"
    using assms(1) by (simp add: merged_from_def Ref_original)
  have "sum_list (map image_places its) =
      sum_list (map (\<lambda>i. image_mset (place_of (Ref True r)) (mset (Sources i))) its)"
    by (rule arg_cong [of _ _ sum_list], rule map_cong) (use assms(3) ref in \<open>simp_all add: image_places_def\<close>)
  also have "\<dots> = image_mset (place_of (Ref True r)) (mset (concat (map Sources its)))"
    by (induction its) auto
  finally show ?thesis using assms(1) by (simp add: merged_from_def image_places_def)
qed

text \<open>
  C20: deduplication loses no attestation: the statements made for the deduplicated list are about
  exactly the manifests, references, lines and columns that the statements for the list before
  are about, each as often, the aliases apart.
\<close>

theorem Dedup_keeps_statements:
  assumes "Dedup c l = Inr l'" and "\<not> deduped l" and "\<forall>i\<in>set (items l). wf_image i" and "consistent l"
  shows "mset (map without_alias (forEachImage l')) = mset (map without_alias (forEachImage l))"
proof -
  from Dedup_InrE [OF assms(1)] assms(2) obtain out where
      out: "dedup_items c (items l) = Inr out" "l' = MakeAliases (l\<lparr>items := out, deduped := True\<rparr>)"
    by metis
  note spec = dedup_items_spec [OF assms(3) out(1)]
  have "map image_places (items l') = map image_places out"
    unfolding out(2) by (subst map_items_MakeAliases) (simp_all add: image_places_def Ref_def)
  also have "\<dots> = map (\<lambda>r. sum_list (map image_places (filter (\<lambda>i. key_of i = key_of r) (items l)))) out"
  proof (rule map_cong [OF refl])
    fix r
    assume r: "r \<in> set out"
    let ?its = "filter (\<lambda>i. key_of i = key_of r) (items l)"
    have "key_of r \<in> key_of ` set (items l)" using r spec(2) by auto
    then have ne: "?its \<noteq> []" by (auto simp: filter_empty_conv)
    then have "last ?its \<in> set ?its" by (rule last_in_set)
    then have "\<forall>i\<in>set ?its. Ref True i = Ref True (last ?its)"
      using assms(4) unfolding consistent_def by simp
    with r spec(3) ne show "image_places r = sum_list (map image_places ?its)"
      by (intro places_merged) auto
  qed
  finally have "sum_list (map image_places (items l')) =
      sum_list (map (\<lambda>k. sum_list (map image_places (filter (\<lambda>i. key_of i = k) (items l)))) (map key_of out))"
    by (simp add: comp_def)
  also have "\<dots> = sum_list (map image_places (items l))"
    by (rule sum_by_key) (use spec(1,2) in auto)
  finally show ?thesis by (simp only: places_of_list)
qed

theorem Dedup_keeps_statements_witness:
  "\<exists>l'. Dedup (\<lambda>_. in_order) sample_list = Inr l' \<and>
     mset (map without_alias (forEachImage l')) = mset (map without_alias (forEachImage sample_list))"
proof -
  have "\<forall>i\<in>set (items sample_list). Sources i \<noteq> []"
    using sample_list_ok(2) by (auto simp: wf_image_def)
  from dedup_items_Inr [OF this] sample_list_ok
  obtain l' where l': "Dedup (\<lambda>_. in_order) sample_list = Inr l'"
    by (auto simp: Dedup_all_digests)
  have "consistent sample_list"
    by (simp add: consistent_def sample_list_def sample_image_def sample_source_def key_of_def Ref_def)
  from Dedup_keeps_statements [OF l' sample_list_ok(3,2) this] l' show ?thesis by blast
qed

subsection \<open>The statement about the directory\<close>

lemma set_collection_Subject:
  "set (collection_Subject S c) =
     {MakeSubject (SummaryPath (Common S e)) (SummaryDigest (Common S e)) | e g.
        g \<in> set (EntryGroups c) \<and> e \<in> set g \<and> SummaryDigest (Common S e) \<noteq> []}"
  by (fastforce simp: collection_Subject_def Let_def split: if_splits)

lemma collection_Subject_concat:
  "collection_Subject S c = concat (map (\<lambda>e.
       if SummaryDigest (Common S e) = [] then []
       else [MakeSubject (SummaryPath (Common S e)) (SummaryDigest (Common S e))])
     (concat (EntryGroups c)))"
proof -
  have "concat (map (\<lambda>g. concat (map f g)) gs) = concat (map f (concat gs))"
    for gs and f :: "'a \<Rightarrow> Subjects"
    by (induction gs) auto
  then show ?thesis by (simp add: collection_Subject_def Let_def)
qed

lemma mset_collection_Subject:
  "mset (collection_Subject S c) =
     image_mset (\<lambda>e. MakeSubject (SummaryPath (Common S e)) (SummaryDigest (Common S e)))
       {# e \<in># mset (concat (EntryGroups c)). SummaryDigest (Common S e) \<noteq> [] #}"
proof -
  have "mset (concat (map (\<lambda>e. if SummaryDigest (Common S e) = [] then []
       else [MakeSubject (SummaryPath (Common S e)) (SummaryDigest (Common S e))]) xs)) =
     image_mset (\<lambda>e. MakeSubject (SummaryPath (Common S e)) (SummaryDigest (Common S e)))
       {# e \<in># mset xs. SummaryDigest (Common S e) \<noteq> [] #}" for xs
    by (induction xs) auto
  then show ?thesis by (simp only: collection_Subject_concat)
qed

end
