(* ===== verification/Attest_Registry.thy ===== *)
theory Attest_Registry
  imports Attest_Manifest
begin

section \<open>The registry of path checkers and statements\<close>

text \<open>
  \<open>attest/registry.go\<close> and \<open>attest/attest.go\<close>: the registry keeps a path checker for every
  manifest, the digests of manifests that were mutated, and the statements made about them; a
  statement is accepted only when its subjects are registered or mutated manifests.  The
  registry is written against the interfaces \<open>PathChecker\<close> (\<open>I\<close>) and
  \<open>PathCheckSummary\<close> (\<open>S\<close>).
\<close>

subsection \<open>State\<close>

type_synonym PathCheckerRegistryKey = "string \<times> SHA256"

type_synonym Mutations = "(PathCheckerRegistryKey, SHA256) gomap"

record ('c, 's) PathCheckerRegistry =
  newPathChecker :: "string \<Rightarrow> SHA256 \<Rightarrow> 'c"
  registry :: "(PathCheckerRegistryKey, 'c) gomap"
  mutatedPaths :: "Mutations option"
  statements :: "'s predicate Statements"
  pathChecker :: "'c option"
  cachedSummary :: "'s option"
  fromWorkDir :: string
  fromRepoRoot :: string

definition NewPathCheckerRegistry ::
    "string \<Rightarrow> (string \<Rightarrow> SHA256 \<Rightarrow> 'c) \<Rightarrow> ('c, 's) PathCheckerRegistry" where
  "NewPathCheckerRegistry d new =
     \<lparr>newPathChecker = new, registry = [], mutatedPaths = None, statements = [],
      pathChecker = None, cachedSummary = None, fromWorkDir = d, fromRepoRoot = []\<rparr>"

subsection \<open>Operations\<close>

definition registry_dir :: "('c, 's) PathCheckerRegistry \<Rightarrow> string" where
  "registry_dir r =
     (if fromRepoRoot r \<noteq> [] then fromRepoRoot r
      else if fromWorkDir r \<noteq> [] then fromWorkDir r else ''.'')"

definition pathFromRepoRoot :: "('c, 's) PathCheckerRegistry \<Rightarrow> string \<Rightarrow> string" where
  "pathFromRepoRoot r p = filepath_Join [fromRepoRoot r, p]"

definition pathFromWorkDir :: "('c, 's) PathCheckerRegistry \<Rightarrow> string \<Rightarrow> string" where
  "pathFromWorkDir r p = filepath_Join [fromWorkDir r, p]"

definition BaseDirSummary :: "('c, 's) PathCheckerRegistry \<Rightarrow> 's option" where
  "BaseDirSummary r = cachedSummary r"

definition registry_init ::
    "'s PathCheckSummary \<Rightarrow> ('c, 's) PathChecker \<Rightarrow> 'c \<Rightarrow> ('c, 's) PathCheckerRegistry
      \<Rightarrow> ('c, 's) PathCheckerRegistry res" where
  "registry_init S I baseDirChecker r =
     (case MakeSummary I baseDirChecker of (summary, checker) \<Rightarrow>
        rmap (\<lambda>s. r\<lparr>pathChecker := Some checker, cachedSummary := Some s,
                     fromRepoRoot := SummaryPath (Common S s)\<rparr>)
          (wrap ''unable to make summary'' summary))"

definition Register ::
    "string \<Rightarrow> SHA256 \<Rightarrow> ('c, 's) PathCheckerRegistry \<Rightarrow> ('c, 's) PathCheckerRegistry res" where
  "Register p d r =
     (let key = (pathFromRepoRoot r p, d)
      in case gm_get (registry r) key of
           Some _ \<Rightarrow> Inl (Fail (PathCheckerRegistered (fst key) (snd key)))
         | None \<Rightarrow>
             Inr (r\<lparr>registry := gm_put key (newPathChecker r (pathFromWorkDir r p) d) (registry r)\<rparr>))"

text \<open>The argument is iterated in an order the run time chooses; keys that join to one collide.\<close>

definition RegisterMutated ::
    "order \<Rightarrow> Mutations \<Rightarrow> ('c, 's) PathCheckerRegistry \<Rightarrow> ('c, 's) PathCheckerRegistry" where
  "RegisterMutated ord mutated r =
     r\<lparr>mutatedPaths := Some (fold (\<lambda>((p, d), oldDigest). gm_put (pathFromRepoRoot r p, d) oldDigest)
         (gm_range ord mutated) [])\<rparr>"

text \<open>Whether a subject is known to the registry.\<close>

definition relevant :: "('c, 's) PathCheckerRegistry \<Rightarrow> PathCheckerRegistryKey \<Rightarrow> bool" where
  "relevant r key \<longleftrightarrow>
     gm_get (registry r) key \<noteq> None \<or>
     (case mutatedPaths r of None \<Rightarrow> False | Some m \<Rightarrow> gm_get m key \<noteq> None)"

text \<open>The function \<open>AssociateStatements\<close> hands to \<open>SetSubjects\<close>.\<close>

definition associate_subject :: "('c, 's) PathCheckerRegistry \<Rightarrow> Subject \<Rightarrow> unit res \<times> Subject" where
  "associate_subject r subject =
     (let p = pathFromRepoRoot r (Name subject)
      in if \<not> relevant r (p, SubjectDigest subject)
         then (Inl (Fail (StatementNotRelevant (Name subject) p)), subject)
         else (Inr (), subject\<lparr>Name := p\<rparr>))"

text \<open>
  The loop over the statements.  They are pointers: the second component is what the caller's
  statements have become, also after an error.
\<close>

fun set_all_subjects ::
    "(Subject \<Rightarrow> unit res \<times> Subject) \<Rightarrow> 'p Statements \<Rightarrow> unit res \<times> 'p Statements" where
  "set_all_subjects f [] = (Inr (), [])"
| "set_all_subjects f (s # ss) =
     (case SetSubjects f s of
        (Inl e, s') \<Rightarrow> (Inl e, s' # ss)
      | (Inr _, s') \<Rightarrow> (case set_all_subjects f ss of (r, ss') \<Rightarrow> (r, s' # ss')))"

definition AssociateStatements ::
    "'s predicate Statements \<Rightarrow> ('c, 's) PathCheckerRegistry
      \<Rightarrow> unit res \<times> 's predicate Statements \<times> ('c, 's) PathCheckerRegistry" where
  "AssociateStatements ss r =
     (case set_all_subjects (associate_subject r) ss of
        (Inl e, ss') \<Rightarrow> (Inl e, ss', r)
      | (Inr _, ss') \<Rightarrow> (Inr (), ss', r\<lparr>statements := statements r @ ss'\<rparr>))"

text \<open>
  The checkers are asked in the order of the \<^verbatim>\<open>range\<close> over the registry (choice 0), after the
  checker of the base directory; afterwards the registry holds the checkers as they were left.
\<close>

definition MakePathCheckSummarySummaryCollection ::
    "'s PathCheckSummary \<Rightarrow> ('c, 's) PathChecker \<Rightarrow> choices \<Rightarrow> ('c, 's) PathCheckerRegistry
      \<Rightarrow> 's PathCheckSummaryCollection option res \<times> ('c, 's) PathCheckerRegistry" where
  "MakePathCheckSummarySummaryCollection S I c r =
     (let kvs = gm_range (c 0) (registry r);
          entries = pathChecker r # map (\<lambda>(k, ch). Some ch) kvs
      in case MakePathCheckSummaryCollection S (MakeSummary I) (\<lambda>n. c (Suc n)) entries of
           (res, entries') \<Rightarrow>
             (res, r\<lparr>pathChecker := hd entries',
                     registry := fold (\<lambda>(k, ch). gm_put k (the ch)) (zip (map fst kvs) (tl entries'))
                       (registry r)\<rparr>))"

definition associate_core ::
    "'s PathCheckSummary \<Rightarrow> order \<Rightarrow> 's PathCheckSummaryCollection option
      \<Rightarrow> ('c, 's) PathCheckerRegistry \<Rightarrow> ('c, 's) PathCheckerRegistry res" where
  "associate_core S ord entries r =
     rbind (MakeDirContentsStatement S ord (registry_dir r) entries) (\<lambda>statement.
       case find (\<lambda>s. gm_get (registry r) (Name s, SubjectDigest s) = None) (Subjects statement) of
         Some s \<Rightarrow> Inl (Fail (StatementNotRelevant (Name s) (Name s)))
       | None \<Rightarrow> Inr (r\<lparr>statements := statements r @ [statement]\<rparr>))"

text \<open>Choice 0 belongs to the sort of the new statement's subjects.\<close>

definition AssociateCoreStatements ::
    "'s PathCheckSummary \<Rightarrow> ('c, 's) PathChecker \<Rightarrow> choices \<Rightarrow> ('c, 's) PathCheckerRegistry
      \<Rightarrow> unit res \<times> ('c, 's) PathCheckerRegistry" where
  "AssociateCoreStatements S I c r =
     (case MakePathCheckSummarySummaryCollection S I (\<lambda>n. c (Suc n)) r of
        (Inl f, r') \<Rightarrow> (wrap ''unable to associate core statements'' (Inl f), r')
      | (Inr entries, r') \<Rightarrow>
          (case associate_core S (c 0) entries r' of
             Inl f \<Rightarrow> (Inl f, r')
           | Inr r'' \<Rightarrow> (Inr (), r'')))"

text \<open>
  The order of the statements.  \<open>cbor\<close> encodes a predicate; its failure makes \<open>GetStatements\<close>
  panic.
\<close>

definition compare_statements ::
    "'s PathCheckSummary \<Rightarrow> ('s predicate dynamic \<Rightarrow> string option)
      \<Rightarrow> 's predicate GenericStatement \<Rightarrow> 's predicate GenericStatement \<Rightarrow> int res" where
  "compare_statements S cbor a b =
     rbind (GenericStatement_Compare (\<lambda>_. None) (predicate_Compare S) a b) (\<lambda>c.
       case c of
         Some n \<Rightarrow> Inr n
       | None \<Rightarrow>
           (case (cbor (GetPredicate a), cbor (GetPredicate b)) of
              (Some x, Some y) \<Rightarrow> Inr (cmp_Compare x y)
            | _ \<Rightarrow> Inl (Panic EncodingFailed)))"

definition GetStatements ::
    "'s PathCheckSummary \<Rightarrow> ('s predicate dynamic \<Rightarrow> string option) \<Rightarrow> order
      \<Rightarrow> ('c, 's) PathCheckerRegistry
      \<Rightarrow> ('s predicate Statements \<times> ('c, 's) PathCheckerRegistry) res" where
  "GetStatements S cbor ord r =
     rmap (\<lambda>ss. (ss, r\<lparr>statements := ss\<rparr>))
       (SortFunc_res ord (compare_statements S cbor) (statements r))"

definition EncodeAllAttestations ::
    "'s PathCheckSummary \<Rightarrow> ('s predicate dynamic \<Rightarrow> string option) \<Rightarrow> order
      \<Rightarrow> ('s predicate toto_Statement \<Rightarrow> 'w \<Rightarrow> 'w res) \<Rightarrow> ('c, 's) PathCheckerRegistry \<Rightarrow> 'w
      \<Rightarrow> ('w \<times> ('c, 's) PathCheckerRegistry) res" where
  "EncodeAllAttestations S cbor ord encoder r w =
     rbind (GetStatements S cbor ord r) (\<lambda>(ss, r').
       rmap (\<lambda>w'. (w', r')) (wrap ''unable to encode attestations'' (Statements_EncodeWith encoder ss w)))"

text \<open>\<open>DetectVCS\<close>: there is one provider.  \<open>None\<close> is the answer \<^verbatim>\<open>false, nil, nil\<close>.\<close>

definition DetectVCS ::
    "'s PathCheckSummary \<Rightarrow> ('c, 's) PathChecker \<Rightarrow> (string \<Rightarrow> SHA256 \<Rightarrow> 'c) \<Rightarrow> string
      \<Rightarrow> ('c, 's) PathCheckerRegistry option res" where
  "DetectVCS S I provider p =
     (case DetectRepo I (provider p []) of (found, checker) \<Rightarrow>
        rbind (wrap ''unable to detect VCS'' found) (\<lambda>ok.
          if ok then rmap Some (registry_init S I checker (NewPathCheckerRegistry p provider))
          else Inr None))"

subsection \<open>Registering\<close>

definition register_all ::
    "(string \<times> SHA256) list \<Rightarrow> ('c, 's) PathCheckerRegistry \<Rightarrow> ('c, 's) PathCheckerRegistry res" where
  "register_all = rfold (\<lambda>(p, d). Register p d)"

text \<open>Two registries that differ in what is registered, mutated and stated only.\<close>

definition same_base :: "('c, 's) PathCheckerRegistry \<Rightarrow> ('c, 's) PathCheckerRegistry \<Rightarrow> bool" where
  "same_base r r' \<longleftrightarrow>
     newPathChecker r = newPathChecker r' \<and> fromWorkDir r = fromWorkDir r' \<and>
     fromRepoRoot r = fromRepoRoot r'"

lemma Register_Inr_iff:
  "Register p d r = Inr r' \<longleftrightarrow>
     gm_get (registry r) (pathFromRepoRoot r p, d) = None \<and>
     r' = r\<lparr>registry := registry r @
       [((pathFromRepoRoot r p, d), newPathChecker r (pathFromWorkDir r p) d)]\<rparr>"
  by (auto simp: Register_def Let_def gm_put_fresh split: option.splits)

lemma Register_Inl_iff:
  "Register p d r = Inl f \<longleftrightarrow>
     gm_get (registry r) (pathFromRepoRoot r p, d) \<noteq> None \<and>
     f = Fail (PathCheckerRegistered (pathFromRepoRoot r p) d)"
  by (auto simp: Register_def Let_def split: option.splits)

lemma register_all_Inr:
  "register_all pds r = Inr r' \<longleftrightarrow>
     distinct (map (\<lambda>(p, d). (pathFromRepoRoot r p, d)) pds) \<and>
     (\<forall>(p, d)\<in>set pds. gm_get (registry r) (pathFromRepoRoot r p, d) = None) \<and>
     r' = r\<lparr>registry := registry r @
       map (\<lambda>(p, d). ((pathFromRepoRoot r p, d), newPathChecker r (pathFromWorkDir r p) d)) pds\<rparr>"
proof (induction pds arbitrary: r)
  case Nil
  then show ?case by (auto simp: register_all_def)
next
  case (Cons pd pds)
  obtain p d where pd: "pd = (p, d)" by fastforce
  let ?k = "(pathFromRepoRoot r p, d)" and ?v = "newPathChecker r (pathFromWorkDir r p) d"
  let ?r1 = "r\<lparr>registry := registry r @ [(?k, ?v)]\<rparr>"
  have paths: "pathFromRepoRoot ?r1 = pathFromRepoRoot r" "pathFromWorkDir ?r1 = pathFromWorkDir r"
    by (simp_all add: pathFromRepoRoot_def [abs_def] pathFromWorkDir_def [abs_def])
  have get: "gm_get (registry r @ [(?k, ?v)]) j = None \<longleftrightarrow> gm_get (registry r) j = None \<and> j \<noteq> ?k" for j
    by (auto simp: gm_get_None_iff)
  have "register_all (pd # pds) r = Inr r' \<longleftrightarrow>
      gm_get (registry r) ?k = None \<and> register_all pds ?r1 = Inr r'"
    by (auto simp: register_all_def pd rbind_Inr_conv Register_Inr_iff)
  then show ?case
    unfolding Cons.IH by (auto simp: pd paths get image_iff case_prod_unfold)
qed

text \<open>
  Registering a list of manifests succeeds exactly when no two of them have the same path
  from the repository root and the same digest and none is registered yet; then each has its
  own new checker, for its path from the working directory, and nothing else has changed.
\<close>

theorem Register_all_spec:
  "rfold (\<lambda>(p, d). Register p d) pds r = Inr r' \<longleftrightarrow>
     distinct (map (\<lambda>(p, d). (pathFromRepoRoot r p, d)) pds) \<and>
     \<not> (\<exists>(p, d)\<in>set pds. gm_get (registry r) (pathFromRepoRoot r p, d) \<noteq> None) \<and>
     r' = r\<lparr>registry := registry r @
       map (\<lambda>(p, d). ((pathFromRepoRoot r p, d), newPathChecker r (pathFromWorkDir r p) d)) pds\<rparr>"
  using register_all_Inr [of pds r r'] by (auto simp: register_all_def)

subsection \<open>Associating statements\<close>

definition associated :: "('c, 's) PathCheckerRegistry \<Rightarrow> 'p GenericStatement \<Rightarrow> 'p GenericStatement" where
  "associated r s = s\<lparr>Subjects := map (\<lambda>x. x\<lparr>Name := pathFromRepoRoot r (Name x)\<rparr>) (Subjects s)\<rparr>"

definition all_relevant :: "('c, 's) PathCheckerRegistry \<Rightarrow> 'p GenericStatement \<Rightarrow> bool" where
  "all_relevant r s \<longleftrightarrow>
     (\<forall>x\<in>set (Subjects s). relevant r (pathFromRepoRoot r (Name x), SubjectDigest x))"

lemma fst_associate_subject:
  "fst (associate_subject r x) = Inr () \<longleftrightarrow> relevant r (pathFromRepoRoot r (Name x), SubjectDigest x)"
  by (simp add: associate_subject_def Let_def)

lemma SetSubjects_associate:
  "SetSubjects (associate_subject r) s = (Inr u, s') \<longleftrightarrow> all_relevant r s \<and> s' = associated r s"
proof (cases "all_relevant r s")
  case True
  then have "map (\<lambda>x. snd (associate_subject r x)) (Subjects s) =
      map (\<lambda>x. x\<lparr>Name := pathFromRepoRoot r (Name x)\<rparr>) (Subjects s)"
    by (intro map_cong refl) (simp add: all_relevant_def associate_subject_def Let_def)
  moreover have "set_subjects (associate_subject r) (Subjects s) =
      (Inr (), map (\<lambda>x. snd (associate_subject r x)) (Subjects s))"
    using True by (simp add: set_subjects_Inr all_relevant_def fst_associate_subject)
  ultimately have "SetSubjects (associate_subject r) s = (Inr (), associated r s)"
    by (simp add: SetSubjects_def associated_def)
  with True show ?thesis by auto
next
  case False
  have "fst (set_subjects (associate_subject r) (Subjects s)) \<noteq> Inr ()"
  proof
    assume "fst (set_subjects (associate_subject r) (Subjects s)) = Inr ()"
    then have "set_subjects (associate_subject r) (Subjects s) =
        (Inr (), snd (set_subjects (associate_subject r) (Subjects s)))" by (simp add: prod_eq_iff)
    with False show False by (simp add: set_subjects_Inr all_relevant_def fst_associate_subject)
  qed
  with False show ?thesis by (auto simp: SetSubjects_def split: prod.splits)
qed

lemma set_all_subjects_associate:
  "set_all_subjects (associate_subject r) ss = (Inr u, ss') \<longleftrightarrow>
     (\<forall>s\<in>set ss. all_relevant r s) \<and> ss' = map (associated r) ss"
proof (induction ss arbitrary: ss')
  case (Cons s ss)
  show ?case
  proof (cases "all_relevant r s")
    case True
    then have "SetSubjects (associate_subject r) s = (Inr (), associated r s)"
      by (simp add: SetSubjects_associate)
    with True Cons show ?thesis
      by (cases "set_all_subjects (associate_subject r) ss") auto
  next
    case False
    then obtain e s' where "SetSubjects (associate_subject r) s = (Inl e, s')"
      using SetSubjects_associate [of r s]
      by (cases "SetSubjects (associate_subject r) s"; cases "fst (SetSubjects (associate_subject r) s)") auto
    with False show ?thesis by simp
  qed
qed auto

text \<open>
  Statements are associated all or not at all: the call succeeds exactly when every subject
  of every statement is a registered manifest or a mutated one, by its path from the repository
  root and its digest; then the statements are appended in order, with their subjects renamed to
  those paths.  Otherwise the registry does not change.
\<close>

theorem AssociateStatements_spec:
  "AssociateStatements ss r =
     (if list_all (all_relevant r) ss
      then (Inr (), map (associated r) ss, r\<lparr>statements := statements r @ map (associated r) ss\<rparr>)
      else (fst (AssociateStatements ss r), fst (snd (AssociateStatements ss r)), r)) \<and>
   (fst (AssociateStatements ss r) = Inr () \<longleftrightarrow> list_all (all_relevant r) ss)"
proof (cases "list_all (all_relevant r) ss")
  case True
  then have "set_all_subjects (associate_subject r) ss = (Inr (), map (associated r) ss)"
    by (simp add: set_all_subjects_associate list_all_iff)
  with True show ?thesis by (simp add: AssociateStatements_def)
next
  case False
  then obtain e ss' where "set_all_subjects (associate_subject r) ss = (Inl e, ss')"
    using set_all_subjects_associate [of r ss] list_all_iff [of "all_relevant r" ss]
    by (cases "set_all_subjects (associate_subject r) ss"; cases "fst (set_all_subjects (associate_subject r) ss)") auto
  with False show ?thesis by (simp add: AssociateStatements_def)
qed

subsection \<open>The order of the statements\<close>

definition same_header_fault :: "('s predicate dynamic \<Rightarrow> string option)
    \<Rightarrow> 's predicate GenericStatement \<Rightarrow> 's predicate GenericStatement \<Rightarrow> bool" where
  "same_header_fault cbor a b \<longleftrightarrow> header a = header b \<and>
     (Subjects a = [] \<or> cbor (GetPredicate a) = None \<or> cbor (GetPredicate b) = None)"

definition statement_bytes :: "('s predicate dynamic \<Rightarrow> string option) \<Rightarrow> 's predicate GenericStatement \<Rightarrow> string" where
  "statement_bytes cbor s = (case cbor (GetPredicate s) of Some x \<Rightarrow> x | None \<Rightarrow> [])"

text \<open>Statements by type, number of subjects, name of the first subject, encoded predicate.\<close>

definition statement_order :: "('s predicate dynamic \<Rightarrow> string option)
    \<Rightarrow> 's predicate GenericStatement \<Rightarrow> 's predicate GenericStatement \<Rightarrow> int" where
  "statement_order cbor =
     cmp_then compare_headers (\<lambda>a b. cmp_Compare (statement_bytes cbor a) (statement_bytes cbor b))"

lemma comparator_statement_order: "comparator (statement_order cbor)"
  unfolding statement_order_def by (intro comparator_then comparator_headers comparator_key)

lemma compare_statements_cases:
  "isl (compare_statements S cbor a b) \<longleftrightarrow> same_header_fault cbor a b"
  "\<not> same_header_fault cbor a b \<Longrightarrow> compare_statements S cbor a b = Inr (statement_order cbor a b)"
proof -
  have "header a = header b \<longleftrightarrow> compare_headers a b = 0" by (simp add: compare_headers_eq_0)
  then show "isl (compare_statements S cbor a b) \<longleftrightarrow> same_header_fault cbor a b"
    "\<not> same_header_fault cbor a b \<Longrightarrow> compare_statements S cbor a b = Inr (statement_order cbor a b)"
    by (auto simp: compare_statements_def GenericStatement_Compare_cases same_header_fault_def
        statement_order_def cmp_then_def statement_bytes_def split: option.splits)
qed

definition comparable :: "('s predicate dynamic \<Rightarrow> string option) \<Rightarrow> 's predicate Statements \<Rightarrow> bool" where
  "comparable cbor ss \<longleftrightarrow> sorted_wrt (\<lambda>a b. \<not> same_header_fault cbor a b) ss"

lemma GetStatements_comparable:
  assumes "comparable cbor (statements r)"
  shows "\<exists>ss. GetStatements S cbor ord r = Inr (ss, r\<lparr>statements := ss\<rparr>) \<and>
    mset ss = mset (statements r) \<and> sorted_wrt (\<lambda>a b. statement_order cbor a b \<le> 0) ss"
proof -
  let ?cmp = "\<lambda>a b. case compare_statements S cbor a b of Inr n \<Rightarrow> n | Inl _ \<Rightarrow> 0"
  let ?n = "length (statements r)"
  have ok: "first_fault (compare_statements S cbor) (statements r) = None"
    using assms by (simp add: first_fault_None compare_statements_cases(1) comparable_def)
  have order: "?cmp a b = statement_order cbor a b" if "a \<in> set (statements r)" "b \<in> set (statements r)" for a b
  proof -
    from that obtain i j where ij: "i < ?n" "j < ?n" "a = statements r ! i" "b = statements r ! j"
      by (metis in_set_conv_nth)
    consider "i < j" | "j < i" | "i = j" by linarith
    then show ?thesis
    proof cases
      case 1
      then have "\<not> same_header_fault cbor a b"
        using assms ij sorted_wrt_nth_less unfolding comparable_def by metis
      then show ?thesis by (simp add: compare_statements_cases(2))
    next
      case 2
      then have "\<not> same_header_fault cbor b a"
        using assms ij sorted_wrt_nth_less unfolding comparable_def by metis
      moreover have "header a = header b \<Longrightarrow> Subjects a = [] \<longleftrightarrow> Subjects b = []"
        by (cases "Subjects a"; cases "Subjects b") (auto simp: header_def)
      ultimately have "\<not> same_header_fault cbor a b" by (auto simp: same_header_fault_def)
      then show ?thesis by (simp add: compare_statements_cases(2))
    next
      case 3
      then have "statement_order cbor a b = 0"
        using ij comparator.cmp_refl [OF comparator_statement_order] by simp
      moreover have "?cmp a b = 0"
        using compare_statements_cases [where S = S and cbor = cbor and a = a and b = a] comparator.cmp_refl [OF comparator_statement_order] ij 3
        by (cases "same_header_fault cbor a a") (auto simp: isl_def)
      ultimately show ?thesis by simp
    qed
  qed
  have "GetStatements S cbor ord r =
      Inr (SortFunc ord (statement_order cbor) (statements r),
        r\<lparr>statements := SortFunc ord (statement_order cbor) (statements r)\<rparr>)"
    using SortFunc_cong [of "statements r" ?cmp "statement_order cbor" ord] order
    by (simp add: GetStatements_def SortFunc_res_def ok)
  then show ?thesis
    using comparator.sorted_SortFunc [OF comparator_statement_order] by simp
qed

lemma GetStatements_incomparable:
  assumes "\<not> comparable cbor (statements r)"
  shows "\<exists>f. GetStatements S cbor ord r = Inl f"
proof -
  have "first_fault (compare_statements S cbor) (statements r) \<noteq> None"
    using assms by (simp add: first_fault_None compare_statements_cases(1) comparable_def)
  then show ?thesis by (auto simp: GetStatements_def SortFunc_res_def)
qed

text \<open>
  \<open>GetStatements\<close> returns all statements, sorted by type, number of subjects, first
  subject and encoded predicate, and leaves them in that order in the registry; it panics exactly
  when two of them share type, number of subjects and first subject and have no subject or
  cannot be encoded.
\<close>

theorem GetStatements_sorts:
  "(if sorted_wrt (\<lambda>a b. \<not> same_header_fault cbor a b) (statements r)
    then \<exists>ss. GetStatements S cbor ord r = Inr (ss, r\<lparr>statements := ss\<rparr>) \<and>
      mset ss = mset (statements r) \<and> sorted_wrt (\<lambda>a b. statement_order cbor a b \<le> 0) ss
    else \<exists>f. GetStatements S cbor ord r = Inl f)"
  using GetStatements_comparable [of cbor r S ord] GetStatements_incomparable [of cbor r S ord]
  by (simp add: comparable_def)

text \<open>
  C24: the order does not depend on the order in which the statements were associated, nor on how
  the sort resolves ties, when statements that agree in all that is compared are equal.
\<close>

theorem GetStatements_deterministic:
  assumes "GetStatements S cbor ord r = Inr (ss, r1)" and "GetStatements S cbor ord' q = Inr (tt, r2)"
    and "mset (statements r) = mset (statements q)"
    and "\<And>a b. a \<in> set (statements r) \<Longrightarrow> b \<in> set (statements r) \<Longrightarrow>
      header a = header b \<Longrightarrow> statement_bytes cbor a = statement_bytes cbor b \<Longrightarrow> a = b"
  shows "ss = tt"
proof (rule comparator.sorted_unique_on [OF comparator_statement_order])
  have r: "comparable cbor (statements r)" and q: "comparable cbor (statements q)"
    using assms(1,2) GetStatements_incomparable by (metis Inl_Inr_False)+
  from GetStatements_comparable [OF r, of S ord] assms(1)
  have ss: "mset ss = mset (statements r)" "sorted_wrt (\<lambda>a b. statement_order cbor a b \<le> 0) ss" by auto
  from GetStatements_comparable [OF q, of S ord'] assms(2)
  have tt: "mset tt = mset (statements q)" "sorted_wrt (\<lambda>a b. statement_order cbor a b \<le> 0) tt" by auto
  show "mset ss = mset tt" using ss(1) tt(1) assms(3) by simp
  show "sorted_wrt (\<lambda>a b. statement_order cbor a b \<le> 0) ss" by (rule ss(2))
  show "sorted_wrt (\<lambda>a b. statement_order cbor a b \<le> 0) tt" by (rule tt(2))
  fix a b
  assume "a \<in> set ss" "b \<in> set ss" "statement_order cbor a b = 0"
  moreover have "set ss = set (statements r)" using ss(1) by (rule mset_eq_setD)
  ultimately show "a = b"
    using assms(4) by (auto simp: statement_order_def cmp_then_def compare_headers_eq_0 split: if_splits)
qed

definition sample_methods :: "nat PathCheckSummary" where
  "sample_methods = \<lparr>SummaryProviderName = (\<lambda>_. ''git''),
     Common = (\<lambda>_. \<lparr>Unmodified = True, SummaryPath = [], SummaryURI = [], IsDir = False, SummaryDigest = []\<rparr>),
     SameRepo = (\<lambda>_ _. True)\<rparr>"

definition sample_ref :: "string \<Rightarrow> nat predicate GenericStatement" where
  "sample_ref m = MakeStatement in_order OriginalImageRefPredicateType
     (FoundImageReference \<lparr>Reference = ''a.io/web'', RefLine = 7, RefColumn = 5, RefAlias = None\<rparr>)
     [\<lparr>Name = m, SubjectDigest = ''d1''\<rparr>]"

definition sample_registry :: "nat predicate Statements \<Rightarrow> (nat, nat) PathCheckerRegistry" where
  "sample_registry ss = (NewPathCheckerRegistry ''k8s'' (\<lambda>_ _. 0))\<lparr>statements := ss\<rparr>"

lemma sample_header: "header (sample_ref m) = (OriginalImageRefPredicateType, 1, m)"
  by (simp add: header_def sample_ref_def)

theorem GetStatements_deterministic_witness:
  "\<exists>ss r1 r2. GetStatements sample_methods (\<lambda>_. Some []) in_order
      (sample_registry [sample_ref ''b.yaml'', sample_ref ''a.yaml'']) = Inr (ss, r1) \<and>
    GetStatements sample_methods (\<lambda>_. Some []) reversed_order
      (sample_registry [sample_ref ''a.yaml'', sample_ref ''b.yaml'']) = Inr (ss, r2)"
proof -
  let ?r = "sample_registry [sample_ref ''b.yaml'', sample_ref ''a.yaml'']"
  let ?q = "sample_registry [sample_ref ''a.yaml'', sample_ref ''b.yaml'']"
  have "comparable (\<lambda>_. Some []) (statements ?r)" "comparable (\<lambda>_. Some []) (statements ?q)"
    by (simp_all add: comparable_def sample_registry_def same_header_fault_def sample_header)
  from this [THEN GetStatements_comparable, of sample_methods] obtain ss tt r1 r2 where
      *: "GetStatements sample_methods (\<lambda>_. Some []) in_order ?r = Inr (ss, r1)"
        "GetStatements sample_methods (\<lambda>_. Some []) reversed_order ?q = Inr (tt, r2)"
    by metis
  have "ss = tt"
    by (rule GetStatements_deterministic [OF *])
      (auto simp: sample_registry_def sample_header)
  with * show ?thesis by blast
qed

subsection \<open>The core statement\<close>

lemma mset_concat_list_all2:
  "list_all2 (\<lambda>e g. mset e = mset g) es gs \<Longrightarrow> mset (concat es) = mset (concat gs)"
  by (induction rule: list_all2_induct) auto

lemma mset_EntryGroups:
  assumes "grouped same xs gs" and "collection_of S xs gs col"
  shows "mset (concat (EntryGroups col)) = mset xs"
proof -
  obtain gs' where gs': "mset gs' = mset gs"
      "list_all2 (\<lambda>e g. hd e = hd g \<and> mset e = mset g \<and>
        sorted_wrt (\<lambda>a b. SummaryPath (Common S a) \<le> SummaryPath (Common S b)) (tl e)) (EntryGroups col) gs'"
    using assms(2) unfolding collection_of_def by blast
  from gs'(2) have "mset (concat (EntryGroups col)) = mset (concat gs')"
    by (intro mset_concat_list_all2) (auto elim: list_all2_mono)
  also have "mset (concat gs') = mset (concat gs)"
    using arg_cong [OF gs'(1), of "image_mset mset"] by (simp add: mset_concat flip: sum_mset_sum_list mset_map)
  finally show ?thesis using assms(1) by (simp add: grouped_def)
qed

lemma keys_fold_gm_put:
  assumes "set (map fst kvs) \<subseteq> set (map fst m)"
  shows "map fst (fold (\<lambda>(k, v). gm_put k (f v)) kvs m) = map fst m"
  using assms
proof (induction kvs arbitrary: m)
  case (Cons kv kvs)
  obtain k v where kv: "kv = (k, v)" by fastforce
  have put: "map fst (gm_put k (f v) m) = map fst m"
    using Cons.prems by (simp add: kv gm_put_def update_keys)
  have "set (map fst kvs) \<subseteq> set (map fst (gm_put k (f v) m))"
    unfolding put using Cons.prems by simp
  from Cons.IH [OF this] show ?case by (simp add: kv put)
qed simp

text \<open>The contract of the interface the registry is given: its \<open>MakeSummary\<close> is one that keeps it.\<close>

locale registry_client = path_checker S made mk new_checker belongs at_path
  for S :: "'s PathCheckSummary" and made :: "'s \<Rightarrow> bool" and mk :: "'c \<Rightarrow> 's res \<times> 'c"
    and new_checker :: "string \<Rightarrow> SHA256 \<Rightarrow> 'c" and belongs :: "string \<Rightarrow> SHA256 \<Rightarrow> 'c \<Rightarrow> bool"
    and at_path :: "string \<Rightarrow> string res" +
  fixes I :: "('c, 's) PathChecker"
  assumes mk: "MakeSummary I = mk"
begin

text \<open>A registry whose entries are the manifests \<open>pds\<close>.\<close>

definition registered :: "('c, 's) PathCheckerRegistry \<Rightarrow> (string \<times> SHA256) list \<Rightarrow> bool" where
  "registered r pds \<longleftrightarrow>
     distinct (map fst (registry r)) \<and>
     list_all2 (\<lambda>(p, d) (k, c). k = (pathFromRepoRoot r p, d) \<and> belongs (pathFromWorkDir r p) d c)
       pds (registry r) \<and>
     (\<exists>b. pathChecker r = Some b \<and> belongs (fromWorkDir r) [] b)"

lemma registered_keys:
  assumes "registered r pds"
  shows "map fst (registry r) = map (\<lambda>(p, d). (pathFromRepoRoot r p, d)) pds"
proof -
  have "list_all2 (\<lambda>(p, d) (k, c). k = (pathFromRepoRoot r p, d) \<and> belongs (pathFromWorkDir r p) d c) qs m
      \<Longrightarrow> map fst m = map (\<lambda>(p, d). (pathFromRepoRoot r p, d)) qs" for qs m
    by (induction qs m rule: list_all2_induct) auto
  with assms show ?thesis unfolding registered_def by blast
qed

lemma registered_shuffle:
  assumes "registered r pds"
  shows "\<exists>pds'. mset pds' = mset pds \<and>
    list_all2 (\<lambda>(p, d) (k, c). k = (pathFromRepoRoot r p, d) \<and> belongs (pathFromWorkDir r p) d c)
      pds' (shuffle ord (registry r))"
proof -
  let ?P = "\<lambda>(p, d) (k, c). k = (pathFromRepoRoot r p, d) \<and> belongs (pathFromWorkDir r p) d c"
  let ?z = "shuffle ord (zip pds (registry r))"
  have all: "list_all2 ?P pds (registry r)" using assms by (simp add: registered_def)
  then have len: "length pds = length (registry r)" by (rule list_all2_lengthD)
  have "map snd ?z = shuffle ord (registry r)" "mset (map fst ?z) = mset pds"
    using len by (simp_all add: map_shuffle)
  moreover have "list_all2 ?P (map fst ?z) (map snd ?z)"
    using all len by (auto simp: list_all2_iff zip_map_fst_snd)
  ultimately show ?thesis by (intro exI [of _ "map fst ?z"]) simp
qed

theorem core_statement:
  assumes reg: "registered r pds"
    and base: "fst (mk (new_checker (fromWorkDir r) [])) = Inr s0"
    and files: "\<And>p d. (p, d) \<in> set pds \<Longrightarrow> (\<exists>s. fst (mk (new_checker (pathFromWorkDir r p) d)) = Inr s) \<and>
      at_path (pathFromWorkDir r p) = Inr (pathFromRepoRoot r p)"
  shows "\<exists>st r'. AssociateCoreStatements S I c r = (Inr (), r') \<and>
    statements r' = statements r @ [st] \<and> map fst (registry r') = map fst (registry r) \<and>
    GetType st = ManifestDirPredicateType \<and>
    mset (Subjects st) = {# MakeSubject (pathFromRepoRoot r p) d. (p, d) \<in># filter_mset (\<lambda>(p, d). d \<noteq> []) (mset pds) #} \<and>
    sorted (map Name (Subjects st))"
proof -
  obtain pds' where pds': "mset pds' = mset pds"
      "list_all2 (\<lambda>(p, d) (k, c). k = (pathFromRepoRoot r p, d) \<and> belongs (pathFromWorkDir r p) d c)
        pds' (shuffle (c 1) (registry r))"
    using registered_shuffle [OF reg] by blast
  obtain b where b: "pathChecker r = Some b" "belongs (fromWorkDir r) [] b"
    using reg by (auto simp: registered_def)
  let ?asked = "(fromWorkDir r, []) # map (\<lambda>(p, d). (pathFromWorkDir r p, d)) pds'"
  let ?entries = "Some b # map (\<lambda>(k, ch). Some ch) (shuffle (c 1) (registry r))"
  have "list_all2 (\<lambda>(p, d) c. \<exists>k. c = Some k \<and> belongs p d k)
      (map (\<lambda>(p, d). (pathFromWorkDir r p, d)) pds') (map (\<lambda>(k, ch). Some ch) (shuffle (c 1) (registry r)))"
    unfolding list_all2_map1 list_all2_map2
    by (rule list_all2_mono [OF pds'(2)]) auto
  then have "list_all2 (\<lambda>(p, d) c. \<exists>k. c = Some k \<and> belongs p d k) ?asked ?entries"
    using b(2) by simp
  note asked = make_summaries_spec [OF this, of 0]
  define smr where "smr = (\<lambda>(p, d). projr (fst (mk (new_checker p d))))"
  have each: "fst (mk (new_checker p d)) = Inr (smr (p, d))" if "(p, d) \<in> set ?asked" for p d
  proof -
    have "set pds' = set pds" using pds'(1) by (rule mset_eq_setD)
    with that consider "p = fromWorkDir r" "d = []"
      | q where "(q, d) \<in> set pds" "p = pathFromWorkDir r q" by auto
    then show ?thesis
    proof cases
      case 2
      with files [OF 2(1)] show ?thesis by (auto simp: smr_def)
    qed (simp add: smr_def base)
  qed
  have sums: "fst (make_summaries mk 0 ?entries) = Inr (map smr ?asked)"
    unfolding asked(1)
  proof (rule rmap_list_total)
    fix x
    assume "x \<in> set ?asked"
    then show "(\<lambda>(p, d). fst (mk (new_checker p d))) x = Inr (smr x)"
      using each [of "fst x" "snd x"] by (simp only: prod.collapse case_prod_beta)
  qed
  have made: "\<forall>s\<in>set (map smr ?asked). made s"
  proof
    fix s
    assume "s \<in> set (map smr ?asked)"
    then obtain x where "x \<in> set ?asked" "s = smr x"
      unfolding set_map [of smr] by blast
    then show "made s" using mk_summary [OF each [of "fst x" "snd x"]] by (simp only: prod.collapse)
  qed
  from group_collection_spec [OF made, of "\<lambda>n. c (Suc (Suc n))"] obtain gs col where
      col: "group_collection S (\<lambda>n. c (Suc (Suc n))) (map smr ?asked) = Inr col"
        "grouped (SameRepo S) (map smr ?asked) gs" "collection_of S (map smr ?asked) gs col" by blast
  obtain es where es: "make_summaries mk 0 ?entries = (Inr (map smr ?asked), es)"
    using sums by (cases "make_summaries mk 0 ?entries") auto
  let ?r' = "r\<lparr>pathChecker := hd es, registry := fold (\<lambda>(k, ch). gm_put k (the ch))
      (zip (map fst (shuffle (c 1) (registry r))) (tl es)) (registry r)\<rparr>"
  have collection: "MakePathCheckSummarySummaryCollection S I (\<lambda>n. c (Suc n)) r = (Inr (Some col), ?r')"
    using es col(1) b(1)
    by (simp add: MakePathCheckSummarySummaryCollection_def MakePathCheckSummaryCollection_def mk
        gm_range_def Let_def)
  have keys: "map fst (registry ?r') = map fst (registry r)"
    using set_zip_leftD by (fastforce intro: keys_fold_gm_put)
  let ?st = "MakeStatement (c 0) ManifestDirPredicateType
      (ContainedInDirectory \<lparr>DirPath = registry_dir ?r', VCSEntries = Some col\<rparr>) (collection_Subject S col)"
  have subj: "mset (collection_Subject S col) =
      {# MakeSubject (pathFromRepoRoot r p) d. (p, d) \<in># filter_mset (\<lambda>(p, d). d \<noteq> []) (mset pds) #}"
  proof -
    have digest: "SummaryDigest (Common S (smr (p, d))) = d" "at_path p = Inr (SummaryPath (Common S (smr (p, d))))"
      if "(p, d) \<in> set ?asked" for p d
      using mk_summary [OF each [OF that]] by simp_all
    have "mset (collection_Subject S col) =
        image_mset (\<lambda>e. MakeSubject (SummaryPath (Common S e)) (SummaryDigest (Common S e)))
          {# e \<in># mset (map smr ?asked). SummaryDigest (Common S e) \<noteq> [] #}"
      by (simp only: mset_collection_Subject mset_EntryGroups [OF col(2,3)])
    also have "\<dots> = image_mset (\<lambda>(p, d). MakeSubject (pathFromRepoRoot r p) d)
        {# (p, d) \<in># mset pds'. d \<noteq> [] #}"
    proof -
      have "image_mset (\<lambda>e. MakeSubject (SummaryPath (Common S e)) (SummaryDigest (Common S e)))
          {# e \<in># mset (map (\<lambda>(p, d). smr (pathFromWorkDir r p, d)) qs). SummaryDigest (Common S e) \<noteq> [] #} =
        image_mset (\<lambda>(p, d). MakeSubject (pathFromRepoRoot r p) d) {# (p, d) \<in># mset qs. d \<noteq> [] #}"
        if "set qs \<subseteq> set pds'" for qs
        using that
      proof (induction qs)
        case (Cons q qs)
        obtain p d where q: "q = (p, d)" by fastforce
        have mem: "(pathFromWorkDir r p, d) \<in> set ?asked" using Cons.prems by (force simp: q)
        have "(p, d) \<in> set pds" using Cons.prems pds'(1) by (metis list.set_intros(1) mset_eq_setD q subsetD)
        with digest [OF mem] files have "SummaryPath (Common S (smr (pathFromWorkDir r p, d))) = pathFromRepoRoot r p"
          by fastforce
        with Cons digest(1) [OF mem] show ?case by (simp add: q)
      qed simp
      from this [of pds'] show ?thesis
        using digest(1) [of "fromWorkDir r" "[]"] by (simp add: comp_def case_prod_unfold)
    qed
    finally show ?thesis by (simp add: pds'(1))
  qed
  have "gm_get (registry ?r') (Name s, SubjectDigest s) \<noteq> None" if "s \<in> set (Subjects ?st)" for s
  proof -
    from that have "s \<in># mset (collection_Subject S col)" by simp
    then obtain p d where pd: "(p, d) \<in> set pds" "s = MakeSubject (pathFromRepoRoot r p) d"
      unfolding subj by auto
    then have "(pathFromRepoRoot r p, d) \<in> set (map fst (registry r))"
      unfolding registered_keys [OF reg] by force
    then have "(pathFromRepoRoot r p, d) \<in> set (map fst (registry ?r'))" unfolding keys .
    then show ?thesis using pd(2) by (simp add: gm_get_None_iff MakeSubject_def)
  qed
  then have "find (\<lambda>s. gm_get (registry ?r') (Name s, SubjectDigest s) = None) (Subjects ?st) = None"
    unfolding find_None_iff by blast
  then have "associate_core S (c 0) (Some col) ?r' = Inr (?r'\<lparr>statements := statements ?r' @ [?st]\<rparr>)"
    by (simp only: associate_core_def MakeDirContentsStatement_def option.case rbind.simps)
  then have run: "AssociateCoreStatements S I c r = (Inr (), ?r'\<lparr>statements := statements ?r' @ [?st]\<rparr>)"
    by (simp add: AssociateCoreStatements_def collection)
  have "sorted (map Name (Subjects ?st))"
    using comparator.sorted_SortFunc [OF comparator_key [of Name], of "c 0" "collection_Subject S col"]
    by (simp add: sorted_wrt_map)
  with run subj keys show ?thesis
    by (intro exI [of _ ?st] exI [of _ "?r'\<lparr>statements := statements ?r' @ [?st]\<rparr>"]) simp
qed

end

subsection \<open>Statements are about known manifests\<close>

text \<open>
  The operations of a run on one registry.  \<open>RegisterMutated\<close> is called once, before any statement
  about mutated manifests is associated.
\<close>

inductive registry_step ::
    "'s PathCheckSummary \<Rightarrow> ('c, 's) PathChecker \<Rightarrow> ('c, 's) PathCheckerRegistry
      \<Rightarrow> ('c, 's) PathCheckerRegistry \<Rightarrow> bool" for S I where
  step_Register: "Register p d r = Inr r' \<Longrightarrow> registry_step S I r r'"
| step_RegisterMutated: "mutatedPaths r = None \<Longrightarrow> registry_step S I r (RegisterMutated ord m r)"
| step_Associate: "AssociateStatements ss r = (res, ss', r') \<Longrightarrow> registry_step S I r r'"
| step_AssociateCore: "AssociateCoreStatements S I c r = (res, r') \<Longrightarrow> registry_step S I r r'"
| step_GetStatements: "GetStatements S cbor ord r = Inr (ss, r') \<Longrightarrow> registry_step S I r r'"

definition statements_known :: "('c, 's) PathCheckerRegistry \<Rightarrow> bool" where
  "statements_known r \<longleftrightarrow>
     (\<forall>st\<in>set (statements r). \<forall>x\<in>set (Subjects st). relevant r (Name x, SubjectDigest x))"

lemma statements_known_mono:
  assumes "statements_known r" and "\<And>k. relevant r k \<Longrightarrow> relevant r' k"
    and "set (statements r') \<subseteq> set (statements r) \<union> new"
    and "\<And>st x. st \<in> new \<Longrightarrow> x \<in> set (Subjects st) \<Longrightarrow> relevant r' (Name x, SubjectDigest x)"
  shows "statements_known r'"
  using assms unfolding statements_known_def by blast

lemma relevant_cong:
  "map fst (registry r') = map fst (registry r) \<Longrightarrow> mutatedPaths r' = mutatedPaths r \<Longrightarrow>
     relevant r' = relevant r"
proof (rule ext)
  fix k
  assume "map fst (registry r') = map fst (registry r)" "mutatedPaths r' = mutatedPaths r"
  moreover from this(1) have "fst ` set (registry r') = fst ` set (registry r)"
    by (metis list.set_map)
  ultimately show "relevant r' k = relevant r k" by (simp add: relevant_def gm_get_None_iff)
qed

lemma collection_registry:
  assumes "MakePathCheckSummarySummaryCollection S I c r = (res, r')"
  shows "map fst (registry r') = map fst (registry r)" "mutatedPaths r' = mutatedPaths r"
    "statements r' = statements r"
proof -
  have "map fst (fold (\<lambda>(k, ch). gm_put k (the ch)) (zip (map fst (gm_range (c 0) (registry r))) xs) (registry r))
      = map fst (registry r)" for xs :: "'b option list"
    by (rule keys_fold_gm_put) (auto dest!: set_zip_leftD)
  with assms show "map fst (registry r') = map fst (registry r)" "mutatedPaths r' = mutatedPaths r"
    "statements r' = statements r"
    by (auto simp: MakePathCheckSummarySummaryCollection_def Let_def split: prod.splits)
qed

lemma statements_known_step:
  assumes "registry_step S I r r'" and "statements_known r"
  shows "statements_known r'"
  using assms
proof (induction rule: registry_step.induct)
  case (step_Register p d r r')
  note known = step_Register.prems
  from step_Register show ?case
    by (intro statements_known_mono [OF known, of r' "{}"])
      (auto simp: Register_Inr_iff relevant_def gm_get_None_iff)
next
  case (step_RegisterMutated r ord m)
  note known = step_RegisterMutated.prems
  from step_RegisterMutated show ?case
    by (intro statements_known_mono [OF known, of "RegisterMutated ord m r" "{}"]) (auto simp: RegisterMutated_def relevant_def)
next
  case (step_Associate ss r res ss' r')
  note 3 = step_Associate.hyps and known = step_Associate.prems
  show ?case
  proof (cases res)
    case (Inl f)
    with 3 have "r' = r" by (auto simp: AssociateStatements_def split: prod.splits sum.splits)
    with known show ?thesis by simp
  next
    case (Inr u)
    with 3 have all: "\<forall>s\<in>set ss. all_relevant r s"
        and r': "r' = r\<lparr>statements := statements r @ map (associated r) ss\<rparr>"
      by (auto simp: AssociateStatements_def set_all_subjects_associate split: prod.splits sum.splits)
    have "relevant r' = relevant r" unfolding r' by (rule relevant_cong) simp_all
    then show ?thesis
      using all by (intro statements_known_mono [OF known, of r' "set (map (associated r) ss)"])
        (auto simp: r' all_relevant_def associated_def)
  qed
next
  case (step_AssociateCore c r res r')
  note 4 = step_AssociateCore.hyps and known = step_AssociateCore.prems
  obtain q r1 where q: "MakePathCheckSummarySummaryCollection S I (\<lambda>n. c (Suc n)) r = (q, r1)" by fastforce
  note same = collection_registry [OF q]
  have known1: "statements_known r1"
    using known relevant_cong [OF same(1,2)] same(3) by (simp add: statements_known_def)
  show ?case
  proof (cases "\<exists>entries. q = Inr entries \<and> (\<exists>r2. associate_core S (c 0) entries r1 = Inr r2)")
    case True
    then obtain entries r2 where "q = Inr entries" "associate_core S (c 0) entries r1 = Inr r2" by blast
    then obtain st where st: "r2 = r1\<lparr>statements := statements r1 @ [st]\<rparr>"
        "find (\<lambda>s. gm_get (registry r1) (Name s, SubjectDigest s) = None) (Subjects st) = None"
        and r2: "r' = r2"
      using 4 q by (auto simp: AssociateCoreStatements_def associate_core_def rbind_Inr_conv split: option.splits)
    have "relevant r2 = relevant r1" unfolding st by (rule relevant_cong) simp_all
    moreover have "relevant r1 (Name x, SubjectDigest x)" if "x \<in> set (Subjects st)" for x
      using st(2) that by (auto simp: find_None_iff relevant_def)
    ultimately show ?thesis
      unfolding r2 by (intro statements_known_mono [OF known1, of r2 "{st}"]) (auto simp: st(1))
  next
    case False
    then have "r' = r1"
      using 4 q by (cases q) (auto simp: AssociateCoreStatements_def split: sum.splits)
    with known1 show ?thesis by simp
  qed
next
  case (step_GetStatements cbor ord r ss r')
  note known = step_GetStatements.prems
  from step_GetStatements have r': "r' = r\<lparr>statements := ss\<rparr>" "set ss = set (statements r)"
    using GetStatements_comparable [of cbor r S ord] GetStatements_incomparable [of cbor r S ord]
    by (cases "comparable cbor (statements r)"; auto dest: mset_eq_setD)+
  have "relevant r' = relevant r" unfolding r'(1) by (rule relevant_cong) simp_all
  with known r' show ?case by (simp add: statements_known_def)
qed



end
