(* ===== verification/Git_Vcs.thy ===== *)
theory Git_Vcs
  imports Attest_Types Go_Filepath
begin

section \<open>The git path checker\<close>

text \<open>
  \<open>attest/vcs/git/git.go\<close>: whether a path is tracked by git and unmodified, and the summary of
  the repository it is in.  What go-git and the operating system answer is a parameter, the
  record \<open>git_env\<close>; the checker's cache, the walk up to the repository, the comparison of hashes
  and the summary are the program's own.
\<close>

subsection \<open>What go-git and the file system answer\<close>

datatype filemode = Regular | Deprecated | Executable | DirMode | OtherMode string

datatype tree_error =
    ErrDirectoryNotFound | ErrFileNotFound | ErrObjectNotFound | ErrEntryNotFound
  | OtherTreeError fault

text \<open>
  An object with its hash; a tree with what iterating over its files gives: names relative to
  the tree and blob hashes, or an error of the iterator.
\<close>

datatype git_object =
    Blob string
  | Tree string "(string \<times> string) res list"
  | OtherObject string string

fun obj_ID :: "git_object \<Rightarrow> string" where
  "obj_ID (Blob h) = h"
| "obj_ID (Tree h _) = h"
| "obj_ID (OtherObject _ h) = h"

text \<open>The status of a file: whether its staging and its worktree state are \<open>Unmodified\<close>.\<close>

type_synonym file_status = "bool \<times> bool"

record worktree =
  WorktreeRoot :: string
  ReadFile :: "string \<Rightarrow> string res"
  WorktreeStatus :: "(string, file_status) gomap res"

record GitReference =
  RefName :: string
  RefHash :: string
  RefType :: string
  RefTarget :: string

record remote =
  RemoteName :: string
  URLs :: "string list"

record repository =
  Worktree :: "worktree res"
  RepoHead :: "GitReference res"
  CommitTree :: "string \<Rightarrow> (string \<Rightarrow> tree_error + filemode \<times> string) res"
  BlobObject :: "string \<Rightarrow> git_object res"
  TreeObject :: "string \<Rightarrow> git_object res"
  RepoRemotes :: "remote list res"

record git_env =
  Getwd :: "string res"
  PlainOpen :: "string \<Rightarrow> repository option"
  ComputeHash :: "string \<Rightarrow> string"
  NewEndpoint :: "string \<Rightarrow> string res"

subsection \<open>State\<close>

record pathCheckerCache =
  checked :: bool
  unmodified :: bool
  absPath :: string
  repo :: "repository option"
  obj :: "git_object option"
  blobHash :: string
  repoPath :: string

record GitPathChecker =
  checker_path :: string
  checker_digest :: SHA256
  cache :: "pathCheckerCache option"

record GitSummary =
  ObjectHash :: "string option"
  GitRemotes :: "(string, string list) gomap"
  GitRef :: GitReference

record Summary =
  SummaryCommon :: PathCheckSummaryCommon
  SummaryGit :: "GitSummary option"

definition GitProviderName :: string where
  "GitProviderName = ''git''"

definition DefaultPrimaryRemoteName :: string where
  "DefaultPrimaryRemoteName = ''origin''"

definition NewPathChecker :: "string \<Rightarrow> SHA256 \<Rightarrow> GitPathChecker" where
  "NewPathChecker p d = \<lparr>checker_path = p, checker_digest = d, cache = None\<rparr>"

definition new_cache :: pathCheckerCache where
  "new_cache = \<lparr>checked = False, unmodified = False, absPath = [], repo = None, obj = None,
     blobHash = [], repoPath = []\<rparr>"

subsection \<open>Comparing summaries\<close>

text \<open>\<open>evalChecks\<close> evaluates its checks in order and stops at the first that gives \<open>v\<close>.\<close>

datatype check = CheckVal bool | CheckFunc "unit \<Rightarrow> bool res"

fun check_eval :: "check \<Rightarrow> bool res" where
  "check_eval (CheckVal v) = Inr v"
| "check_eval (CheckFunc f) = f ()"

fun evalChecks :: "bool \<Rightarrow> check list \<Rightarrow> bool res" where
  "evalChecks v [] = Inr False"
| "evalChecks v (c # cs) = rbind (check_eval c) (\<lambda>r. if r = v then Inr True else evalChecks v cs)"

definition deref :: "'a option \<Rightarrow> 'a res" where
  "deref p = (case p of None \<Rightarrow> Inl (Panic NilDereference) | Some x \<Rightarrow> Inr x)"

definition Summary_SameRepo :: "Summary \<Rightarrow> Summary \<Rightarrow> bool res" where
  "Summary_SameRepo s other =
     rmap Not (evalChecks True
       [CheckVal (SummaryURI (SummaryCommon s) \<noteq> SummaryURI (SummaryCommon other)),
        CheckFunc (\<lambda>_. Inr (SummaryGit s = None \<or> SummaryGit other = None)),
        CheckFunc (\<lambda>_. rbind (deref (SummaryGit s)) (\<lambda>a. rbind (deref (SummaryGit other)) (\<lambda>b.
          Inr (RefHash (GitRef a) \<noteq> RefHash (GitRef b))))),
        CheckFunc (\<lambda>_. rbind (deref (SummaryGit s)) (\<lambda>a. rbind (deref (SummaryGit other)) (\<lambda>b.
          Inr (length (GitRemotes a) \<noteq> length (GitRemotes b)))))])"

text \<open>The methods of \<open>Summary\<close>; every summary of the program is one of git.\<close>

definition git_summary :: "Summary PathCheckSummary" where
  "git_summary =
     \<lparr>SummaryProviderName = (\<lambda>_. GitProviderName), Common = SummaryCommon,
      SameRepo = (\<lambda>a b. Summary_SameRepo a b = Inr True)\<rparr>"

subsection \<open>Finding the repository\<close>

text \<open>
  \<open>detectRepo\<close> opens the directories above \<open>path\<close> from the inside out, until one is a repository
  or \<open>Dir\<close> does not climb any more.
\<close>

function detectRepo :: "(string \<Rightarrow> repository option) \<Rightarrow> string \<Rightarrow> repository option" where
  "detectRepo open path =
     (let d = filepath_Dir path
      in if d = path then None
         else case open d of Some r \<Rightarrow> Some r | None \<Rightarrow> detectRepo open d)"
  by auto

termination
  by (relation "measure (\<lambda>(_, p). climb_measure p)") (auto simp: Dir_climbs)

declare detectRepo.simps [simp del]

definition filepath_Abs :: "git_env \<Rightarrow> string \<Rightarrow> string res" where
  "filepath_Abs env p =
     (if filepath_IsAbs p then Inr (filepath_Clean p)
      else rmap (\<lambda>wd. filepath_Join [wd, p]) (Getwd env))"

definition git_DetectRepo :: "git_env \<Rightarrow> GitPathChecker \<Rightarrow> bool res \<times> GitPathChecker" where
  "git_DetectRepo env c =
     (let ca = (case cache c of None \<Rightarrow> new_cache | Some ca \<Rightarrow> ca);
          c = c\<lparr>cache := Some ca\<rparr>
      in case filepath_Abs env (checker_path c) of
           Inl f \<Rightarrow> (Inl f, c)
         | Inr p \<Rightarrow>
             (case detectRepo (PlainOpen env) p of
                None \<Rightarrow> (Inr False, c)
              | Some r \<Rightarrow> (Inr True, c\<lparr>cache := Some (ca\<lparr>absPath := p, repo := Some r\<rparr>)\<rparr>)))"

subsection \<open>Checking a path\<close>

definition findByPath :: "repository \<Rightarrow> string \<Rightarrow> git_object option res" where
  "findByPath r p =
     rbind (RepoHead r) (\<lambda>head.
     rbind (CommitTree r (RefHash head)) (\<lambda>findEntry.
       case findEntry p of
         Inr (mode, h) \<Rightarrow>
           (case mode of
              Regular \<Rightarrow> rmap Some (BlobObject r h)
            | Deprecated \<Rightarrow> rmap Some (BlobObject r h)
            | Executable \<Rightarrow> rmap Some (BlobObject r h)
            | DirMode \<Rightarrow> rmap Some (TreeObject r h)
            | OtherMode m \<Rightarrow> Inl (Fail (UnsupportedMode p)))
       | Inl (OtherTreeError e) \<Rightarrow> Inl e
       | Inl _ \<Rightarrow> Inr None))"

definition isBlobUnmodified ::
    "git_env \<Rightarrow> worktree \<Rightarrow> string \<Rightarrow> string \<Rightarrow> (bool \<times> string) res" where
  "isBlobUnmodified env w hash p =
     rmap (\<lambda>data. let h = ComputeHash env data in (h = hash, h)) (ReadFile w p)"

definition fileIsInDir :: "string \<Rightarrow> string \<Rightarrow> bool" where
  "fileIsInDir file d =
     (case filepath_Rel d file of
        Inl _ \<Rightarrow> False
      | Inr rel \<Rightarrow>
          if filepath_IsAbs rel then False
          else case strings_Split slash rel of [] \<Rightarrow> False | p # _ \<Rightarrow> p \<noteq> ''..'')"

text \<open>The callback of \<open>ForEach\<close> over the files of a tree; the state is \<open>c.cache.unmodified\<close>.\<close>

definition check_file ::
    "git_env \<Rightarrow> worktree \<Rightarrow> string \<Rightarrow> (string \<times> string) res \<Rightarrow> bool \<Rightarrow> bool res" where
  "check_file env w rp f unmod =
     rbind f (\<lambda>(name, hash).
       if \<not> unmod then Inr False
       else rmap fst (isBlobUnmodified env w hash (filepath_Join [rp, name])))"

text \<open>
  The loop over the status: it stops at the first changed file in the directory.
\<close>

definition status_unmodified :: "order \<Rightarrow> string \<Rightarrow> (string, file_status) gomap \<Rightarrow> bool" where
  "status_unmodified ord rp status =
     (find (\<lambda>(p, (staging, wt)). \<not> (staging \<and> wt) \<and> fileIsInDir p rp) (gm_range ord status) = None)"

definition check_object ::
    "git_env \<Rightarrow> order \<Rightarrow> worktree \<Rightarrow> string \<Rightarrow> git_object \<Rightarrow> pathCheckerCache \<Rightarrow> pathCheckerCache res" where
  "check_object env ord w rp ob ca =
     (case ob of
        Blob hash \<Rightarrow>
          rmap (\<lambda>(u, h). ca\<lparr>unmodified := u, blobHash := h\<rparr>) (isBlobUnmodified env w hash rp)
      | Tree _ files \<Rightarrow>
          rbind (rfold (check_file env w rp) files True) (\<lambda>u.
            if \<not> u then Inr (ca\<lparr>unmodified := False\<rparr>)
            else rmap (\<lambda>status. ca\<lparr>unmodified := status_unmodified ord rp status\<rparr>)
                   (WorktreeStatus w))
      | OtherObject t _ \<Rightarrow> Inl (Fail UnsupportedObjectType))"

text \<open>\<open>negative\<close> resets the cache.\<close>

definition Reset :: "GitPathChecker \<Rightarrow> GitPathChecker" where
  "Reset c = c\<lparr>cache := None\<rparr>"

definition negative :: "fault option \<Rightarrow> GitPathChecker \<Rightarrow> (bool \<times> bool) res \<times> GitPathChecker" where
  "negative err c = (case err of None \<Rightarrow> Inr (False, False) | Some f \<Rightarrow> Inl f, Reset c)"

definition git_Check ::
    "git_env \<Rightarrow> order \<Rightarrow> GitPathChecker \<Rightarrow> (bool \<times> bool) res \<times> GitPathChecker" where
  "git_Check env ord c =
     (let c = (case cache c of None \<Rightarrow> c\<lparr>cache := Some new_cache\<rparr> | Some _ \<Rightarrow> c);
          (found, c) = (case cache c of
              Some ca \<Rightarrow> (if repo ca = None then git_DetectRepo env c else (Inr True, c))
            | None \<Rightarrow> (Inl (Panic NilDereference), c))
      in case found of
           Inl f \<Rightarrow> negative (Some f) c
         | Inr False \<Rightarrow> negative None c
         | Inr True \<Rightarrow>
      (case cache c of
         Some ca \<Rightarrow>
      (case repo ca of
         Some r \<Rightarrow>
      (case Worktree r of
         Inl f \<Rightarrow> negative (Some f) c
       | Inr w \<Rightarrow>
      (case filepath_Rel (WorktreeRoot w) (absPath ca) of
         Inl f \<Rightarrow> negative (Some f) c
       | Inr rp \<Rightarrow>
      (let ca = ca\<lparr>repoPath := rp\<rparr>; c = c\<lparr>cache := Some ca\<rparr>
       in case findByPath r rp of
            Inl f \<Rightarrow> negative (Some f) c
          | Inr None \<Rightarrow> negative None c
          | Inr (Some ob) \<Rightarrow>
              (let ca = ca\<lparr>obj := Some ob, checked := True\<rparr>
               in case check_object env ord w rp ob ca of
                    Inl f \<Rightarrow> negative (Some f) (c\<lparr>cache := Some ca\<rparr>)
                  | Inr ca' \<Rightarrow>
                      (Inr (checked ca', unmodified ca'), c\<lparr>cache := Some ca'\<rparr>)))))
       | None \<Rightarrow> (Inl (Panic NilDereference), c))
       | None \<Rightarrow> (Inl (Panic NilDereference), c)))"

subsection \<open>The summary of a path\<close>

definition IsTree :: "GitPathChecker \<Rightarrow> bool" where
  "IsTree c = (case cache c of
       None \<Rightarrow> False
     | Some ca \<Rightarrow> (case obj ca of Some (Tree _ _) \<Rightarrow> True | _ \<Rightarrow> False))"

definition IsBlob :: "GitPathChecker \<Rightarrow> bool" where
  "IsBlob c = (case cache c of
       None \<Rightarrow> False
     | Some ca \<Rightarrow> (case obj ca of Some (Blob _) \<Rightarrow> True | _ \<Rightarrow> False))"

definition Repository :: "GitPathChecker \<Rightarrow> repository option" where
  "Repository c = (case cache c of None \<Rightarrow> None | Some ca \<Rightarrow> repo ca)"

text \<open>The loop that looks for the remote \<open>origin\<close> takes the last one of that name.\<close>

definition primaryRemoteIndex :: "remote list \<Rightarrow> nat" where
  "primaryRemoteIndex remotes =
     fold (\<lambda>(i, r) n. if RemoteName r = DefaultPrimaryRemoteName then i else n)
       (List.enumerate 0 remotes) 0"

definition primaryURLs :: "remote list \<Rightarrow> string list" where
  "primaryURLs remotes = (if remotes = [] then [] else URLs (remotes ! primaryRemoteIndex remotes))"

text \<open>The part of \<open>MakeSummary\<close> after the check.\<close>

definition summarize :: "git_env \<Rightarrow> GitPathChecker \<Rightarrow> Summary res" where
  "summarize env c =
     rbind (deref (cache c)) (\<lambda>ca.
     rbind (if unmodified ca then rmap (\<lambda>ob. Some (obj_ID ob)) (deref (obj ca))
            else if IsBlob c then Inr (Some (blobHash ca)) else Inr None) (\<lambda>objectHash.
     rbind (deref (repo ca)) (\<lambda>r.
     rbind (RepoRemotes r) (\<lambda>remotes.
     rbind (case primaryURLs remotes of [] \<Rightarrow> Inr [] | u # _ \<Rightarrow> NewEndpoint env u) (\<lambda>uri.
     rbind (RepoHead r) (\<lambda>head.
       Inr \<lparr>SummaryCommon = \<lparr>Unmodified = unmodified ca, SummaryPath = repoPath ca, SummaryURI = uri,
              IsDir = IsTree c, SummaryDigest = checker_digest c\<rparr>,
            SummaryGit = Some \<lparr>ObjectHash = objectHash,
              GitRemotes = fold (\<lambda>r. gm_put (RemoteName r) (URLs r)) remotes [],
              GitRef = head\<rparr>\<rparr>))))))"

definition git_MakeSummary :: "git_env \<Rightarrow> order \<Rightarrow> GitPathChecker \<Rightarrow> Summary res \<times> GitPathChecker" where
  "git_MakeSummary env ord c =
     (if cache c = None \<or> \<not> (case cache c of Some ca \<Rightarrow> checked ca | None \<Rightarrow> False)
      then case git_Check env ord c of
             (Inl f, c') \<Rightarrow> (Inl f, c')
           | (Inr (chk, _), c') \<Rightarrow>
               if \<not> chk then (Inl (Fail (PathNotChecked (checker_path c))), c')
               else (summarize env c', c')
      else (summarize env c, c))"

text \<open>The methods of the git checker.\<close>

definition git_checker :: "git_env \<Rightarrow> order \<Rightarrow> (GitPathChecker, Summary) PathChecker" where
  "git_checker env ord =
     \<lparr>ProviderName = GitProviderName, DetectRepo = git_DetectRepo env, Check = git_Check env ord,
      MakeSummary = git_MakeSummary env ord\<rparr>"

subsection \<open>Being in the same repository\<close>

lemma evalChecks_vals: "evalChecks v (CheckVal b # cs) = (if b = v then Inr True else evalChecks v cs)"
  by simp

lemma Summary_SameRepo_iff:
  "Summary_SameRepo s other = Inr
     (SummaryURI (SummaryCommon s) = SummaryURI (SummaryCommon other) \<and>
      (case (SummaryGit s, SummaryGit other) of
         (Some a, Some b) \<Rightarrow> RefHash (GitRef a) = RefHash (GitRef b) \<and>
           length (GitRemotes a) = length (GitRemotes b)
       | _ \<Rightarrow> False))"
  by (cases "SummaryGit s"; cases "SummaryGit other") (simp_all add: Summary_SameRepo_def deref_def)

lemma git_summary_simps [simp]:
  "Common git_summary = SummaryCommon" "SummaryProviderName git_summary s = GitProviderName"
  by (simp_all add: git_summary_def)

lemma SameRepo_git_summary:
  "SameRepo git_summary a b \<longleftrightarrow>
     SummaryURI (SummaryCommon a) = SummaryURI (SummaryCommon b) \<and>
     (\<exists>x y. SummaryGit a = Some x \<and> SummaryGit b = Some y \<and> RefHash (GitRef x) = RefHash (GitRef y) \<and>
        length (GitRemotes x) = length (GitRemotes y))"
  by (auto simp: git_summary_def Summary_SameRepo_iff split: option.splits)

definition git_made :: "Summary \<Rightarrow> bool" where
  "git_made s \<longleftrightarrow> SummaryGit s \<noteq> None"

interpretation git: path_check_summary git_summary git_made
  by unfold_locales (auto simp: SameRepo_git_summary git_made_def)


subsection \<open>Finding the repository\<close>

lemma detectRepo_root: "detectRepo open (path_of True []) = None"
proof -
  have "filepath_Dir (path_of True []) = path_of True []"
    using Clean_path_of [of True "[]"] by (simp add: filepath_Dir_def path_of_def)
  then show ?thesis by (subst detectRepo.simps) (simp add: Let_def)
qed

lemma detectRepo_step:
  assumes "down_comps (cs @ [c])"
  shows "detectRepo open (path_of True (cs @ [c])) =
    (case open (path_of True cs) of Some r \<Rightarrow> Some r | None \<Rightarrow> detectRepo open (path_of True cs))"
proof -
  have "path_of True cs \<noteq> path_of True (cs @ [c])"
    using assms by (subst path_of_inject) auto
  then show ?thesis
    by (subst detectRepo.simps) (simp add: Let_def Dir_path_of [OF assms])
qed

text \<open>
  C29: the repository found for a path is the innermost one strictly above it: the path's own
  directory entry is never opened, so that the root of a repository is not found to be in it.
\<close>

theorem detectRepo_innermost_above:
  assumes "down_comps cs"
  shows "detectRepo open (path_of True cs) =
    (case rev (filter (\<lambda>ds. open (path_of True ds) \<noteq> None) (map (\<lambda>n. take n cs) [0..<length cs])) of
       [] \<Rightarrow> None
     | ds # _ \<Rightarrow> open (path_of True ds))"
  using assms
proof (induction cs rule: rev_induct)
  case (snoc c cs)
  have "map (\<lambda>n. take n (cs @ [c])) [0..<length (cs @ [c])] = map (\<lambda>n. take n cs) [0..<length cs] @ [cs]"
    by simp
  then show ?case
    using snoc detectRepo_step [OF snoc.prems, of "open"]
    by (cases "open (path_of True cs)") (simp_all only: filter_append rev_append, simp_all)
qed (simp add: detectRepo_root)

theorem detectRepo_innermost_above_witness:
  "detectRepo (\<lambda>p. None) (path_of True [''home'', ''k8s'']) = None"
  by (subst detectRepo_innermost_above) (simp_all add: slash_def)

subsection \<open>Files in a directory\<close>

lemma IsAbs_Join:
  assumes "cs \<noteq> []" and "hd cs \<noteq> []" and "slash \<notin> set (hd cs)"
  shows "\<not> filepath_IsAbs (strings_Join cs [slash])"
  using assms by (cases cs; cases "hd cs") (auto simp: strings_Join_Cons filepath_IsAbs_def)

text \<open>
  For paths as git reports them (relative, cleaned), a file counts as being in the
  directory exactly when its components begin with those of the directory.
\<close>

theorem fileIsInDir_prefix:
  assumes "down_comps ds" and "down_comps fs" and "fs \<noteq> []"
  shows "fileIsInDir (path_of False fs) (path_of False ds) \<longleftrightarrow> prefix ds fs"
proof (cases "fs = ds")
  case True
  then have "filepath_Rel (path_of False ds) (path_of False fs) = Inr ''.''"
    using Rel_relative_cases [OF assms] by auto
  with True show ?thesis by (simp add: fileIsInDir_def filepath_IsAbs_def slash_def)
next
  case False
  obtain bs ts where bt: "strip_common ds fs = (bs, ts)" by fastforce
  let ?cs = "replicate (length bs) ''..'' @ ts"
  have rel: "filepath_Rel (path_of False ds) (path_of False fs) = Inr (strings_Join ?cs [slash])"
    using Rel_relative_cases [OF assms] False bt by auto
  have bs: "bs = [] \<longleftrightarrow> prefix ds fs" using strip_common_prefix [of ds fs] bt by simp
  have ts: "set ts \<subseteq> set fs" using set_strip_common(2) [of ds fs] bt by simp
  have "?cs \<noteq> []"
  proof
    assume "?cs = []"
    then have "bs = []" "ts = []" by auto
    then obtain es where "fs = ds @ es" "strip_common ds fs = ([], [])"
      using bs bt by (auto elim: prefixE)
    then show False using False by simp
  qed
  moreover have no_slash: "\<forall>c\<in>set ?cs. slash \<notin> set c \<and> c \<noteq> []"
    using ts assms(2) by (auto simp: down_comps_def slash_def)
  ultimately have split: "strings_Split slash (strings_Join ?cs [slash]) = ?cs"
    by (intro strings_Split_Join) auto
  have "hd ?cs \<in> set ?cs" using \<open>?cs \<noteq> []\<close> by (rule hd_in_set)
  then have "\<not> filepath_IsAbs (strings_Join ?cs [slash])"
    using \<open>?cs \<noteq> []\<close> no_slash by (intro IsAbs_Join) blast+
  then have "fileIsInDir (path_of False fs) (path_of False ds) \<longleftrightarrow>
      (case ?cs of [] \<Rightarrow> False | p # _ \<Rightarrow> p \<noteq> ''..'')"
    by (simp only: fileIsInDir_def rel split sum.case if_False)
  also have "\<dots> \<longleftrightarrow> hd ?cs \<noteq> ''..''" using \<open>?cs \<noteq> []\<close> by (cases ?cs) simp_all
  also have "\<dots> \<longleftrightarrow> bs = []"
  proof (cases bs)
    case Nil
    then have "hd ?cs \<in> set fs" using \<open>hd ?cs \<in> set ?cs\<close> ts by auto
    then show ?thesis using assms(2) Nil by (auto simp: down_comps_def)
  qed simp
  finally show ?thesis by (simp add: bs)
qed

theorem fileIsInDir_prefix_witness:
  "fileIsInDir ''k8s/a.yaml'' ''k8s'' \<and> \<not> fileIsInDir ''docs/a.md'' ''k8s''"
  using fileIsInDir_prefix [of "[''k8s'']" "[''k8s'', ''a.yaml'']"]
    fileIsInDir_prefix [of "[''k8s'']" "[''docs'', ''a.md'']"]
  by (simp_all add: path_of_def slash_def)

subsection \<open>The cache is transparent\<close>

lemma status_unmodified_iff:
  "status_unmodified ord rp status \<longleftrightarrow>
     (\<forall>(p, (staging, wt))\<in>set status. staging \<and> wt \<or> \<not> fileIsInDir p rp)"
  by (auto simp: status_unmodified_def find_None_iff)

lemma check_object_order: "check_object env ord w rp ob ca = check_object env in_order w rp ob ca"
proof -
  have "status_unmodified ord = status_unmodified in_order"
    by (intro ext) (simp add: status_unmodified_iff)
  then show ?thesis unfolding check_object_def by (simp only:)
qed

text \<open>What a check finds out about a path, as a function of what git and the file system answer.\<close>

definition examine :: "git_env \<Rightarrow> string \<Rightarrow> pathCheckerCache option res" where
  "examine env p =
     rbind (filepath_Abs env p) (\<lambda>a.
       case detectRepo (PlainOpen env) a of
         None \<Rightarrow> Inr None
       | Some r \<Rightarrow>
           rbind (Worktree r) (\<lambda>w.
           rbind (filepath_Rel (WorktreeRoot w) a) (\<lambda>rp.
           rbind (findByPath r rp) (\<lambda>found.
             case found of
               None \<Rightarrow> Inr None
             | Some ob \<Rightarrow> rmap Some (check_object env in_order w rp ob
                 \<lparr>checked = True, unmodified = False, absPath = a, repo = Some r, obj = Some ob,
                  blobHash = [], repoPath = rp\<rparr>)))))"

text \<open>The states a checker for a path gets into.\<close>

definition git_checker_for :: "git_env \<Rightarrow> string \<Rightarrow> SHA256 \<Rightarrow> GitPathChecker \<Rightarrow> bool" where
  "git_checker_for env p d c \<longleftrightarrow>
     checker_path c = p \<and> checker_digest c = d \<and>
     (case cache c of
        None \<Rightarrow> True
      | Some ca \<Rightarrow>
          ca = new_cache \<or>
          (\<exists>a r. filepath_Abs env p = Inr a \<and> detectRepo (PlainOpen env) a = Some r \<and>
             ca = new_cache\<lparr>absPath := a, repo := Some r\<rparr>) \<or>
          examine env p = Inr (Some ca))"

lemma git_checker_for_new [simp]: "git_checker_for env p d (NewPathChecker p d)"
  by (simp add: git_checker_for_def NewPathChecker_def)

lemma git_checker_for_path: "git_checker_for env p d c \<Longrightarrow> checker_path c = p \<and> checker_digest c = d"
  by (simp add: git_checker_for_def)

lemma check_object_fields:
  "check_object env ord w rp ob ca0 = Inr ca \<Longrightarrow>
     ca = ca0\<lparr>unmodified := unmodified ca, blobHash := blobHash ca\<rparr>"
  by (auto simp: check_object_def res_simps split: git_object.splits if_splits)

lemma check_object_again:
  assumes "check_object env ord w rp ob ca0 = Inr ca"
  shows "check_object env ord w rp ob ca = Inr ca"
proof (cases ob)
  case (Blob h)
  from assms obtain u h' where "isBlobUnmodified env w h rp = Inr (u, h')"
      "ca = ca0\<lparr>unmodified := u, blobHash := h'\<rparr>"
    by (auto simp: check_object_def Blob rmap_Inr_conv)
  then show ?thesis by (simp add: check_object_def Blob)
next
  case (Tree h files)
  from assms obtain u where u: "rfold (check_file env w rp) files True = Inr u"
    by (auto simp: check_object_def Tree rbind_Inr_conv)
  with assms show ?thesis
    by (cases u; cases "WorktreeStatus w") (auto simp: check_object_def Tree)
qed (use assms in \<open>simp add: check_object_def\<close>)

lemma examine_SomeE:
  assumes "examine env p = Inr (Some ca)"
  obtains a r w rp ob where "filepath_Abs env p = Inr a" "detectRepo (PlainOpen env) a = Some r"
    "Worktree r = Inr w" "filepath_Rel (WorktreeRoot w) a = Inr rp" "findByPath r rp = Inr (Some ob)"
    "check_object env in_order w rp ob
       \<lparr>checked = True, unmodified = False, absPath = a, repo = Some r, obj = Some ob,
        blobHash = [], repoPath = rp\<rparr> = Inr ca"
    "checked ca" "absPath ca = a" "repo ca = Some r" "obj ca = Some ob" "repoPath ca = rp"
    "check_object env in_order w rp ob ca = Inr ca"
proof -
  from assms obtain a r w rp ob where *:
      "filepath_Abs env p = Inr a" "detectRepo (PlainOpen env) a = Some r"
      "Worktree r = Inr w" "filepath_Rel (WorktreeRoot w) a = Inr rp" "findByPath r rp = Inr (Some ob)"
      "check_object env in_order w rp ob
         \<lparr>checked = True, unmodified = False, absPath = a, repo = Some r, obj = Some ob,
          blobHash = [], repoPath = rp\<rparr> = Inr ca"
    by (auto simp: examine_def res_simps split: option.splits)
  have eq: "ca = \<lparr>checked = True, unmodified = unmodified ca, absPath = a, repo = Some r,
      obj = Some ob, blobHash = blobHash ca, repoPath = rp\<rparr>"
    using check_object_fields [OF *(6)] by simp
  show thesis
    by (rule that [OF * _ _ _ _ _ check_object_again [OF *(6)]])
      (use arg_cong [OF eq, of checked] arg_cong [OF eq, of absPath] arg_cong [OF eq, of repo]
        arg_cong [OF eq, of obj] arg_cong [OF eq, of repoPath] in simp_all)
qed

text \<open>What the check leaves, once a repository is known.\<close>

lemma git_Check_known:
  assumes cache: "cache c = Some ca" and repo: "repo ca = Some r"
  shows "git_Check env ord c =
    (case Worktree r of
       Inl f \<Rightarrow> (Inl f, Reset c)
     | Inr w \<Rightarrow>
    (case filepath_Rel (WorktreeRoot w) (absPath ca) of
       Inl f \<Rightarrow> (Inl f, Reset c)
     | Inr rp \<Rightarrow>
    (case findByPath r rp of
       Inl f \<Rightarrow> (Inl f, Reset c)
     | Inr None \<Rightarrow> (Inr (False, False), Reset c)
     | Inr (Some ob) \<Rightarrow>
    (case check_object env ord w rp ob (ca\<lparr>repoPath := rp, obj := Some ob, checked := True\<rparr>) of
       Inl f \<Rightarrow> (Inl f, Reset c)
     | Inr ca' \<Rightarrow> (Inr (checked ca', unmodified ca'), c\<lparr>cache := Some ca'\<rparr>)))))"
  using assms
  by (auto simp: git_Check_def Let_def negative_def Reset_def split: sum.splits option.splits)

lemma git_Check_unknown:
  assumes "cache c = None \<or> cache c = Some new_cache"
  shows "git_Check env ord c =
    (case filepath_Abs env (checker_path c) of
       Inl f \<Rightarrow> (Inl f, Reset c)
     | Inr a \<Rightarrow>
         (case detectRepo (PlainOpen env) a of
            None \<Rightarrow> (Inr (False, False), Reset c)
          | Some r \<Rightarrow> git_Check env ord
              (c\<lparr>cache := Some (new_cache\<lparr>absPath := a, repo := Some r\<rparr>)\<rparr>)))"
proof -
  have new: "repo new_cache = None" by (simp add: new_cache_def)
  have detect: "git_DetectRepo env (c\<lparr>cache := Some new_cache\<rparr>) =
      (case filepath_Abs env (checker_path c) of
         Inl f \<Rightarrow> (Inl f, c\<lparr>cache := Some new_cache\<rparr>)
       | Inr a \<Rightarrow> (case detectRepo (PlainOpen env) a of
            None \<Rightarrow> (Inr False, c\<lparr>cache := Some new_cache\<rparr>)
          | Some r \<Rightarrow> (Inr True, c\<lparr>cache := Some (new_cache\<lparr>absPath := a, repo := Some r\<rparr>)\<rparr>)))"
    by (simp add: git_DetectRepo_def Let_def split: sum.splits option.splits)
  have start: "(case cache c of None \<Rightarrow> c\<lparr>cache := Some new_cache\<rparr> | Some _ \<Rightarrow> c) = c\<lparr>cache := Some new_cache\<rparr>"
    using assms by auto
  show ?thesis
  proof (cases "filepath_Abs env (checker_path c)")
    case (Inl f)
    then show ?thesis
      using start detect new by (simp add: git_Check_def Let_def negative_def Reset_def)
  next
    case (Inr a)
    show ?thesis
    proof (cases "detectRepo (PlainOpen env) a")
      case None
      with Inr show ?thesis
        using start detect new by (simp add: git_Check_def Let_def negative_def Reset_def)
    next
      case (Some r)
      with Inr show ?thesis
        using start detect new by (simp add: git_Check_def Let_def)
    qed
  qed
qed

lemma git_Check_examine:
  assumes "git_checker_for env p d c"
  shows "git_Check env ord c =
    (case examine env p of
       Inl f \<Rightarrow> (Inl f, Reset c)
     | Inr None \<Rightarrow> (Inr (False, False), Reset c)
     | Inr (Some ca) \<Rightarrow> (Inr (True, unmodified ca), c\<lparr>cache := Some ca\<rparr>))"
proof -
  have path: "checker_path c = p" using assms by (simp add: git_checker_for_def)
  have known: "git_Check env ord (c\<lparr>cache := Some (new_cache\<lparr>absPath := a, repo := Some r\<rparr>)\<rparr>) =
    (case examine env p of
       Inl f \<Rightarrow> (Inl f, Reset c)
     | Inr None \<Rightarrow> (Inr (False, False), Reset c)
     | Inr (Some ca) \<Rightarrow> (Inr (True, unmodified ca), c\<lparr>cache := Some ca\<rparr>))"
    if "filepath_Abs env p = Inr a" "detectRepo (PlainOpen env) a = Some r" for a r
  proof -
    have checked: "checked ca'" if "check_object env in_order w rp ob \<lparr>checked = True, unmodified = False,
        absPath = a, repo = Some r, obj = Some ob, blobHash = [], repoPath = rp\<rparr> = Inr ca'" for w rp ob ca'
      using check_object_fields [OF that] by (metis pathCheckerCache.select_convs(1)
          pathCheckerCache.update_convs(2) pathCheckerCache.update_convs(6))
    show ?thesis
      using that checked
      by (subst git_Check_known [where ca = "new_cache\<lparr>absPath := a, repo := Some r\<rparr>" and r = r])
        (auto simp: examine_def new_cache_def Reset_def check_object_order [of env ord]
          split: sum.splits option.splits)
  qed
  consider "cache c = None \<or> cache c = Some new_cache"
    | a r where "filepath_Abs env p = Inr a" "detectRepo (PlainOpen env) a = Some r"
        "cache c = Some (new_cache\<lparr>absPath := a, repo := Some r\<rparr>)"
    | ca where "cache c = Some ca" "examine env p = Inr (Some ca)"
    using assms by (cases "cache c") (auto simp: git_checker_for_def)
  then show ?thesis
  proof cases
    case 1
    show ?thesis
    proof (cases "filepath_Abs env p")
      case (Inl f)
      then show ?thesis by (simp add: git_Check_unknown [OF 1] path examine_def)
    next
      case (Inr a)
      then show ?thesis
        by (cases "detectRepo (PlainOpen env) a")
          (simp_all add: git_Check_unknown [OF 1] path known, simp add: examine_def)
    qed
  next
    case 2
    then have "c\<lparr>cache := Some (new_cache\<lparr>absPath := a, repo := Some r\<rparr>)\<rparr> = c" by (cases c) simp
    with known [OF 2(1,2)] show ?thesis by simp
  next
    case 3
    from examine_SomeE [OF 3(2)] obtain a r w rp ob where *:
        "Worktree r = Inr w" "filepath_Rel (WorktreeRoot w) a = Inr rp" "findByPath r rp = Inr (Some ob)"
        "checked ca" "absPath ca = a" "repo ca = Some r" "obj ca = Some ob" "repoPath ca = rp"
        "check_object env in_order w rp ob ca = Inr ca"
      by metis
    then have same: "ca\<lparr>repoPath := rp, obj := Some ob, checked := True\<rparr> = ca"
      by (cases ca) simp
    show ?thesis
      by (simp only: git_Check_known [OF 3(1) *(6)] 3(2) check_object_order [of env ord] *(1,5,2,3)
          same *(9,4) sum.case option.case)
  qed
qed

lemma git_MakeSummary_examine:
  assumes "git_checker_for env p d c"
  shows "git_MakeSummary env ord c =
    (case examine env p of
       Inl f \<Rightarrow> (Inl f, Reset c)
     | Inr None \<Rightarrow> (Inl (Fail (PathNotChecked p)), Reset c)
     | Inr (Some ca) \<Rightarrow>
         (let c' = \<lparr>checker_path = p, checker_digest = d, cache = Some ca\<rparr> in (summarize env c', c')))"
proof -
  have c': "c\<lparr>cache := Some ca\<rparr> = \<lparr>checker_path = p, checker_digest = d, cache = Some ca\<rparr>" for ca
    using assms by (cases c) (simp add: git_checker_for_def)
  have path: "checker_path c = p" using assms by (simp add: git_checker_for_def)
  consider "cache c = None \<or> (\<exists>ca. cache c = Some ca \<and> \<not> checked ca)"
    | ca where "cache c = Some ca" "examine env p = Inr (Some ca)" "checked ca"
    using assms by (cases "cache c") (auto simp: git_checker_for_def new_cache_def elim: examine_SomeE)
  then show ?thesis
  proof cases
    case 1
    then have "git_MakeSummary env ord c =
        (case git_Check env ord c of
           (Inl f, c') \<Rightarrow> (Inl f, c')
         | (Inr (chk, _), c') \<Rightarrow>
             if \<not> chk then (Inl (Fail (PathNotChecked p)), c') else (summarize env c', c'))"
      unfolding git_MakeSummary_def path by auto
    then show ?thesis
      by (simp add: git_Check_examine [OF assms] c' Let_def split: sum.splits option.splits)
  next
    case 2
    then have "c = \<lparr>checker_path = p, checker_digest = d, cache = Some ca\<rparr>"
      using assms by (cases c) (simp add: git_checker_for_def)
    then show ?thesis using 2 by (simp add: git_MakeSummary_def Let_def)
  qed
qed

text \<open>What a client can do with a checker.\<close>

inductive git_checker_step :: "git_env \<Rightarrow> GitPathChecker \<Rightarrow> GitPathChecker \<Rightarrow> bool" for env where
  step_DetectRepo: "git_checker_step env c (snd (git_DetectRepo env c))"
| step_Check: "git_checker_step env c (snd (git_Check env ord c))"
| step_MakeSummary: "git_checker_step env c (snd (git_MakeSummary env ord c))"
| step_Reset: "git_checker_step env c (Reset c)"

lemma git_checker_for_Reset: "git_checker_for env p d c \<Longrightarrow> git_checker_for env p d (Reset c)"
  by (simp add: git_checker_for_def Reset_def)

lemma git_checker_for_examined:
  "git_checker_for env p d c \<Longrightarrow> examine env p = Inr (Some ca) \<Longrightarrow>
     git_checker_for env p d (c\<lparr>cache := Some ca\<rparr>)"
  by (simp add: git_checker_for_def)

lemma git_checker_for_Check:
  "git_checker_for env p d c \<Longrightarrow> git_checker_for env p d (snd (git_Check env ord c))"
  by (auto simp: git_Check_examine git_checker_for_Reset git_checker_for_examined
      split: sum.splits option.splits)

lemma git_checker_for_MakeSummary:
  "git_checker_for env p d c \<Longrightarrow> git_checker_for env p d (snd (git_MakeSummary env ord c))"
  by (subst git_MakeSummary_examine, assumption)
    (auto simp: git_checker_for_Reset git_checker_for_def [of _ _ _ "\<lparr>checker_path = _, checker_digest = _, cache = _\<rparr>"]
      Let_def split: sum.splits option.splits)

lemma git_checker_for_DetectRepo:
  assumes "git_checker_for env p d c"
  shows "git_checker_for env p d (snd (git_DetectRepo env c))"
proof -
  obtain ca where ca: "cache c = Some ca \<or> cache c = None \<and> ca = new_cache" by (cases "cache c") auto
  have start: "(case cache c of None \<Rightarrow> new_cache | Some ca \<Rightarrow> ca) = ca" using ca by auto
  have own: "git_checker_for env p d (c\<lparr>cache := Some ca\<rparr>)"
    using assms ca by (auto simp: git_checker_for_def)
  have path: "checker_path c = p" using assms by (simp add: git_checker_for_def)
  have found: "git_checker_for env p d (c\<lparr>cache := Some (ca\<lparr>absPath := a, repo := Some r\<rparr>)\<rparr>)"
    if "filepath_Abs env p = Inr a" "detectRepo (PlainOpen env) a = Some r" for a r
  proof -
    have "ca\<lparr>absPath := a, repo := Some r\<rparr> = new_cache\<lparr>absPath := a, repo := Some r\<rparr> \<or>
        examine env p = Inr (Some (ca\<lparr>absPath := a, repo := Some r\<rparr>))"
    proof -
      consider "ca = new_cache" | a' r' where "ca = new_cache\<lparr>absPath := a', repo := Some r'\<rparr>"
        | "examine env p = Inr (Some ca)"
        using assms ca by (auto simp: git_checker_for_def)
      then show ?thesis
      proof cases
        case 3
        from examine_SomeE [OF 3] that have "absPath ca = a" "repo ca = Some r"
          by (metis Inr_inject option.inject)+
        then have "ca\<lparr>absPath := a, repo := Some r\<rparr> = ca" by (cases ca) simp
        with 3 show ?thesis by simp
      qed simp_all
    qed
    then show ?thesis using assms that by (auto simp: git_checker_for_def)
  qed
  show ?thesis
    using own found by (auto simp: git_DetectRepo_def Let_def start path split: sum.splits option.splits)
qed

lemma git_checker_for_step:
  "git_checker_step env c c' \<Longrightarrow> git_checker_for env p d c \<Longrightarrow> git_checker_for env p d c'"
  by (induction rule: git_checker_step.induct)
    (auto intro: git_checker_for_DetectRepo git_checker_for_Check git_checker_for_MakeSummary
      git_checker_for_Reset)

lemma git_checker_for_steps:
  "(git_checker_step env)\<^sup>*\<^sup>* c c' \<Longrightarrow> git_checker_for env p d c \<Longrightarrow> git_checker_for env p d c'"
  by (induction rule: rtranclp_induct) (auto intro: git_checker_for_step)

lemma answers_of_checker:
  assumes "git_checker_for env p d c"
  shows "fst (git_Check env ord c) = rmap (\<lambda>x. case x of None \<Rightarrow> (False, False) | Some ca \<Rightarrow> (True, unmodified ca)) (examine env p)"
    "fst (git_MakeSummary env ord c) = rbind (examine env p) (\<lambda>x. case x of
        None \<Rightarrow> Inl (Fail (PathNotChecked p))
      | Some ca \<Rightarrow> summarize env \<lparr>checker_path = p, checker_digest = d, cache = Some ca\<rparr>)"
  by (auto simp: git_Check_examine [OF assms] git_MakeSummary_examine [OF assms] Let_def
      split: sum.splits option.splits) 

text \<open>
  C17: the cache is transparent: whatever methods have been called on a checker, in whatever
  order, \<open>Check\<close> and \<open>MakeSummary\<close> answer what a new checker for the same path and digest
  answers, and the order in which the status of the files is visited does not matter.
\<close>

theorem git_checker_cache_transparent:
  assumes "(git_checker_step env)\<^sup>*\<^sup>* (NewPathChecker p d) c"
  shows "fst (git_Check env ord c) = fst (git_Check env ord' (NewPathChecker p d)) \<and>
    fst (git_MakeSummary env ord c) = fst (git_MakeSummary env ord' (NewPathChecker p d))"
proof -
  from git_checker_for_steps [OF assms] have "git_checker_for env p d c" by simp
  from answers_of_checker [OF this] answers_of_checker [OF git_checker_for_new] show ?thesis by simp
qed

text \<open>
  A repository at \<open>/r\<close> whose \<open>HEAD\<close> has a directory \<open>k8s\<close> with the given files; \<open>disk\<close> is the
  working tree.  The hash of a file stands for its contents.
\<close>

definition sample_repo :: "(string, string) gomap \<Rightarrow> (string, string) gomap \<Rightarrow> (string, file_status) gomap \<Rightarrow> repository" where
  "sample_repo files disk status =
     \<lparr>Worktree = Inr \<lparr>WorktreeRoot = ''/r'',
        ReadFile = (\<lambda>p. case gm_get disk p of Some d \<Rightarrow> Inr d | None \<Rightarrow> Inl (Fail (External ''file does not exist''))),
        WorktreeStatus = Inr status\<rparr>,
      RepoHead = Inr \<lparr>RefName = ''refs/heads/main'', RefHash = ''c0'', RefType = ''hash-reference'', RefTarget = []\<rparr>,
      CommitTree = (\<lambda>h. Inr (\<lambda>p. if p = ''k8s'' then Inr (DirMode, ''t1'')
        else (case gm_get files p of Some h \<Rightarrow> Inr (Regular, h) | None \<Rightarrow> Inl ErrEntryNotFound))),
      BlobObject = (\<lambda>h. Inr (Blob h)),
      TreeObject = (\<lambda>h. Inr (Tree h (map (\<lambda>(p, h). Inr (drop 4 p, h)) files))),
      RepoRemotes = Inr [\<lparr>RemoteName = ''origin'', URLs = [''https://h/r.git'']\<rparr>]\<rparr>"

definition sample_env :: "repository \<Rightarrow> git_env" where
  "sample_env r = \<lparr>Getwd = Inr ''/r'', PlainOpen = (\<lambda>p. if p = ''/r'' then Some r else None),
     ComputeHash = (\<lambda>d. d), NewEndpoint = Inr\<rparr>"

lemma sample_detectRepo: "detectRepo (PlainOpen (sample_env r)) ''/r/k8s'' = Some r"
  using detectRepo_step [of "[''r'']" "''k8s''" "PlainOpen (sample_env r)"]
  by (simp add: path_of_def slash_def sample_env_def)

lemma sample_Abs: "filepath_Abs (sample_env r) ''k8s'' = Inr ''/r/k8s''"
proof -
  have "filepath_Join [''/r'', ''k8s''] = path_of True [''r'', ''k8s'']"
    using Clean_path_of [of True "[''r'', ''k8s'']"]
    by (simp add: filepath_Join_two slash_def path_of_def)
  then show ?thesis by (simp add: filepath_Abs_def filepath_IsAbs_def slash_def sample_env_def path_of_def)
qed

lemma sample_Rel: "filepath_Rel ''/r'' ''/r/k8s'' = Inr ''k8s''"
  using Rel_inside_root [of "[''r'']" "[''k8s'']"] by (simp add: path_of_def slash_def)

lemma sample_examine:
  "examine (sample_env (sample_repo files disk status)) ''k8s'' =
     rmap Some (check_object (sample_env (sample_repo files disk status)) in_order
       (projr (Worktree (sample_repo files disk status))) ''k8s'' (Tree ''t1'' (map (\<lambda>(p, h). Inr (drop 4 p, h)) files))
       \<lparr>checked = True, unmodified = False, absPath = ''/r/k8s'', repo = Some (sample_repo files disk status),
        obj = Some (Tree ''t1'' (map (\<lambda>(p, h). Inr (drop 4 p, h)) files)), blobHash = [], repoPath = ''k8s''\<rparr>)"
  by (simp add: examine_def sample_Abs sample_detectRepo sample_Rel findByPath_def)
    (simp add: sample_repo_def sample_Rel findByPath_def)

theorem git_checker_cache_transparent_witness:
  "\<exists>env c ord. (git_checker_step env)\<^sup>*\<^sup>* (NewPathChecker ''k8s'' ''d'') c \<and> cache c \<noteq> None \<and>
     fst (git_MakeSummary env ord c) = fst (git_MakeSummary env ord (NewPathChecker ''k8s'' ''d''))"
proof -
  let ?env = "sample_env (sample_repo [] [] [])"
  let ?c = "snd (git_DetectRepo ?env (NewPathChecker ''k8s'' ''d''))"
  have steps: "(git_checker_step ?env)\<^sup>*\<^sup>* (NewPathChecker ''k8s'' ''d'') ?c"
    by (intro r_into_rtranclp step_DetectRepo)
  moreover have "cache ?c \<noteq> None"
    by (simp add: git_DetectRepo_def NewPathChecker_def sample_Abs sample_detectRepo)
  ultimately show ?thesis
    using git_checker_cache_transparent [OF steps, of in_order in_order] by blast
qed

subsection \<open>What a check says\<close>

lemma check_file_simps:
  "check_file env w rp (Inl e) u = Inl e"
  "check_file env w rp (Inr (n, h)) False = Inr False"
  "check_file env w rp (Inr (n, h)) True = rmap fst (isBlobUnmodified env w h (filepath_Join [rp, n]))"
  by (simp_all add: check_file_def)

lemma check_files_Inr:
  assumes "rfold (check_file env w rp) files u = Inr v"
  shows "\<exists>fs. files = map Inr fs \<and> (v \<longleftrightarrow> u \<and> (\<forall>(n, h)\<in>set fs. \<exists>data.
    ReadFile w (filepath_Join [rp, n]) = Inr data \<and> ComputeHash env data = h))"
  using assms
proof (induction files arbitrary: u)
  case (Cons f files)
  then obtain n h where f: "f = Inr (n, h)"
    by (cases f) (auto simp: check_file_simps)
  show ?case
  proof (cases u)
    case False
    then have "rfold (check_file env w rp) files False = Inr v"
      using Cons.prems by (simp add: check_file_simps f)
    from Cons.IH [OF this] obtain fs where "files = map Inr fs" "\<not> v" by auto
    with f False show ?thesis by (intro exI [of _ "(n, h) # fs"]) simp
  next
    case True
    then obtain data where data: "ReadFile w (filepath_Join [rp, n]) = Inr data"
        "rfold (check_file env w rp) files (ComputeHash env data = h) = Inr v"
      using Cons.prems
      by (auto simp: check_file_simps f isBlobUnmodified_def Let_def res_simps)
    from Cons.IH [OF data(2)] obtain fs where "files = map Inr fs"
        "v \<longleftrightarrow> ComputeHash env data = h \<and> (\<forall>(n, h)\<in>set fs. \<exists>data.
           ReadFile w (filepath_Join [rp, n]) = Inr data \<and> ComputeHash env data = h)"
      by blast
    with f data(1) True show ?thesis by (intro exI [of _ "(n, h) # fs"]) auto
  qed
qed simp

text \<open>The files below a tracked path are what \<open>HEAD\<close> has.\<close>

definition worktree_matches :: "git_env \<Rightarrow> worktree \<Rightarrow> string \<Rightarrow> git_object \<Rightarrow> bool" where
  "worktree_matches env w rp ob \<longleftrightarrow>
     (case ob of
        Blob h \<Rightarrow> \<exists>data. ReadFile w rp = Inr data \<and> ComputeHash env data = h
      | Tree _ files \<Rightarrow>
          (\<forall>n h. Inr (n, h) \<in> set files \<longrightarrow>
             (\<exists>data. ReadFile w (filepath_Join [rp, n]) = Inr data \<and> ComputeHash env data = h)) \<and>
          (\<exists>status. WorktreeStatus w = Inr status \<and>
             (\<forall>(q, (staging, wt))\<in>set status. fileIsInDir q rp \<longrightarrow> staging \<and> wt))
      | OtherObject _ _ \<Rightarrow> False)"

lemma check_object_unmodified:
  assumes "check_object env ord w rp ob ca0 = Inr ca"
  shows "unmodified ca \<longleftrightarrow> worktree_matches env w rp ob"
proof (cases ob)
  case (Blob h)
  with assms show ?thesis
    by (auto simp: check_object_def isBlobUnmodified_def worktree_matches_def Let_def res_simps)
next
  case (Tree h files)
  from assms obtain u where u: "rfold (check_file env w rp) files True = Inr u"
    by (auto simp: check_object_def Tree rbind_Inr_conv)
  from check_files_Inr [OF this] have files: "u \<longleftrightarrow> (\<forall>n h. Inr (n, h) \<in> set files \<longrightarrow>
      (\<exists>data. ReadFile w (filepath_Join [rp, n]) = Inr data \<and> ComputeHash env data = h))"
    by auto
  show ?thesis
  proof (cases u)
    case True
    with assms u obtain status where "WorktreeStatus w = Inr status"
        "ca = ca0\<lparr>unmodified := status_unmodified ord rp status\<rparr>"
      by (auto simp: check_object_def Tree res_simps)
    with True files show ?thesis
      by (auto simp: worktree_matches_def Tree status_unmodified_iff)
  next
    case False
    with assms u files show ?thesis by (auto simp: check_object_def Tree worktree_matches_def)
  qed
qed (use assms in \<open>simp add: check_object_def\<close>)

text \<open>
  C11: the meaning of a successful check: a path is checked exactly when the commit at \<open>HEAD\<close> of
  the innermost repository above it has an entry for it, and then it is reported as unmodified
  exactly when the working tree has what that commit has: the same hash for a file; for a
  directory the same hash for every file of its tree, and no file with a changed status below it.
\<close>

theorem git_Check_meaning:
  assumes "fst (git_Check env ord (NewPathChecker p d)) = Inr (chk, unmod)"
  shows "if chk
    then \<exists>a r w rp ob. filepath_Abs env p = Inr a \<and> detectRepo (PlainOpen env) a = Some r \<and>
      Worktree r = Inr w \<and> filepath_Rel (WorktreeRoot w) a = Inr rp \<and>
      findByPath r rp = Inr (Some ob) \<and> (unmod \<longleftrightarrow> worktree_matches env w rp ob)
    else \<not> unmod \<and> (\<exists>a. filepath_Abs env p = Inr a \<and>
      (detectRepo (PlainOpen env) a = None \<or>
       (\<exists>r w rp. detectRepo (PlainOpen env) a = Some r \<and> Worktree r = Inr w \<and>
          filepath_Rel (WorktreeRoot w) a = Inr rp \<and> findByPath r rp = Inr None)))"
proof -
  from assms answers_of_checker(1) [OF git_checker_for_new]
  obtain x where x: "examine env p = Inr x"
      "(chk, unmod) = (case x of None \<Rightarrow> (False, False) | Some ca \<Rightarrow> (True, unmodified ca))"
    by (auto simp: rmap_Inr_conv)
  show ?thesis
  proof (cases x)
    case None
    with x have none: "examine env p = Inr None" and flags: "\<not> chk" "\<not> unmod" by simp_all
    from none obtain a where "filepath_Abs env p = Inr a" by (auto simp: examine_def rbind_Inr_conv)
    with none flags show ?thesis
      by (cases "detectRepo (PlainOpen env) a")
        (auto simp: examine_def res_simps split: option.splits)
  next
    case (Some ca)
    with x have ca: "examine env p = Inr (Some ca)" by simp
    from examine_SomeE [OF ca] obtain a r w rp ob where
      "filepath_Abs env p = Inr a" "detectRepo (PlainOpen env) a = Some r" "Worktree r = Inr w"
      "filepath_Rel (WorktreeRoot w) a = Inr rp" "findByPath r rp = Inr (Some ob)"
      "check_object env in_order w rp ob ca = Inr ca" by metis
    moreover from check_object_unmodified [OF this(6)] x(2) Some
    have "unmod \<longleftrightarrow> worktree_matches env w rp ob" "chk" by simp_all
    ultimately show ?thesis by auto
  qed
qed

lemma sample_check:
  "fst (git_Check (sample_env (sample_repo [(''k8s/a.yaml'', ''x'')] [(''k8s/a.yaml'', ''x'')] []))
     in_order (NewPathChecker ''k8s'' [])) = Inr (True, True)"
proof -
  have "filepath_Join [''k8s'', ''a.yaml''] = ''k8s/a.yaml''"
    using Clean_path_of [of False "[''k8s'', ''a.yaml'']"]
    by (simp add: filepath_Join_two slash_def path_of_def)
  then show ?thesis
    unfolding answers_of_checker(1) [OF git_checker_for_new] sample_examine
    by (simp add: check_object_def check_file_def isBlobUnmodified_def sample_env_def
        sample_repo_def gm_get_def status_unmodified_iff Let_def)
qed

theorem git_Check_meaning_witness:
  "\<exists>env r w ob. PlainOpen env ''/r'' = Some r \<and> Worktree r = Inr w \<and>
     findByPath r ''k8s'' = Inr (Some ob) \<and> worktree_matches env w ''k8s'' ob"
proof -
  let ?env = "sample_env (sample_repo [(''k8s/a.yaml'', ''x'')] [(''k8s/a.yaml'', ''x'')] [])"
  from git_Check_meaning [OF sample_check] obtain a r w rp ob where
    "filepath_Abs ?env ''k8s'' = Inr a" "detectRepo (PlainOpen ?env) a = Some r"
    "Worktree r = Inr w" "filepath_Rel (WorktreeRoot w) a = Inr rp" "findByPath r rp = Inr (Some ob)"
    "worktree_matches ?env w rp ob" by auto
  moreover from this have "a = ''/r/k8s''" by (simp add: sample_Abs)
  moreover from calculation have r: "r = sample_repo [(''k8s/a.yaml'', ''x'')] [(''k8s/a.yaml'', ''x'')] []"
    by (simp add: sample_detectRepo)
  moreover from calculation have "rp = ''k8s''" by (auto simp: sample_repo_def sample_Rel)
  ultimately show ?thesis by (intro exI [of _ ?env]) (auto simp: sample_env_def)
qed


subsection \<open>The contract of a path checker\<close>

text \<open>The path of a file or directory in its repository, as the check finds it.\<close>

definition git_path_at :: "git_env \<Rightarrow> string \<Rightarrow> string res" where
  "git_path_at env p =
     rbind (filepath_Abs env p) (\<lambda>a.
       case detectRepo (PlainOpen env) a of
         None \<Rightarrow> Inl (Fail (PathNotChecked p))
       | Some r \<Rightarrow> rbind (Worktree r) (\<lambda>w. filepath_Rel (WorktreeRoot w) a))"

lemma summarize_Inr:
  assumes "summarize env c = Inr s"
  shows "git_made s" "SummaryDigest (SummaryCommon s) = checker_digest c"
    "\<exists>ca. cache c = Some ca \<and> SummaryPath (SummaryCommon s) = repoPath ca \<and>
       Unmodified (SummaryCommon s) = unmodified ca"
  using assms by (auto simp: summarize_def git_made_def deref_def res_simps split: option.splits)

lemma git_MakeSummary_new:
  assumes "fst (git_MakeSummary env ord (NewPathChecker p d)) = Inr s"
  shows "git_made s \<and> SummaryDigest (SummaryCommon s) = d \<and>
    git_path_at env p = Inr (SummaryPath (SummaryCommon s))"
proof -
  from assms answers_of_checker(2) [OF git_checker_for_new] obtain ca where
      ca: "examine env p = Inr (Some ca)"
      "summarize env \<lparr>checker_path = p, checker_digest = d, cache = Some ca\<rparr> = Inr s"
    by (auto simp: rbind_Inr_conv split: option.splits)
  from examine_SomeE [OF ca(1)] obtain a r w where
      "filepath_Abs env p = Inr a" "detectRepo (PlainOpen env) a = Some r" "Worktree r = Inr w"
      "filepath_Rel (WorktreeRoot w) a = Inr (repoPath ca)" by metis
  then have "git_path_at env p = Inr (repoPath ca)" by (simp add: git_path_at_def)
  with summarize_Inr [OF ca(2)] show ?thesis by simp
qed

interpretation git_paths: path_checker git_summary git_made "git_MakeSummary env ord"
    NewPathChecker "git_checker_for env" "git_path_at env" for env ord
proof
  fix p d c
  assume c: "git_checker_for env p d c"
  then show "git_checker_for env p d (snd (git_MakeSummary env ord c))"
    by (rule git_checker_for_MakeSummary)
  show "fst (git_MakeSummary env ord c) = fst (git_MakeSummary env ord (NewPathChecker p d))"
    unfolding answers_of_checker(2) [OF c] answers_of_checker(2) [OF git_checker_for_new] ..
next
  fix p d s
  assume "fst (git_MakeSummary env ord (NewPathChecker p d)) = Inr s"
  then show "git_made s \<and> SummaryDigest (Common git_summary s) = d \<and>
      git_path_at env p = Inr (SummaryPath (Common git_summary s))"
    using git_MakeSummary_new by simp
qed simp

text \<open>Where a file of a directory is in the repository, when the directory and the file are in one.\<close>

lemma git_path_at_inside:
  assumes abs: "filepath_Abs env p = Inr (path_of True (rs @ ds))"
    and found: "detectRepo (PlainOpen env) (path_of True (rs @ ds)) = Some r"
    and root: "Worktree r = Inr w" "WorktreeRoot w = path_of True rs"
    and down: "down_comps (rs @ ds)" "ds \<noteq> []"
  shows "git_path_at env p = Inr (path_of False ds)"
  using assms by (simp add: git_path_at_def Rel_inside_root)

end
