(* ===== verification/Attest_Git.thy ===== *)
theory Attest_Git
  imports Attest_Registry Git_Vcs
begin

section \<open>The registry over git\<close>

text \<open>
  The registry with the git checker: the contract of \<open>path_checker\<close>, which \<open>Git_Vcs\<close> shows for
  the git checker, carries the properties of the registry over to what \<open>DetectVCS\<close> makes.
\<close>

abbreviation git_registry_step where
  "git_registry_step env ord \<equiv> registry_step git_summary (git_checker env ord)"

definition git_DetectVCS ::
    "git_env \<Rightarrow> order \<Rightarrow> string \<Rightarrow> (GitPathChecker, Summary) PathCheckerRegistry option res" where
  "git_DetectVCS env ord p = DetectVCS git_summary (git_checker env ord) NewPathChecker p"

text \<open>
  Assumptions on the environment: the working directory is absolute, and a repository that go-git
  opens at a directory has its worktree there (it is opened without looking for \<open>.git\<close> above).
\<close>

definition sane_env :: "git_env \<Rightarrow> bool" where
  "sane_env env \<longleftrightarrow>
     (\<forall>wd. Getwd env = Inr wd \<longrightarrow> filepath_IsAbs wd) \<and>
     (\<forall>cs r w. down_comps cs \<longrightarrow> PlainOpen env (path_of True cs) = Some r \<longrightarrow> Worktree r = Inr w \<longrightarrow>
        WorktreeRoot w = path_of True cs)"

text \<open>No repository is opened at a directory or anywhere below it.\<close>

definition no_repo_below :: "git_env \<Rightarrow> string \<Rightarrow> bool" where
  "no_repo_below env a \<longleftrightarrow>
     (\<forall>ds. down_comps ds \<longrightarrow> PlainOpen env (path_of True (path_comps a @ ds)) = None)"

lemma Abs_rooted:
  assumes "sane_env env" and "filepath_Abs env p = Inr a"
  shows "a = path_of True (path_comps a)" "down_comps (path_comps a)"
proof -
  have abs: "filepath_IsAbs a \<and> filepath_Clean a = a"
  proof (cases "filepath_IsAbs p")
    case False
    with assms obtain wd where wd: "Getwd env = Inr wd" "a = filepath_Join [wd, p]"
      by (auto simp: filepath_Abs_def rmap_Inr_conv)
    then have "filepath_IsAbs wd" "wd \<noteq> []" using assms(1) by (auto simp: sane_env_def filepath_IsAbs_def)
    with wd(2) show ?thesis by (simp add: filepath_Join_two IsAbs_append)
  qed (use assms(2) in \<open>auto simp: filepath_Abs_def\<close>)
  then show "a = path_of True (path_comps a)" using Clean_rooted by metis
  from abs show "down_comps (path_comps a)" using normal_path_comps [of a] by simp
qed

lemma Abs_Join:
  assumes "sane_env env" and "filepath_Abs env d = Inr a" and "d \<noteq> []" and "p \<noteq> []"
    and "''..'' \<notin> set (strings_Split slash p)"
  shows "filepath_Abs env (filepath_Join [d, p]) = Inr (path_of True (path_comps a @ path_comps p))"
proof (cases "filepath_IsAbs d")
  case True
  have "path_comps (filepath_Join [d, p]) = path_comps d @ path_comps p"
    and "filepath_IsAbs (filepath_Join [d, p])"
    using path_comps_Join [OF assms(3,5)] True by simp_all
  moreover have "path_comps a = path_comps d" using assms(2) True by (auto simp: filepath_Abs_def)
  ultimately show ?thesis by (simp add: filepath_Abs_def Clean_rooted)
next
  case False
  with assms(2) obtain wd where wd: "Getwd env = Inr wd" "a = filepath_Join [wd, d]"
    by (auto simp: filepath_Abs_def rmap_Inr_conv)
  then have "filepath_IsAbs wd" using assms(1) by (simp add: sane_env_def)
  moreover have "\<not> filepath_IsAbs (filepath_Join [d, p])"
    using path_comps_Join(2) [OF assms(3,5)] False by simp
  ultimately show ?thesis
    using Join_under_root [OF _ assms(3,4,5) False] wd by (simp add: filepath_Abs_def)
qed

lemma detectRepo_below:
  assumes "down_comps (cs @ ds)"
    and "\<And>n. n < length ds \<Longrightarrow> open (path_of True (cs @ take n ds)) = None"
  shows "detectRepo open (path_of True (cs @ ds)) = detectRepo open (path_of True cs)"
  using assms
proof (induction ds rule: rev_induct)
  case (snoc d ds)
  have "detectRepo open (path_of True (cs @ ds @ [d])) = detectRepo open (path_of True (cs @ ds))"
    using detectRepo_step [of "cs @ ds" d "open"] snoc.prems(1) snoc.prems(2) [of "length ds"] by simp
  also have "\<dots> = detectRepo open (path_of True cs)"
  proof (rule snoc.IH)
    fix n
    assume "n < length ds"
    with snoc.prems(2) [of n] show "open (path_of True (cs @ take n ds)) = None" by simp
  qed (use snoc.prems(1) in simp)
  finally show ?case by simp
qed simp

lemma detectRepo_above:
  assumes "detectRepo open (path_of True cs) = Some r" and "down_comps cs"
  shows "\<exists>rs ds. cs = rs @ ds \<and> ds \<noteq> [] \<and> open (path_of True rs) = Some r"
  using assms
proof (induction cs rule: rev_induct)
  case (snoc c cs)
  show ?case
  proof (cases "open (path_of True cs)")
    case None
    with snoc.prems detectRepo_step [of cs c "open"]
    have "detectRepo open (path_of True cs) = Some r" by simp
    with snoc obtain rs ds where "cs = rs @ ds" "open (path_of True rs) = Some r" by auto
    then show ?thesis by (intro exI [of _ rs] exI [of _ "ds @ [c]"]) simp
  next
    case (Some r')
    with snoc.prems detectRepo_step [of cs c "open"] show ?thesis by auto
  qed
qed (simp add: detectRepo_root)

text \<open>A file of the directory is in the directory's repository, under the directory's path.\<close>

lemma git_path_at_file:
  assumes sane: "sane_env env" and dir: "filepath_Abs env d = Inr a" "d \<noteq> []" and below: "no_repo_below env a"
    and plain: "p \<noteq> []" "''..'' \<notin> set (strings_Split slash p)"
    and at: "git_path_at env d = Inr rp"
  shows "git_path_at env (filepath_Join [d, p]) = Inr (filepath_Join [rp, p])"
proof -
  let ?cs = "path_comps a" and ?ps = "path_comps p"
  note a = Abs_rooted [OF sane dir(1)]
  have ps: "down_comps ?ps" using plain_rel_comps(2) [OF plain(2)] .
  obtain r w where r: "detectRepo (PlainOpen env) a = Some r" "Worktree r = Inr w"
      "filepath_Rel (WorktreeRoot w) a = Inr rp"
    using at dir(1) by (auto simp: git_path_at_def rbind_Inr_conv split: option.splits)
  obtain rs ds where rs: "?cs = rs @ ds" "ds \<noteq> []" "PlainOpen env (path_of True rs) = Some r"
    using detectRepo_above [of "PlainOpen env" ?cs r] r(1) a by metis
  have down: "down_comps rs" "down_comps ds" using a(2) rs(1) by simp_all
  have root: "WorktreeRoot w = path_of True rs"
    using sane rs(3) r(2) down(1) by (auto simp: sane_env_def)
  have rp: "rp = path_of False ds"
    using r(3) Rel_inside_root [of rs ds] down rs(1,2) a(1) root by simp
  have "PlainOpen env (path_of True (?cs @ take n ?ps)) = None" for n
  proof -
    have "down_comps (take n ?ps)" using ps by (metis append_take_drop_id down_comps_simps(3))
    with below show ?thesis by (simp add: no_repo_below_def)
  qed
  then have "detectRepo (PlainOpen env) (path_of True (?cs @ ?ps)) =
      detectRepo (PlainOpen env) (path_of True ?cs)"
    by (intro detectRepo_below) (use a(2) ps in simp_all)
  with r(1) a(1) have "detectRepo (PlainOpen env) (path_of True (?cs @ ?ps)) = Some r"
    by metis
  then have "git_path_at env (filepath_Join [d, p]) = Inr (path_of False (ds @ ?ps))"
    using Abs_Join [OF sane dir plain] r(2) root rs(1,2) down ps
    by (intro git_path_at_inside [of _ _ rs _ r w]) simp_all
  also have "path_of False (ds @ ?ps) = filepath_Join [rp, p]"
  proof -
    have rel: "\<not> filepath_IsAbs rp" "path_comps rp = ds" using down(2) by (simp_all add: rp)
    then have "rp \<noteq> []" using rs(2) by (auto simp: rp path_of_def path_comps_def clean_comps_def path_step_def)
    from path_comps_Join [OF this plain(2)] rel
    have "path_comps (filepath_Join [rp, p]) = ds @ ?ps" "\<not> filepath_IsAbs (filepath_Join [rp, p])"
      by simp_all
    moreover have "filepath_Clean (filepath_Join [rp, p]) = filepath_Join [rp, p]"
      using \<open>rp \<noteq> []\<close> by (simp add: filepath_Join_two)
    ultimately show ?thesis by (simp add: filepath_Clean_def)
  qed
  finally show ?thesis .
qed

interpretation git_registry: registry_client git_summary git_made "git_MakeSummary env ord"
    NewPathChecker "git_checker_for env" "git_path_at env" "git_checker env ord" for env ord
  by unfold_locales (simp add: git_checker_def)

lemma git_DetectVCS_SomeD:
  assumes "git_DetectVCS env ord d = Inr (Some r0)"
  shows "\<exists>ch s0. git_checker_for env d [] ch \<and>
    fst (git_MakeSummary env ord (NewPathChecker d [])) = Inr s0 \<and>
    r0 = (NewPathCheckerRegistry d NewPathChecker)\<lparr>pathChecker := Some ch, cachedSummary := Some s0,
      fromRepoRoot := SummaryPath (SummaryCommon s0)\<rparr>"
proof -
  obtain q ch where q: "git_DetectRepo env (NewPathChecker d []) = (q, ch)" by fastforce
  have own: "git_checker_for env d [] ch"
    using git_checker_for_DetectRepo [OF git_checker_for_new, of env d "[]"] q by simp
  obtain m ch' where m: "git_MakeSummary env ord ch = (m, ch')" by fastforce
  have own': "git_checker_for env d [] ch'"
    using git_checker_for_MakeSummary [OF own, of ord] m by simp
  have same: "m = fst (git_MakeSummary env ord (NewPathChecker d []))"
    using git_paths.mk_answer [OF own, of ord] m by simp
  from assms obtain s0 where "m = Inr s0"
      "r0 = (NewPathCheckerRegistry d NewPathChecker)\<lparr>pathChecker := Some ch', cachedSummary := Some s0,
        fromRepoRoot := SummaryPath (SummaryCommon s0)\<rparr>"
    by (auto simp: git_DetectVCS_def DetectVCS_def git_checker_def q m registry_init_def rbind_Inr_conv
        rmap_Inr_conv split: if_splits)
  with own' same show ?thesis by metis
qed

text \<open>
  C18: what \<open>tape\<close> does about the manifests under version control works out: for a directory that
  is tracked in a git repository, with no repository nested in it, once a list of manifests in it
  is registered and each can be summarised, \<open>AssociateCoreStatements\<close> succeeds, whatever order
  the registry is iterated in.  It adds one statement, whose subjects are exactly the registered
  manifests that have a digest, by their paths from the root of the repository, in ascending
  order of path.
\<close>

theorem core_statement_over_git:
  assumes "sane_env env" and "git_DetectVCS env ord d = Inr (Some r0)"
    and "filepath_Abs env d = Inr a" and "d \<noteq> []" and "no_repo_below env a"
    and "rfold (\<lambda>(p, dg). Register p dg) pds r0 = Inr r"
    and "\<And>p dg. (p, dg) \<in> set pds \<Longrightarrow> p \<noteq> [] \<and> ''..'' \<notin> set (strings_Split slash p) \<and>
      (\<exists>s. fst (git_MakeSummary env ord (NewPathChecker (filepath_Join [d, p]) dg)) = Inr s)"
  shows "\<exists>st r'. AssociateCoreStatements git_summary (git_checker env ord) c r = (Inr (), r') \<and>
    statements r' = [st] \<and> GetType st = ManifestDirPredicateType \<and>
    mset (Subjects st) = {# MakeSubject (filepath_Join [fromRepoRoot r0, p]) dg.
      (p, dg) \<in># filter_mset (\<lambda>(p, dg). dg \<noteq> []) (mset pds) #} \<and>
    sorted (map Name (Subjects st))"
proof -
  obtain ch s0 where own: "git_checker_for env d [] ch"
    and s0: "fst (git_MakeSummary env ord (NewPathChecker d [])) = Inr s0"
    and r0: "r0 = (NewPathCheckerRegistry d NewPathChecker)\<lparr>pathChecker := Some ch, cachedSummary := Some s0,
      fromRepoRoot := SummaryPath (SummaryCommon s0)\<rparr>"
    using git_DetectVCS_SomeD [OF assms(2)] by blast
  have at: "git_path_at env d = Inr (fromRepoRoot r0)"
    using git_MakeSummary_new [OF s0] by (simp add: r0)
  have base: "registry r0 = []" "newPathChecker r0 = NewPathChecker" "fromWorkDir r0 = d" "statements r0 = []"
    "pathChecker r0 = Some ch"
    by (simp_all add: r0 NewPathCheckerRegistry_def)
  from assms(6) have "register_all pds r0 = Inr r" by (simp add: register_all_def)
  then have dist: "distinct (map (\<lambda>(p, dg). (pathFromRepoRoot r0 p, dg)) pds)"
    and r: "r = r0\<lparr>registry := map (\<lambda>(p, dg). ((pathFromRepoRoot r0 p, dg),
        NewPathChecker (pathFromWorkDir r0 p) dg)) pds\<rparr>"
    by (simp_all add: register_all_Inr base)
  have paths: "pathFromRepoRoot r = pathFromRepoRoot r0" "pathFromWorkDir r p = filepath_Join [d, p]"
    "fromWorkDir r = d" for p
    by (simp_all add: r pathFromRepoRoot_def [abs_def] pathFromWorkDir_def base(3))
  have "git_registry.registered env r pds"
    unfolding git_registry.registered_def paths
    using dist own by (auto simp: r base list_all2_conv_all_nth case_prod_unfold comp_def pathFromWorkDir_def)
  moreover have "(\<exists>s. fst (git_MakeSummary env ord (NewPathChecker (pathFromWorkDir r p) dg)) = Inr s) \<and>
      git_path_at env (pathFromWorkDir r p) = Inr (pathFromRepoRoot r p)" if "(p, dg) \<in> set pds" for p dg
    using git_path_at_file [OF assms(1,3,4,5) _ _ at] assms(7) [OF that]
    by (simp add: paths pathFromRepoRoot_def)
  moreover have "statements r = []" by (simp add: r base)
  ultimately obtain st r' where "AssociateCoreStatements git_summary (git_checker env ord) c r = (Inr (), r')"
      "statements r' = [st]" "GetType st = ManifestDirPredicateType"
      "mset (Subjects st) = {# MakeSubject (pathFromRepoRoot r p) dg. (p, dg) \<in># filter_mset (\<lambda>(p, dg). dg \<noteq> []) (mset pds) #}"
      "sorted (map Name (Subjects st))"
    using git_registry.core_statement [of env r pds ord s0 c] s0 paths(3) by fastforce
  then show ?thesis
    by (intro exI [of _ st] exI [of _ r']) (simp add: paths(1) pathFromRepoRoot_def)
qed

text \<open>A directory \<open>k8s\<close> with one manifest, tracked and unmodified.\<close>

definition sample_tracked :: git_env where
  "sample_tracked = sample_env (sample_repo [(''k8s/a.yaml'', ''x'')] [(''k8s/a.yaml'', ''x'')] [])"

lemma path_r: "''/r'' = path_of True [''r'']"
  by (simp add: path_of_def slash_def)

lemma sample_sane: "sane_env sample_tracked"
proof -
  have "path_of True cs = ''/r'' \<Longrightarrow> ''/r'' = path_of True cs" for cs by simp
  then show ?thesis
    by (auto simp: sane_env_def sample_tracked_def sample_env_def sample_repo_def filepath_IsAbs_def
        slash_def split: if_splits)
qed

lemma sample_no_repo_below: "no_repo_below sample_tracked ''/r/k8s''"
proof -
  have comps: "path_comps ''/r/k8s'' = [''r'', ''k8s'']"
    using path_comps_path_of [of True "[''r'', ''k8s'']"] by (simp add: path_of_def slash_def)
  have "path_of True ([''r'', ''k8s''] @ ds) \<noteq> ''/r''" if "down_comps ds" for ds
    unfolding path_r using that by (subst path_of_inject) (simp_all add: slash_def)
  then show ?thesis by (simp add: no_repo_below_def comps sample_tracked_def sample_env_def)
qed

lemma sample_Join: "filepath_Join [''k8s'', ''a.yaml''] = ''k8s/a.yaml''"
  using Clean_path_of [of False "[''k8s'', ''a.yaml'']"]
  by (simp add: filepath_Join_two slash_def path_of_def)

lemma sample_summarize:
  "repo ca = Some (sample_repo files disk status) \<Longrightarrow> obj ca \<noteq> None \<Longrightarrow>
    \<exists>s. summarize (sample_env r) \<lparr>checker_path = p, checker_digest = dg, cache = Some ca\<rparr> = Inr s"
  by (auto simp: summarize_def deref_def sample_repo_def sample_env_def primaryURLs_def primaryRemoteIndex_def)

lemma sample_dir_summary:
  "\<exists>s. fst (git_MakeSummary sample_tracked in_order (NewPathChecker ''k8s'' [])) = Inr s"
proof -
  obtain ca where ca: "examine sample_tracked ''k8s'' = Inr (Some ca)"
    using sample_check unfolding answers_of_checker(1) [OF git_checker_for_new] sample_tracked_def
    by (auto simp: rmap_Inr_conv split: option.splits)
  from examine_SomeE [OF ca] obtain a r ob where "filepath_Abs sample_tracked ''k8s'' = Inr a"
      "detectRepo (PlainOpen sample_tracked) a = Some r" "repo ca = Some r" "obj ca = Some ob" by metis
  then have "obj ca \<noteq> None"
      "repo ca = Some (sample_repo [(''k8s/a.yaml'', ''x'')] [(''k8s/a.yaml'', ''x'')] [])"
    by (auto simp: sample_tracked_def sample_Abs sample_detectRepo)
  from sample_summarize [OF this(2,1)] ca show ?thesis
    by (simp add: answers_of_checker(2) [OF git_checker_for_new] sample_tracked_def)
qed

lemma sample_file_summary:
  "\<exists>s. fst (git_MakeSummary sample_tracked in_order (NewPathChecker ''k8s/a.yaml'' dg)) = Inr s"
proof -
  let ?repo = "sample_repo [(''k8s/a.yaml'', ''x'')] [(''k8s/a.yaml'', ''x'')] []"
  let ?p = "[''r'', ''k8s'', ''a.yaml'']"
  have abs: "filepath_Abs sample_tracked ''k8s/a.yaml'' = Inr ''/r/k8s/a.yaml''"
    using Clean_path_of [of True ?p]
    by (simp add: filepath_Abs_def filepath_Join_two filepath_IsAbs_def slash_def path_of_def
        sample_tracked_def sample_env_def)
  have none: "PlainOpen sample_tracked ''/r/k8s'' = None"
    by (simp add: sample_tracked_def sample_env_def)
  have found: "detectRepo (PlainOpen sample_tracked) ''/r/k8s/a.yaml'' = Some ?repo"
    using detectRepo_step [of "[''r'', ''k8s'']" "''a.yaml''" "PlainOpen sample_tracked"] none
      sample_detectRepo [of ?repo]
    by (simp add: path_of_def slash_def sample_tracked_def)
  have rel: "filepath_Rel ''/r'' ''/r/k8s/a.yaml'' = Inr ''k8s/a.yaml''"
    using Rel_inside_root [of "[''r'']" "[''k8s'', ''a.yaml'']"] by (simp add: path_of_def slash_def)
  have find: "findByPath ?repo ''k8s/a.yaml'' = Inr (Some (Blob ''x''))"
    by (simp add: findByPath_def sample_repo_def gm_get_def)
  obtain w where w: "Worktree ?repo = Inr w" "WorktreeRoot w = ''/r''" "ReadFile w ''k8s/a.yaml'' = Inr ''x''"
    by (simp add: sample_repo_def gm_get_def)
  have "ComputeHash sample_tracked ''x'' = ''x''" by (simp add: sample_tracked_def sample_env_def)
  with abs found rel find w obtain ca where ca: "examine sample_tracked ''k8s/a.yaml'' = Inr (Some ca)"
      "repo ca = Some ?repo" "obj ca \<noteq> None"
    by (simp add: examine_def check_object_def isBlobUnmodified_def Let_def)
  from sample_summarize [OF ca(2,3)] ca(1) show ?thesis
    by (simp add: answers_of_checker(2) [OF git_checker_for_new] sample_tracked_def)
qed

lemma sample_detected:
  "\<exists>r0. git_DetectVCS sample_tracked in_order ''k8s'' = Inr (Some r0)"
proof -
  obtain s where s: "fst (git_MakeSummary sample_tracked in_order (NewPathChecker ''k8s'' [])) = Inr s"
    using sample_dir_summary by blast
  obtain ch where ch: "git_DetectRepo sample_tracked (NewPathChecker ''k8s'' []) = (Inr True, ch)"
    by (simp add: git_DetectRepo_def NewPathChecker_def sample_Abs sample_detectRepo sample_tracked_def)
  have "git_checker_for sample_tracked ''k8s'' [] ch"
    using git_checker_for_DetectRepo [OF git_checker_for_new, of sample_tracked "''k8s''" "[]"] ch by simp
  from git_paths.mk_answer [OF this, of in_order] s
  obtain ch' where "git_MakeSummary sample_tracked in_order ch = (Inr s, ch')"
    by (cases "git_MakeSummary sample_tracked in_order ch") auto
  with ch show ?thesis
    by (simp add: git_DetectVCS_def DetectVCS_def git_checker_def registry_init_def)
qed

theorem core_statement_over_git_witness:
  "\<exists>r0 r st r'. git_DetectVCS sample_tracked in_order ''k8s'' = Inr (Some r0) \<and>
     Register ''a.yaml'' ''d1'' r0 = Inr r \<and>
     AssociateCoreStatements git_summary (git_checker sample_tracked in_order) (\<lambda>_. in_order) r = (Inr (), r') \<and>
     statements r' = [st] \<and> length (Subjects st) = 1"
proof -
  obtain r0 where r0: "git_DetectVCS sample_tracked in_order ''k8s'' = Inr (Some r0)"
    using sample_detected by blast
  from git_DetectVCS_SomeD [OF this] have "registry r0 = []"
    by (auto simp: NewPathCheckerRegistry_def)
  then obtain r where r: "Register ''a.yaml'' ''d1'' r0 = Inr r"
    using Register_Inr_iff [of "''a.yaml''" "''d1''" r0] by auto
  then have "rfold (\<lambda>(p, dg). Register p dg) [(''a.yaml'', ''d1'')] r0 = Inr r" by simp
  moreover have "filepath_Abs sample_tracked ''k8s'' = Inr ''/r/k8s''"
    by (simp add: sample_Abs sample_tracked_def)
  ultimately obtain st r' where
      "AssociateCoreStatements git_summary (git_checker sample_tracked in_order) (\<lambda>_. in_order) r = (Inr (), r')"
      "statements r' = [st]"
      "mset (Subjects st) = {# MakeSubject (filepath_Join [fromRepoRoot r0, p]) dg.
         (p, dg) \<in># filter_mset (\<lambda>(p, dg). dg \<noteq> []) (mset [(''a.yaml'', ''d1'')]) #}"
    using core_statement_over_git [OF sample_sane r0 _ _ sample_no_repo_below, of "[(''a.yaml'', ''d1'')]" r "\<lambda>_. in_order"]
      sample_file_summary [of "''d1''"] by (auto simp: sample_Join slash_def)
  moreover from this(3) have "size (mset (Subjects st)) = 1" by simp
  ultimately show ?thesis using r0 r by (metis size_mset)
qed

end
