(* ===== verification/Oci_Client.thy ===== *)
theory Oci_Client
  imports Go_Strings Prelude
begin

section \<open>The client of OCI registries\<close>

text \<open>
  The package \<open>oci\<close> without the artefacts (\<open>oci/oci.go\<close>): what the client asks a
  registry and how it checks the answers.  go-containerregistry's \<open>remote\<close>, \<open>crane\<close> and
  \<open>name\<close> packages and the registry behind them are the parameter \<open>remote\<close>: its operations
  read a registry state of type \<open>'w\<close>, and those that write return the new state with their
  result.  A \<open>Hash\<close> is its string form, and parsed references are of type \<open>'r\<close>.
\<close>

subsection \<open>Descriptors, manifests, images\<close>

record Platform =
  Architecture :: string
  OS :: string
  OSVersion :: string
  Variant :: string

record Descriptor =
  MediaType :: string
  DescriptorSize :: int
  DescriptorDigest :: string
  ArtifactType :: string
  DescriptorPlatform :: "Platform option"
  DescriptorAnnotations :: "(string, string) gomap"

record oci_Manifest =
  ConfigMediaType :: string
  Layers :: "Descriptor list"
  ManifestAnnotations :: "(string, string) gomap"

record IndexManifest =
  Manifests :: "Descriptor list"
  IndexAnnotations :: "(string, string) gomap"

text \<open>
  \<open>Layer\<close>, \<open>Image\<close> and \<open>ImageIndex\<close> are interfaces; a value of theirs is the record of the
  answers its methods give.
\<close>

record v1_Layer =
  LayerDigest :: string
  LayerMediaType :: string
  LayerSize :: int
  Compressed :: "string res"

record v1_Image =
  ImageManifest :: "oci_Manifest res"
  ImageDigest :: "string res"
  LayerByDigest :: "string \<Rightarrow> v1_Layer res"

record v1_ImageIndex =
  get_IndexManifest :: "IndexManifest res"
  IndexDigest :: "string res"
  IndexImage :: "string \<Rightarrow> v1_Image res"

record Metadata =
  URL :: string
  MetadataDigest :: string

record ('w, 'r) remote =
  ParseReference :: "string \<Rightarrow> 'r res"
  remote_Head :: "'r \<Rightarrow> 'w \<Rightarrow> Descriptor res"
  remote_Index :: "'r \<Rightarrow> 'w \<Rightarrow> v1_ImageIndex res"
  remote_Get :: "'r \<Rightarrow> 'w \<Rightarrow> v1_Image res res"
  crane_Digest :: "string \<Rightarrow> 'w \<Rightarrow> string res"
  crane_Copy :: "string \<Rightarrow> string \<Rightarrow> 'w \<Rightarrow> unit res \<times> 'w"
  crane_Pull :: "string \<Rightarrow> 'w \<Rightarrow> v1_Image res"
  crane_ListTags :: "string \<Rightarrow> 'w \<Rightarrow> string list res"
  crane_Manifest :: "string \<Rightarrow> 'w \<Rightarrow> unit res"
  NewRepository :: "string \<Rightarrow> string res"
  repo_Tag :: "string \<Rightarrow> string \<Rightarrow> 'r"
  ref_String :: "'r \<Rightarrow> string"
  WriteIndex :: "'r \<Rightarrow> v1_ImageIndex \<Rightarrow> 'w \<Rightarrow> unit res \<times> 'w"
  remote_Tag :: "'r \<Rightarrow> v1_ImageIndex \<Rightarrow> 'w \<Rightarrow> unit res \<times> 'w"

definition OCIImageIndex :: string where
  "OCIImageIndex = ''application/vnd.oci.image.index.v1+json''"

definition DockerManifestList :: string where
  "DockerManifestList = ''application/vnd.docker.distribution.manifest.list.v2+json''"

subsection \<open>Operations\<close>

definition client_Digest :: "('w, 'r) remote \<Rightarrow> string \<Rightarrow> 'w \<Rightarrow> string res" where
  "client_Digest R ref w = crane_Digest R ref w"

definition client_Copy ::
    "('w, 'r) remote \<Rightarrow> string \<Rightarrow> string \<Rightarrow> string \<Rightarrow> 'w \<Rightarrow> unit res \<times> 'w" where
  "client_Copy R srcRef dstRef digest w =
     (case crane_Copy R srcRef dstRef w of
        (Inl e, w') \<Rightarrow> (Inl e, w')
      | (Inr _, w') \<Rightarrow>
          (case crane_Digest R dstRef w' of
             Inl e \<Rightarrow> (Inl e, w')
           | Inr newDigest \<Rightarrow>
               if digest \<noteq> newDigest then (Inl (Fail (CopyDigestMismatch digest newDigest)), w')
               else (Inr (), w')))"

text \<open>The three results are an index with its manifest, or an image; the others are nil.\<close>

definition GetIndexOrImage ::
    "('w, 'r) remote \<Rightarrow> string \<Rightarrow> 'w
      \<Rightarrow> (v1_ImageIndex option \<times> IndexManifest option \<times> v1_Image option) res" where
  "GetIndexOrImage R ref w =
     rbind (wrap (''invalid URL '' @ ref) (ParseReference R ref)) (\<lambda>parsedRef.
     rbind (remote_Head R parsedRef w) (\<lambda>head.
     if MediaType head = OCIImageIndex \<or> MediaType head = DockerManifestList then
       rbind (wrap (''failed to get index for '' @ ref) (remote_Index R parsedRef w)) (\<lambda>imageIndex.
       rbind (wrap (''failed to get index manifest for '' @ ref) (get_IndexManifest imageIndex))
         (\<lambda>indexManifest.
       if length (Manifests indexManifest) = 0 then Inl (Fail (NoManifests ref))
       else Inr (Some imageIndex, Some indexManifest, None)))
     else
       rbind (wrap (''failed to get descriptor for '' @ ref) (remote_Get R parsedRef w)) (\<lambda>descriptor.
       rbind (wrap (''failed to get image index for '' @ ref) descriptor) (\<lambda>img.
       Inr (None, None, Some img)))))"

definition Pull :: "('w, 'r) remote \<Rightarrow> string \<Rightarrow> 'w \<Rightarrow> v1_Image res" where
  "Pull R ref w = crane_Pull R ref w"

text \<open>
  The vendored \<open>List\<close> of fluxcd.  The regular expression of \<open>ListRelated\<close> is an anchored literal
  prefix (a digest has no characters that are special in one), so matching it is
  \<open>strings_HasPrefix\<close>; the filter by semantic version is not used.  The annotations that
  \<open>List\<close> also reads into the metadata are not used by the program.
\<close>

definition IsCosignArtifact :: "string \<Rightarrow> bool" where
  "IsCosignArtifact tag \<longleftrightarrow> list_ex (strings_HasSuffix tag) [''.att'', ''.sbom'', ''.sig'']"

definition list_tag :: "('w, 'r) remote \<Rightarrow> string \<Rightarrow> 'w \<Rightarrow> string \<Rightarrow> Metadata res" where
  "list_tag R url w tag =
     (let u = url @ '':'' @ tag
      in rbind (wrap ''fetching manifest failed'' (crane_Manifest R u w)) (\<lambda>_.
         rbind (wrap ''fetching digest failed'' (crane_Digest R u w)) (\<lambda>digest.
         Inr \<lparr>URL = u, MetadataDigest = digest\<rparr>)))"

definition list_tags ::
    "('w, 'r) remote \<Rightarrow> string \<Rightarrow> string \<Rightarrow> bool \<Rightarrow> 'w \<Rightarrow> Metadata list res" where
  "list_tags R url tagPrefix IncludeCosignArtifacts w =
     rbind (wrap ''listing tags failed'' (crane_ListTags R url w)) (\<lambda>tags.
     rmap_list (list_tag R url w)
       (filter (\<lambda>tag. (IncludeCosignArtifacts \<or> \<not> IsCosignArtifact tag)
                 \<and> strings_HasPrefix tag tagPrefix)
         (rev (sort tags))))"

definition ListRelated :: "('w, 'r) remote \<Rightarrow> string \<Rightarrow> string \<Rightarrow> 'w \<Rightarrow> Metadata list res" where
  "ListRelated R ref digest w =
     (let tagPrefix = strings_Join (strings_Split CHR '':'' digest) ''-''
      in list_tags R ref tagPrefix True w)"

subsection \<open>What the operations do\<close>

lemma client_Copy_cases [res_simps]:
  "client_Copy R src dst digest w = (Inr (), w') \<longleftrightarrow>
     crane_Copy R src dst w = (Inr (), w') \<and> crane_Digest R dst w' = Inr digest"
  by (auto simp: client_Copy_def split: prod.splits sum.splits)

lemma GetIndexOrImage_Inr:
  assumes "GetIndexOrImage R ref w = Inr (ii, im, i)"
  shows "(\<exists>x m. ii = Some x \<and> im = Some m \<and> i = None \<and> get_IndexManifest x = Inr m \<and> Manifests m \<noteq> [])
    \<or> (\<exists>x. ii = None \<and> im = None \<and> i = Some x)"
  using assms by (auto simp: GetIndexOrImage_def res_simps split: if_splits)

text \<open>
  \<open>ListRelated\<close> finds a tag exactly when the repository has it and it carries the digest, with a
  dash for the colon, as its prefix; the tags come in descending order.
\<close>

lemma list_tag_Inr [res_simps]:
  "list_tag R url w tag = Inr m \<longleftrightarrow>
     crane_Manifest R (url @ '':'' @ tag) w = Inr ()
     \<and> (\<exists>d. crane_Digest R (url @ '':'' @ tag) w = Inr d
          \<and> m = \<lparr>URL = url @ '':'' @ tag, MetadataDigest = d\<rparr>)"
  by (auto simp: list_tag_def Let_def res_simps)

lemma URL_of_list_tag: "list_tag R url w tag = Inr m \<Longrightarrow> URL m = url @ '':'' @ tag"
  by (auto simp: res_simps)

lemma map_URL_list_tags:
  assumes "rmap_list (list_tag R url w) tags = Inr ms"
  shows "map URL ms = map (\<lambda>t. url @ '':'' @ t) tags"
proof -
  have "list_all2 (\<lambda>t m. list_tag R url w t = Inr m) tags ms"
    using assms by (simp add: rmap_list_Inr_conv)
  then show ?thesis
    by (induction rule: list_all2_induct) (auto dest: URL_of_list_tag)
qed

lemma filter_rev_sort:
  "filter P (rev (sort xs)) = rev (sort (filter P (xs :: 'a::linorder list)))"
  by (simp add: filter_sort flip: rev_filter)

lemma related_tag_prefix:
  "CHR '':'' \<notin> set alg \<Longrightarrow> CHR '':'' \<notin> set h
    \<Longrightarrow> strings_Join (strings_Split CHR '':'' (alg @ '':'' @ h)) ''-'' = alg @ ''-'' @ h"
  by (simp add: strings_Split_append_sep strings_Split_single)

text \<open>\<open>ListRelated\<close> lists exactly the tags of the repository that begin with the digest written
  with a dash, each with the digest the registry has for it, and in descending order.\<close>

lemma ListRelated_lists_prefixed_tags:
  assumes "ListRelated R ref (alg @ '':'' @ hexDigest) w = Inr ms"
    and "CHR '':'' \<notin> set alg" and "CHR '':'' \<notin> set hexDigest"
  shows "\<exists>tags. crane_ListTags R ref w = Inr tags
    \<and> map URL ms = map (\<lambda>t. ref @ '':'' @ t)
        (rev (sort (filter (\<lambda>t. strings_HasPrefix t (alg @ ''-'' @ hexDigest)) tags)))
    \<and> list_all (\<lambda>m. crane_Digest R (URL m) w = Inr (MetadataDigest m)) ms"
proof -
  let ?P = "\<lambda>t. strings_HasPrefix t (alg @ ''-'' @ hexDigest)"
  obtain tags where tags: "crane_ListTags R ref w = Inr tags"
    and ms: "rmap_list (list_tag R ref w) (filter ?P (rev (sort tags))) = Inr ms"
    using assms(1) unfolding ListRelated_def Let_def related_tag_prefix [OF assms(2,3)] list_tags_def
    by (auto simp: rbind_Inr_conv)
  have "list_all2 (\<lambda>t m. list_tag R ref w t = Inr m) (filter ?P (rev (sort tags))) ms"
    using ms by (simp only: rmap_list_Inr_conv)
  then have "list_all (\<lambda>m. crane_Digest R (URL m) w = Inr (MetadataDigest m)) ms"
    by (induction rule: list_all2_induct) (auto simp: list_tag_Inr)
  with tags map_URL_list_tags [OF ms] show ?thesis
    by (simp add: filter_rev_sort)
qed

subsection \<open>A registry in memory\<close>

text \<open>
  An instance of the parameter: a registry that keeps what is written under its tag and under its
  digest.  The witnesses of the properties run on it.
\<close>

datatype stored = StoredIndex v1_ImageIndex | StoredImage v1_Image

record memory =
  Tags :: "(string, stored) gomap"
  Blobs :: "(string, stored) gomap"

fun stored_Digest :: "stored \<Rightarrow> string res" where
  "stored_Digest (StoredIndex x) = IndexDigest x"
| "stored_Digest (StoredImage i) = ImageDigest i"

definition found :: "string \<Rightarrow> stored option \<Rightarrow> stored res" where
  "found ref x = (case x of Some x \<Rightarrow> Inr x | None \<Rightarrow> Inl (Fail (External (''not found: '' @ ref))))"

definition mem_get :: "string \<Rightarrow> memory \<Rightarrow> stored res" where
  "mem_get ref m =
     (case strings_Index ref CHR ''@'' of
        Some i \<Rightarrow> found ref (gm_get (Blobs m) (drop (Suc i) ref))
      | None \<Rightarrow> found ref (gm_get (Tags m) ref))"

definition mem_tag :: "string \<Rightarrow> stored \<Rightarrow> memory \<Rightarrow> memory" where
  "mem_tag ref x m = m\<lparr>Tags := gm_put ref x (Tags m)\<rparr>"

definition mem_put :: "string \<Rightarrow> stored \<Rightarrow> memory \<Rightarrow> unit res \<times> memory" where
  "mem_put ref x m =
     (case stored_Digest x of
        Inl e \<Rightarrow> (Inl e, m)
      | Inr d \<Rightarrow> (Inr (), mem_tag ref x (m\<lparr>Blobs := gm_put d x (Blobs m)\<rparr>)))"

definition mem_remote :: "(memory, string) remote" where
  "mem_remote =
     \<lparr>ParseReference = Inr,
      remote_Head = (\<lambda>ref m. rbind (mem_get ref m) (\<lambda>x. rmap (\<lambda>d.
        \<lparr>MediaType = (case x of StoredIndex _ \<Rightarrow> OCIImageIndex | StoredImage _ \<Rightarrow> []),
         DescriptorSize = 0, DescriptorDigest = d, ArtifactType = [], DescriptorPlatform = None,
         DescriptorAnnotations = []\<rparr>) (stored_Digest x))),
      remote_Index = (\<lambda>ref m. rbind (mem_get ref m)
        (\<lambda>x. case x of StoredIndex i \<Rightarrow> Inr i | StoredImage _ \<Rightarrow> Inl (Fail (External ref)))),
      remote_Get = (\<lambda>ref m. rmap
        (\<lambda>x. case x of StoredImage i \<Rightarrow> Inr i | StoredIndex _ \<Rightarrow> Inl (Fail (External ref))) (mem_get ref m)),
      crane_Digest = (\<lambda>ref m. rbind (mem_get ref m) stored_Digest),
      crane_Copy = (\<lambda>src dst m.
        case mem_get src m of Inl e \<Rightarrow> (Inl e, m) | Inr x \<Rightarrow> (Inr (), mem_tag dst x m)),
      crane_Pull = (\<lambda>ref m. rbind (mem_get ref m)
        (\<lambda>x. case x of StoredImage i \<Rightarrow> Inr i | StoredIndex _ \<Rightarrow> Inl (Fail (External ref)))),
      crane_ListTags = (\<lambda>repo m. Inr (map (\<lambda>(k, _). drop (Suc (length repo)) k)
        (filter (\<lambda>(k, _). strings_HasPrefix k (repo @ '':'')) (Tags m)))),
      crane_Manifest = (\<lambda>ref m. rmap (\<lambda>_. ()) (mem_get ref m)),
      NewRepository = (\<lambda>s. if CHR ''@'' \<in> set s then Inl (Fail (External s)) else Inr s),
      repo_Tag = (\<lambda>repo tag. repo @ '':'' @ tag),
      ref_String = (\<lambda>r. r),
      WriteIndex = (\<lambda>r x. mem_put r (StoredIndex x)),
      remote_Tag = (\<lambda>r x. mem_put r (StoredIndex x))\<rparr>"

lemma gm_get_gm_put: "gm_get (gm_put k v m) j = (if j = k then Some v else gm_get m j)"
  by (simp add: gm_get_def gm_put_def update_conv')

lemma mem_get_digest:
  "CHR ''@'' \<notin> set ref \<Longrightarrow> mem_get (ref @ ''@'' @ d) m = found (ref @ ''@'' @ d) (gm_get (Blobs m) d)"
  by (simp add: mem_get_def strings_Index_append)

lemma mem_get_tag: "CHR ''@'' \<notin> set ref \<Longrightarrow> mem_get ref m = found ref (gm_get (Tags m) ref)"
  by (simp add: mem_get_def)

end
