(* ===== verification/Image_Resolver.thy ===== *)
theory Image_Resolver
  imports Image_List Oci_Client
begin

section \<open>Resolving images in a registry\<close>

text \<open>
  The package \<open>manifest/imageresolver\<close>: the digests of the images found in the manifests, the tags
  that belong to them (signatures, SBOMs, attestations) and the manifests of their indexes.
  \<open>RegistryResolver\<close> embeds the OCI client, so its methods take the \<open>remote\<close> and the state
  of the registry.
\<close>

subsection \<open>Operations\<close>

definition doResolveDigest :: "('w, 'r) remote \<Rightarrow> 'w \<Rightarrow> image \<Rightarrow> image res" where
  "doResolveDigest R w i =
     rbind (client_Digest R (Ref True i) w) (\<lambda>digest.
     if Digest i \<noteq> [] \<and> Digest i \<noteq> digest then Inl (Fail (DigestMismatch (Digest i) digest))
     else Inr (i\<lparr>Digest := digest\<rparr>))"

text \<open>The items are changed in place: those before the one that fails keep their digest.\<close>

fun resolve_items :: "('w, 'r) remote \<Rightarrow> 'w \<Rightarrow> image list \<Rightarrow> unit res \<times> image list" where
  "resolve_items R w [] = (Inr (), [])"
| "resolve_items R w (i # is) =
     (case doResolveDigest R w i of
        Inl e \<Rightarrow> (Inl e, i # is)
      | Inr i' \<Rightarrow> (case resolve_items R w is of (r, is') \<Rightarrow> (r, i' # is')))"

definition ResolveDigests :: "('w, 'r) remote \<Rightarrow> ImageList \<Rightarrow> 'w \<Rightarrow> unit res \<times> ImageList" where
  "ResolveDigests R images w =
     (case resolve_items R w (items images) of (r, is) \<Rightarrow> (r, images\<lparr>items := is\<rparr>))"

definition located_image :: "string \<Rightarrow> string \<Rightarrow> string \<Rightarrow> string \<Rightarrow> image" where
  "located_image ref name tag digest =
     \<lparr>Sources = [\<lparr>Manifest = [], ManifestDigest = [], Line = 0, Column = 0, NodePath = [], OriginalRef = ref\<rparr>],
      OriginalName = name, OriginalTag = tag, Digest = digest, NewName = [], NewTag = [], Alias = None\<rparr>"

definition related_image :: "Metadata \<Rightarrow> image" where
  "related_image m =
     (case kimage_Split (URL m) of (name, tag, _) \<Rightarrow> located_image (URL m) name tag (MetadataDigest m))"

definition append_related :: "image \<Rightarrow> Metadata \<Rightarrow> ImageList \<Rightarrow> ImageList res" where
  "append_related img m result =
     (if MetadataDigest m = [] then Inl (Fail (RelatedHasNoDigest (URL m)))
      else AppendWithRelationTo img (related_image m) result)"

definition find_related :: "('w, 'r) remote \<Rightarrow> 'w \<Rightarrow> image \<Rightarrow> ImageList \<Rightarrow> ImageList res" where
  "find_related R w img result =
     (if Digest img = [] then Inl (Fail (ImageHasNoDigest (Ref True img)))
      else
        rbind (wrap (''failed to list related tag for '' @ Ref True img)
                (ListRelated R (OriginalName img) (Digest img) w)) (\<lambda>related.
        rfold (append_related img) related result))"

definition FindRelatedTags :: "('w, 'r) remote \<Rightarrow> choices \<Rightarrow> ImageList \<Rightarrow> 'w \<Rightarrow> ImageList res" where
  "FindRelatedTags R c images w =
     rbind (rfold (find_related R w) (items images) (NewImageList (dir images))) (\<lambda>result.
     Dedup c result)"

text \<open>
  \<open>InspectIndexManifest\<close> is a callback of the caller; its effects are on a state of type \<open>'s\<close>.
  It is called before the check that there is an index manifest.
\<close>

type_synonym 's InspectIndexManifest =
  "image \<Rightarrow> v1_ImageIndex option \<Rightarrow> IndexManifest option \<Rightarrow> 's \<Rightarrow> 's res"

definition manifest_image :: "image \<Rightarrow> Descriptor \<Rightarrow> image" where
  "manifest_image img m = located_image (OriginalName img) (OriginalName img) [] (DescriptorDigest m)"

definition find_manifests ::
    "('w, 'r) remote \<Rightarrow> 'w \<Rightarrow> 's InspectIndexManifest option \<Rightarrow> image
      \<Rightarrow> ImageList \<times> 's \<Rightarrow> (ImageList \<times> 's) res" where
  "find_manifests R w inspect img = (\<lambda>(manifests, s).
     rbind (GetIndexOrImage R (Ref True img) w) (\<lambda>(imageIndex, indexManifest, _).
     rbind (case inspect of None \<Rightarrow> Inr s | Some f \<Rightarrow> f img imageIndex indexManifest s) (\<lambda>s.
     case indexManifest of
       None \<Rightarrow> Inl (Fail (NoIndexManifest (Ref True img)))
     | Some im \<Rightarrow>
         rbind (rfold (\<lambda>m. AppendWithRelationTo img (manifest_image img m)) (Manifests im) manifests)
           (\<lambda>manifests. Inr (manifests, s)))))"

definition FindRelatedFromIndecies ::
    "('w, 'r) remote \<Rightarrow> choices \<Rightarrow> ImageList \<Rightarrow> 's InspectIndexManifest option \<Rightarrow> 'w \<Rightarrow> 's
      \<Rightarrow> (ImageList \<times> ImageList \<times> 's) res" where
  "FindRelatedFromIndecies R c images inspect w s =
     rbind (rfold (find_manifests R w inspect) (items images) (NewImageList (dir images), s))
       (\<lambda>(manifests, s).
     rbind (FindRelatedTags R c manifests w) (\<lambda>related.
     Inr (manifests, related, s)))"

subsection \<open>Digests\<close>

lemma doResolveDigest_Inr [res_simps]:
  "doResolveDigest R w i = Inr i' \<longleftrightarrow>
     (\<exists>d. crane_Digest R (Ref True i) w = Inr d \<and> (Digest i = [] \<or> Digest i = d) \<and> i' = i\<lparr>Digest := d\<rparr>)"
  by (auto simp: doResolveDigest_def client_Digest_def res_simps)

definition pinned :: "('w, 'r) remote \<Rightarrow> 'w \<Rightarrow> image \<Rightarrow> image \<Rightarrow> bool" where
  "pinned R w i i' \<longleftrightarrow>
     crane_Digest R (Ref True i) w = Inr (Digest i') \<and> (Digest i = [] \<or> Digest i = Digest i')
     \<and> i' = i\<lparr>Digest := Digest i'\<rparr>"

lemma doResolveDigest_pinned: "doResolveDigest R w i = Inr i' \<longleftrightarrow> pinned R w i i'"
  by (auto simp: pinned_def doResolveDigest_Inr)

lemma resolve_items_pinned:
  "resolve_items R w is = (Inr (), is') \<longleftrightarrow> list_all2 (pinned R w) is is'"
proof (induction "is" arbitrary: is')
  case (Cons i "is")
  show ?case
  proof (cases "doResolveDigest R w i")
    case (Inl e)
    then have "\<not> pinned R w i i'" for i' using doResolveDigest_pinned [of R w i i'] by simp
    with Inl show ?thesis by (auto simp: list_all2_Cons1)
  next
    case (Inr i')
    then have "pinned R w i j \<longleftrightarrow> j = i'" for j using doResolveDigest_pinned [of R w i j] by auto
    with Inr show ?thesis
      by (cases "resolve_items R w is") (auto simp: list_all2_Cons1 Cons.IH [symmetric])
  qed
qed auto

text \<open>C16: Digests are pinned: \<open>ResolveDigests\<close> succeeds exactly when the registry has a digest for the
  reference of every image and a digest that was given in a manifest is the one the registry
  has.  It changes nothing but the digests, which are then those of the registry.\<close>

theorem ResolveDigests_pins_digests:
  "ResolveDigests R images w = (Inr (), images') \<longleftrightarrow>
     list_all2 (\<lambda>i i'. crane_Digest R (Ref True i) w = Inr (Digest i')
         \<and> (Digest i = [] \<or> Digest i = Digest i') \<and> i' = i\<lparr>Digest := Digest i'\<rparr>)
       (items images) (items images')
     \<and> images' = images\<lparr>items := items images'\<rparr>"
proof -
  have "ResolveDigests R images w = (Inr (), images') \<longleftrightarrow>
      (\<exists>is. resolve_items R w (items images) = (Inr (), is) \<and> images' = images\<lparr>items := is\<rparr>)"
    by (auto simp: ResolveDigests_def split: prod.splits)
  also have "\<dots> \<longleftrightarrow> (\<exists>is. list_all2 (pinned R w) (items images) is \<and> images' = images\<lparr>items := is\<rparr>)"
    by (simp only: resolve_items_pinned)
  also have "\<dots> \<longleftrightarrow> list_all2 (pinned R w) (items images) (items images')
      \<and> images' = images\<lparr>items := items images'\<rparr>"
    by (auto simp: exI [of _ "items images'"])
  finally show ?thesis unfolding pinned_def [abs_def] .
qed

subsection \<open>Manifests of indexes\<close>

lemma located_image_simps [simp]:
  "Sources (located_image ref name tag d) =
     [\<lparr>Manifest = [], ManifestDigest = [], Line = 0, Column = 0, NodePath = [], OriginalRef = ref\<rparr>]"
  "OriginalName (located_image ref name tag d) = name" "OriginalTag (located_image ref name tag d) = tag"
  "Digest (located_image ref name tag d) = d"
  by (simp_all add: located_image_def)

lemma wf_located_image [simp]: "wf_image (located_image ref name tag d)"
  by (simp add: wf_image_def key_of_def)

lemma key_of_located_image [simp]: "key_of (located_image ref name tag d) = (ref, d)"
  by (simp add: key_of_def)

lemma rfold_AppendWithRelationTo_iff:
  "rfold (\<lambda>(t, i). AppendWithRelationTo t i) ps l = Inr l' \<longleftrightarrow>
     distinct (map (\<lambda>(t, i). Ref True i) ps)
     \<and> fst ` set (relationEntries l) \<inter> (\<lambda>(t, i). Ref True i) ` set ps = {}
     \<and> l' = l\<lparr>items := items l @ map snd ps,
              relationEntries := relationEntries l @ map (\<lambda>(t, i). (Ref True i, Ref True t)) ps\<rparr>"
proof (induction ps arbitrary: l)
  case (Cons p ps)
  obtain t i where p: "p = (t, i)" by (cases p)
  show ?case
    unfolding p rfold.simps rbind_Inr_conv prod.case AppendWithRelationTo_Inr_iff
    by (auto simp: Cons.IH)
qed auto

text \<open>The images with the manifests of their indexes, in order.\<close>

definition manifest_pairs :: "(image \<times> IndexManifest) list \<Rightarrow> (image \<times> image) list" where
  "manifest_pairs ims = concat (map (\<lambda>(i, im). map (\<lambda>m. (i, manifest_image i m)) (Manifests im)) ims)"

definition has_index :: "('w, 'r) remote \<Rightarrow> 'w \<Rightarrow> image \<Rightarrow> IndexManifest \<Rightarrow> bool" where
  "has_index R w i im \<longleftrightarrow> (\<exists>ii x. GetIndexOrImage R (Ref True i) w = Inr (ii, Some im, x))"

lemma find_manifests_Inr:
  "find_manifests R w None i (l, s) = Inr (l', s') \<longleftrightarrow>
     (\<exists>im. has_index R w i im \<and> s' = s
        \<and> rfold (\<lambda>(t, i). AppendWithRelationTo t i) (manifest_pairs [(i, im)]) l = Inr l')"
  unfolding has_index_def manifest_pairs_def
  by (auto simp: find_manifests_def res_simps rfold_map comp_def split: option.splits)

lemma manifest_pairs_Cons: "manifest_pairs (x # xs) = manifest_pairs [x] @ manifest_pairs xs"
  by (simp add: manifest_pairs_def)

lemma rfold_find_manifests:
  "rfold (find_manifests R w None) is (l, s) = Inr (l', s') \<longleftrightarrow>
     (\<exists>ims. list_all2 (has_index R w) is ims \<and> s' = s
        \<and> rfold (\<lambda>(t, i). AppendWithRelationTo t i) (manifest_pairs (zip is ims)) l = Inr l')"
proof (induction "is" arbitrary: l)
  case (Cons i "is")
  have "rfold (find_manifests R w None) (i # is) (l, s) = Inr (l', s') \<longleftrightarrow>
      (\<exists>l1. (\<exists>im. has_index R w i im
          \<and> rfold (\<lambda>(t, i). AppendWithRelationTo t i) (manifest_pairs [(i, im)]) l = Inr l1)
        \<and> rfold (find_manifests R w None) is (l1, s) = Inr (l', s'))"
    unfolding rfold.simps rbind_Inr_conv split_paired_Ex find_manifests_Inr by blast
  also have "\<dots> \<longleftrightarrow> (\<exists>im ims. has_index R w i im \<and> list_all2 (has_index R w) is ims \<and> s' = s
      \<and> rfold (\<lambda>(t, i). AppendWithRelationTo t i) (manifest_pairs (zip (i # is) (im # ims))) l = Inr l')"
    unfolding Cons.IH zip_Cons_Cons manifest_pairs_Cons [of "(_, _)" "zip _ _"] rfold_append rbind_Inr_conv
    by blast
  also have "\<dots> \<longleftrightarrow> (\<exists>ims. list_all2 (has_index R w) (i # is) ims \<and> s' = s
      \<and> rfold (\<lambda>(t, i). AppendWithRelationTo t i) (manifest_pairs (zip (i # is) ims)) l = Inr l')"
    unfolding list_all2_Cons1 by blast
  finally show ?case .
qed (auto simp: manifest_pairs_def)

text \<open>C31: \<open>FindRelatedFromIndecies\<close> without a callback succeeds exactly when every image is an
  index, no two of them have a manifest with the same name and digest in common, and the tags
  related to the manifests can be found.  The first list then has one image for every manifest,
  in order, related to the image whose index has it.\<close>

theorem FindRelatedFromIndecies_manifests:
  "FindRelatedFromIndecies R c images None w s = Inr (manifests, related, s') \<longleftrightarrow>
     (\<exists>ims. list_all2 (has_index R w) (items images) ims
        \<and> distinct (map (\<lambda>(t, m). Ref True m) (manifest_pairs (zip (items images) ims)))
        \<and> manifests = \<lparr>items = map snd (manifest_pairs (zip (items images) ims)), dir = dir images,
             deduped = False,
             relationEntries = map (\<lambda>(t, m). (Ref True m, Ref True t)) (manifest_pairs (zip (items images) ims))\<rparr>)
     \<and> FindRelatedTags R c manifests w = Inr related \<and> s' = s"
  unfolding FindRelatedFromIndecies_def rbind_Inr_conv split_paired_Ex prod.case
    rfold_find_manifests rfold_AppendWithRelationTo_iff
  by (auto simp: NewImageList_def)

text \<open>
  So two tags of one index in a repository, or two indexes of a repository that share a manifest,
  make it fail.
\<close>

lemma shared_manifest_fails:
  assumes "items images = xs @ i # ys @ j # zs" and "OriginalName i = OriginalName j"
    and "has_index R w i im" and "has_index R w j jm"
    and "m \<in> set (Manifests im)" and "m' \<in> set (Manifests jm)"
    and "DescriptorDigest m = DescriptorDigest m'"
  shows "\<not> (\<exists>r. FindRelatedFromIndecies R c images None w s = Inr r)"
proof
  assume "\<exists>r. FindRelatedFromIndecies R c images None w s = Inr r"
  then obtain manifests s' where
    "rfold (find_manifests R w None) (items images) (NewImageList (dir images), s) = Inr (manifests, s')"
    unfolding FindRelatedFromIndecies_def by (auto simp: rbind_Inr_conv)
  then obtain ims where ims: "list_all2 (has_index R w) (items images) ims"
      "distinct (map (\<lambda>(t, m). Ref True m) (manifest_pairs (zip (items images) ims)))"
    unfolding rfold_find_manifests rfold_AppendWithRelationTo_iff by blast
  obtain as b cs d es where split: "ims = as @ b # cs @ d # es" "list_all2 (has_index R w) xs as"
      "has_index R w i b" "list_all2 (has_index R w) ys cs" "has_index R w j d"
    using ims(1) unfolding assms(1) list_all2_append_left list_all2_Cons1 by blast
  have "b = im" "d = jm" using split(3,5) assms(3,4) by (auto simp: has_index_def)
  then have "zip (items images) ims = zip xs as @ (i, im) # zip ys cs @ (j, jm) # zip zs es"
    using split(2,4) by (simp add: assms(1) split(1) list_all2_lengthD)
  then have "\<exists>as bs cs. manifest_pairs (zip (items images) ims) =
      as @ manifest_pairs [(i, im)] @ bs @ manifest_pairs [(j, jm)] @ cs"
    by (auto simp: manifest_pairs_def)
  moreover have "Ref True (manifest_image i m) = Ref True (manifest_image j m')"
    using assms(2,7) by (simp add: manifest_image_def Ref_def)
  ultimately show False
    using ims(2) assms(5,6) by (auto simp: manifest_pairs_def) blast
qed

subsection \<open>Related tags\<close>

definition related_pairs :: "(image \<times> Metadata list) list \<Rightarrow> (image \<times> image) list" where
  "related_pairs imss = concat (map (\<lambda>(i, ms). map (\<lambda>m. (i, related_image m)) ms) imss)"

definition has_related :: "('w, 'r) remote \<Rightarrow> 'w \<Rightarrow> image \<Rightarrow> Metadata list \<Rightarrow> bool" where
  "has_related R w i ms \<longleftrightarrow>
     Digest i \<noteq> [] \<and> ListRelated R (OriginalName i) (Digest i) w = Inr ms
     \<and> list_all (\<lambda>m. MetadataDigest m \<noteq> []) ms"

lemma rfold_append_related:
  "rfold (append_related i) ms l = Inr l' \<longleftrightarrow>
     list_all (\<lambda>m. MetadataDigest m \<noteq> []) ms
     \<and> rfold (\<lambda>(t, i). AppendWithRelationTo t i) (map (\<lambda>m. (i, related_image m)) ms) l = Inr l'"
  by (induction ms arbitrary: l) (auto simp: append_related_def res_simps)

lemma find_related_Inr:
  "find_related R w i l = Inr l' \<longleftrightarrow>
     (\<exists>ms. has_related R w i ms
        \<and> rfold (\<lambda>(t, i). AppendWithRelationTo t i) (related_pairs [(i, ms)]) l = Inr l')"
  unfolding has_related_def related_pairs_def
  by (auto simp: find_related_def res_simps rfold_append_related)

lemma rfold_find_related:
  "rfold (find_related R w) is l = Inr l' \<longleftrightarrow>
     (\<exists>mss. list_all2 (has_related R w) is mss
        \<and> rfold (\<lambda>(t, i). AppendWithRelationTo t i) (related_pairs (zip is mss)) l = Inr l')"
proof (induction "is" arbitrary: l)
  case (Cons i "is")
  have Cons_pairs: "related_pairs (x # xs) = related_pairs [x] @ related_pairs xs" for x xs
    by (simp add: related_pairs_def)
  have "rfold (find_related R w) (i # is) l = Inr l' \<longleftrightarrow>
      (\<exists>ms mss. has_related R w i ms \<and> list_all2 (has_related R w) is mss
        \<and> rfold (\<lambda>(t, i). AppendWithRelationTo t i) (related_pairs (zip (i # is) (ms # mss))) l = Inr l')"
    unfolding rfold.simps rbind_Inr_conv find_related_Inr Cons.IH
      zip_Cons_Cons Cons_pairs [of "(_, _)" "zip _ _"] rfold_append by blast
  also have "\<dots> \<longleftrightarrow> (\<exists>mss. list_all2 (has_related R w) (i # is) mss
      \<and> rfold (\<lambda>(t, i). AppendWithRelationTo t i) (related_pairs (zip (i # is) mss)) l = Inr l')"
    unfolding list_all2_Cons1 by blast
  finally show ?case .
qed (auto simp: related_pairs_def)

lemma related_image_simps:
  "Sources (related_image m) =
     [\<lparr>Manifest = [], ManifestDigest = [], Line = 0, Column = 0, NodePath = [], OriginalRef = URL m\<rparr>]"
  "Digest (related_image m) = MetadataDigest m" "wf_image (related_image m)"
  "key_of (related_image m) = (URL m, MetadataDigest m)"
  by (simp_all add: related_image_def split: prod.splits)

lemma Ref_related_image:
  "key_of (related_image m) = key_of (related_image m') \<Longrightarrow> Ref True (related_image m) = Ref True (related_image m')"
  unfolding related_image_simps by (simp add: related_image_def)

lemma snd_related_pairs: "snd ` set (related_pairs imss) = related_image ` set (concat (map snd imss))"
  by (force simp: related_pairs_def)

lemma map_snd_related_pairs: "map snd (related_pairs imss) = map related_image (concat (map snd imss))"
  by (induction imss) (auto simp: related_pairs_def)

text \<open>Deduplicating images that are different already only reorders them and makes their aliases.\<close>

lemma Dedup_distinct:
  assumes "distinct (map key_of (items l))" and "all_digests l" and "list_all wf_image (items l)"
    and "\<not> deduped l"
  shows "\<exists>l'. Dedup c l = Inr l' \<and> mset (map key_of (items l')) = mset (map key_of (items l))
    \<and> relationEntries l' = relationEntries l \<and> dir l' = dir l \<and> all_digests l'"
proof -
  have wf: "\<forall>i\<in>set (items l). wf_image i" using assms(3) by (simp add: list_all_iff)
  then have "\<forall>i\<in>set (items l). Sources i \<noteq> []" by (simp add: wf_image_def)
  then obtain out where out: "dedup_items c (items l) = Inr out" using dedup_items_Inr by blast
  let ?l = "l\<lparr>items := out, deduped := True\<rparr>"
  have keys: "map key_of (items (MakeAliases ?l)) = map key_of out"
    by (subst map_items_MakeAliases) simp_all
  have "mset (map key_of out) = mset (map key_of (items l))"
    using dedup_items_spec(1,2) [OF wf out] assms(1) by (simp only: set_eq_iff_mset_eq_distinct [symmetric])
  then have mset_keys: "mset (map key_of (items (MakeAliases ?l))) = mset (map key_of (items l))"
    unfolding keys .
  have "all_digests l'" if "mset (map key_of (items l')) = mset (map key_of (items l))" for l'
  proof -
    have "snd ` set (map key_of (items l')) = snd ` set (map key_of (items l))"
      using that by (metis mset_eq_setD)
    then have "Digest ` set (items l') = Digest ` set (items l)"
      by (simp add: image_image key_of_def)
    then show ?thesis using assms(2) unfolding all_digests_def by (metis imageE image_eqI)
  qed
  with mset_keys have "all_digests (MakeAliases ?l)" by blast
  then show ?thesis
    using assms(2,4) out mset_keys by (simp add: Dedup_all_digests)
qed

text \<open>\<open>FindRelatedTags\<close> succeeds exactly when every image has a digest, its related tags can be
  listed and have digests, and no tag is found twice.  Then the list has exactly the tags found,
  each with the digest the registry has for it, and its relation leads from each tag to the
  image it was found for.\<close>

theorem FindRelatedTags_finds:
  "case FindRelatedTags R c images w of
     Inl e \<Rightarrow>
       \<not> (\<exists>mss. list_all2 (has_related R w) (items images) mss
            \<and> distinct (map (\<lambda>(t, i). Ref True i) (related_pairs (zip (items images) mss))))
   | Inr l \<Rightarrow>
       (\<exists>mss. list_all2 (has_related R w) (items images) mss
          \<and> mset (map key_of (items l)) = mset (map (\<lambda>m. (URL m, MetadataDigest m)) (concat mss))
          \<and> relationEntries l =
              map (\<lambda>(t, i). (Ref True i, Ref True t)) (related_pairs (zip (items images) mss))
          \<and> dir l = dir images \<and> all_digests l)"
proof -
  let ?found = "\<lambda>mss. \<lparr>items = map snd (related_pairs (zip (items images) mss)), dir = dir images,
      deduped = False,
      relationEntries = map (\<lambda>(t, i). (Ref True i, Ref True t)) (related_pairs (zip (items images) mss))\<rparr>"
  let ?ok = "\<lambda>mss. list_all2 (has_related R w) (items images) mss
      \<and> distinct (map (\<lambda>(t, i). Ref True i) (related_pairs (zip (items images) mss)))"
  have run: "rfold (find_related R w) (items images) (NewImageList (dir images)) = Inr l \<longleftrightarrow>
      (\<exists>mss. ?ok mss \<and> l = ?found mss)" for l
    unfolding rfold_find_related rfold_AppendWithRelationTo_iff by (auto simp: NewImageList_def)
  have dedup: "\<exists>l. Dedup c (?found mss) = Inr l
      \<and> mset (map key_of (items l)) = mset (map (\<lambda>m. (URL m, MetadataDigest m)) (concat mss))
      \<and> relationEntries l = relationEntries (?found mss) \<and> dir l = dir images \<and> all_digests l"
    if ok: "?ok mss" for mss
  proof -
    have items: "items (?found mss) = map related_image (concat mss)"
      using list_all2_lengthD [OF conjunct1 [OF ok]] by (simp add: map_snd_related_pairs)
    have keys: "map key_of (items (?found mss)) = map (\<lambda>m. (URL m, MetadataDigest m)) (concat mss)"
      unfolding items by (simp add: comp_def related_image_simps)
    have "map (\<lambda>(t, i). Ref True i) (related_pairs (zip (items images) mss)) =
        map (Ref True) (items (?found mss))" by (simp add: comp_def case_prod_unfold)
    then have "distinct (map (Ref True) (items (?found mss)))"
      using conjunct2 [OF ok] by (simp only:)
    then have "distinct (map (Ref True \<circ> related_image) (concat mss))"
      unfolding items map_map .
    then have "distinct (map (key_of \<circ> related_image) (concat mss))"
      unfolding distinct_map inj_on_def comp_def using Ref_related_image by blast
    then have "distinct (map key_of (items (?found mss)))" unfolding items by simp
    moreover have "list_all (\<lambda>m. MetadataDigest m \<noteq> []) (concat mss)"
      using conjunct1 [OF ok] by (induction rule: list_all2_induct) (auto simp: has_related_def)
    then have "all_digests (?found mss)"
      unfolding all_digests_def items by (auto simp: list_all_iff related_image_simps)
    moreover have "list_all wf_image (items (?found mss))"
      unfolding items by (auto simp: list_all_iff related_image_simps)
    moreover have "\<not> deduped (?found mss)" by simp
    ultimately have "\<exists>l. Dedup c (?found mss) = Inr l
        \<and> mset (map key_of (items l)) = mset (map key_of (items (?found mss)))
        \<and> relationEntries l = relationEntries (?found mss) \<and> dir l = dir (?found mss) \<and> all_digests l"
      by (intro Dedup_distinct)
    then show ?thesis unfolding keys by simp
  qed
  show ?thesis
  proof (cases "\<exists>mss. ?ok mss")
    case True
    then obtain mss where "?ok mss" by blast
    moreover then have "rfold (find_related R w) (items images) (NewImageList (dir images)) = Inr (?found mss)"
      using run by blast
    ultimately show ?thesis using dedup [of mss] by (auto simp: FindRelatedTags_def)
  next
    case False
    then show ?thesis
      using run by (cases "rfold (find_related R w) (items images) (NewImageList (dir images))")
        (auto simp: FindRelatedTags_def)
  qed
qed

end
