(* ===== verification/File_Tree.thy ===== *)
theory File_Tree
  imports Go_Filepath
begin

section \<open>Directory trees and how they are walked\<close>

text \<open>
  The file system as the loader and the packager see it: a tree of files and directories, and
  \<^verbatim>\<open>filepath.WalkDir\<close>, which visits it.  A tree is a snapshot: it does not change while
  it is walked.
\<close>

record file_info =
  Size :: nat
  Mode :: nat
  Uid :: nat
  Gid :: nat
  Uname :: string
  Gname :: string
  ModTime :: int
  AccessTime :: int
  ChangeTime :: int

text \<open>
  A regular file has a content, which reading may fail to give; a directory has its entries, and
  reading them may fail part way; a \<open>Special\<close> is a symbolic link, a device or a socket.
\<close>

datatype file_node =
    File file_info "string res"
  | Directory file_info "fault option" "(string \<times> file_node) list"
  | Special file_info

fun node_info :: "file_node \<Rightarrow> file_info" where
  "node_info (File i c) = i"
| "node_info (Directory i e cs) = i"
| "node_info (Special i) = i"

fun is_dir :: "file_node \<Rightarrow> bool" where
  "is_dir (Directory i e cs) = True"
| "is_dir _ = False"

fun is_regular :: "file_node \<Rightarrow> bool" where
  "is_regular (File i c) = True"
| "is_regular _ = False"

text \<open>\<^verbatim>\<open>os.Stat\<close> follows links; it says whether the path is a directory.\<close>

datatype stat_result = Exists bool file_info | NotExist go_error | StatError go_error

subsection \<open>WalkDir\<close>

text \<open>
  \<^verbatim>\<open>os.ReadDir\<close> sorts the entries by name, whatever order the file system keeps them in.
\<close>

fun sort_node :: "file_node \<Rightarrow> file_node" where
  "sort_node (Directory i e cs) =
     Directory i e (sort_key fst (map (\<lambda>(n, c). (n, sort_node c)) cs))"
| "sort_node n = n"

text \<open>
  The visits of \<open>WalkDir\<close>: a node before its children, and a directory that cannot be read a
  second time with the error.
\<close>

fun visits :: "string \<Rightarrow> file_node \<Rightarrow> (string \<times> file_node \<times> fault option) list" where
  "visits p (Directory i e cs) =
     (p, Directory i e cs, None) #
     (case e of None \<Rightarrow> [] | Some err \<Rightarrow> [(p, Directory i e cs, Some err)]) @
     concat (map (\<lambda>(n, c). visits (filepath_Join [p, n]) c) cs)"
| "visits p n = [(p, n, None)]"

text \<open>
  \<open>WalkDir\<close> runs the callback on every visit and stops at its first error; no callback of the
  program returns \<open>SkipDir\<close>.  When the root cannot be read, the callback gets the error, and
  every callback of the program returns it.
\<close>

definition WalkDir ::
    "string \<Rightarrow> file_node res \<Rightarrow> (string \<Rightarrow> file_node \<Rightarrow> fault option \<Rightarrow> 's \<Rightarrow> 's res) \<Rightarrow> 's \<Rightarrow> 's res" where
  "WalkDir root node fn s =
     rbind node (\<lambda>n. rfold (\<lambda>(p, d, err). fn p d err) (visits root (sort_node n)) s)"

subsection \<open>Paths in a tree\<close>

definition entry_name :: "string \<Rightarrow> bool" where
  "entry_name n \<longleftrightarrow> n \<noteq> [] \<and> n \<noteq> ''.'' \<and> n \<noteq> ''..'' \<and> slash \<notin> set n"

fun wf_node :: "file_node \<Rightarrow> bool" where
  "wf_node (Directory i e cs) \<longleftrightarrow>
     distinct (map fst cs) \<and> list_all (\<lambda>(n, c). entry_name n \<and> wf_node c) cs"
| "wf_node (File i c) \<longleftrightarrow> (case c of Inr content \<Rightarrow> Size i = length content | Inl _ \<Rightarrow> True)"
| "wf_node (Special i) \<longleftrightarrow> True"

text \<open>Reading a tree by the names along a path.\<close>

fun find_node :: "file_node \<Rightarrow> string list \<Rightarrow> file_node option" where
  "find_node t [] = Some t"
| "find_node (Directory i e cs) (n # ns) =
     (case map_of cs n of None \<Rightarrow> None | Some c \<Rightarrow> find_node c ns)"
| "find_node _ (n # ns) = None"

text \<open>No directory of the tree fails to be read.\<close>

fun readable :: "file_node \<Rightarrow> bool" where
  "readable (Directory i e cs) \<longleftrightarrow> e = None \<and> list_all (\<lambda>(n, c). readable c) cs"
| "readable _ \<longleftrightarrow> True"

lemma node_info_sort_node [simp]: "node_info (sort_node n) = node_info n"
  by (cases n) auto

lemma kind_sort_node [simp]: "is_dir (sort_node n) = is_dir n" "is_regular (sort_node n) = is_regular n"
  by (cases n; auto)+

lemma distinct_fst_sort_key: "distinct (map fst (sort_key f xs)) = distinct (map fst xs)"
  by (metis mset_eq_imp_distinct_iff mset_map mset_sort)

lemma map_of_sort_key:
  "distinct (map fst xs) \<Longrightarrow> map_of (sort_key f xs) = map_of xs"
  by (rule map_of_inject_set [THEN iffD2]) (simp_all add: distinct_fst_sort_key)

lemma list_all_sort_key [simp]: "list_all P (sort_key f xs) = list_all P xs"
  by (simp add: list_all_iff)

lemma wf_sort_node [simp]: "wf_node (sort_node t) = wf_node t"
proof (induction t rule: sort_node.induct)
  case (1 i e cs)
  have names: "map fst (map (\<lambda>(n, c). (n, sort_node c)) cs) = map fst cs" by auto
  show ?case using 1 by (auto simp: distinct_fst_sort_key list_all_iff names simp del: map_map)
qed auto

lemma map_of_map_snd: "map_of (map (\<lambda>(n, c). (n, f c)) cs) k = map_option f (map_of cs k)"
  by (induction cs) auto

lemma find_sort_node:
  "wf_node t \<Longrightarrow> find_node (sort_node t) ns = map_option sort_node (find_node t ns)"
proof (induction t ns rule: find_node.induct)
  case (2 i e cs n ns)
  have names: "map fst (map (\<lambda>(n, c). (n, sort_node c)) cs) = map fst cs" by auto
  have "map_of (sort_key fst (map (\<lambda>(n, c). (n, sort_node c)) cs)) n = map_option sort_node (map_of cs n)"
    using 2 by (simp add: map_of_sort_key names map_of_map_snd del: map_map)
  moreover have "wf_node c" if "map_of cs n = Some c" for c
    using that 2(2) by (auto simp: list_all_iff dest: map_of_SomeD)
  ultimately show ?case using 2 by (auto split: option.splits)
qed auto

lemma readable_sort_node [simp]: "readable (sort_node t) = readable t"
  by (induction t rule: sort_node.induct) (auto simp: list_all_iff)

subsection \<open>Visiting a tree\<close>

text \<open>The nodes of a tree with the names that lead to them, parents first.\<close>

fun nodes :: "file_node \<Rightarrow> (string list \<times> file_node) list" where
  "nodes (Directory i e cs) =
     ([], Directory i e cs) # concat (map (\<lambda>(n, c). map (\<lambda>(ns, d). (n # ns, d)) (nodes c)) cs)"
| "nodes t = [([], t)]"

definition under :: "string \<Rightarrow> string list \<Rightarrow> string" where
  "under p ns = fold (\<lambda>n q. filepath_Join [q, n]) ns p"

lemma under_simps [simp]: "under p [] = p" "under p (n # ns) = under (filepath_Join [p, n]) ns"
  by (simp_all add: under_def)

lemma visits_nodes:
  "readable t \<Longrightarrow> visits p t = map (\<lambda>(ns, d). (under p ns, d, None)) (nodes t)"
proof (induction t arbitrary: p rule: nodes.induct)
  case (1 i e cs)
  have "concat (map (\<lambda>(n, c). visits (filepath_Join [p, n]) c) cs) =
      concat (map (\<lambda>(n, c). map (\<lambda>(ns, d). (under p (n # ns), d, None)) (nodes c)) cs)"
    using 1 by (intro arg_cong [where f = concat] map_cong) (auto simp: list_all_iff)
  with 1(2) show ?case
    by (simp add: map_concat comp_def case_prod_unfold)
qed auto

lemma nodes_find:
  "wf_node t \<Longrightarrow> (ns, d) \<in> set (nodes t) \<longleftrightarrow> find_node t ns = Some d"
proof (induction t ns rule: find_node.induct)
  case (1 t)
  then show ?case by (cases t) auto
next
  case (2 i e cs n ns)
  have wf: "wf_node c" if "map_of cs n = Some c" for c
    using that 2(2) by (auto simp: list_all_iff dest: map_of_SomeD)
  have "(n # ns, d) \<in> set (nodes (Directory i e cs)) \<longleftrightarrow>
      (\<exists>c. (n, c) \<in> set cs \<and> (ns, d) \<in> set (nodes c))" by force
  also have "\<dots> \<longleftrightarrow> (\<exists>c. map_of cs n = Some c \<and> (ns, d) \<in> set (nodes c))"
    using 2(2) by (auto simp: list_all_iff)
  finally show ?case using 2(1) wf by (auto split: option.splits)
qed auto

lemma distinct_prefixed:
  assumes "distinct (map fst cs)" and "\<And>n c. (n, c) \<in> set cs \<Longrightarrow> distinct (map fst (g c))"
  shows "distinct (map fst (concat (map (\<lambda>(n, c). map (\<lambda>(ns, d). (n # ns, d)) (g c)) cs)))"
  using assms
proof (induction cs)
  case (Cons x cs)
  obtain n c where x: "x = (n, c)" by (cases x)
  have rest: "distinct (map fst (concat (map (\<lambda>(n, c). map (\<lambda>(ns, d). (n # ns, d)) (g c)) cs)))"
    using Cons.prems by (intro Cons.IH) auto
  have "map fst (map (\<lambda>(ns, d). (n # ns, d)) (g c)) = map ((#) n) (map fst (g c))" by auto
  moreover have "distinct (map ((#) n) (map fst (g c)))"
    using Cons.prems(2) [of n c] x by (simp add: distinct_map inj_on_def)
  ultimately have "distinct (map fst (map (\<lambda>(ns, d). (n # ns, d)) (g c)))" by (simp only:)
  moreover have "set (map fst (map (\<lambda>(ns, d). (n # ns, d)) (g c))) \<inter>
      set (map fst (concat (map (\<lambda>(n, c). map (\<lambda>(ns, d). (n # ns, d)) (g c)) cs))) = {}"
    using Cons.prems(1) x by force
  ultimately show ?case
    using rest unfolding x list.map concat.simps map_append distinct_append by simp
qed simp

lemma distinct_nodes: "wf_node t \<Longrightarrow> distinct (map fst (nodes t))"
proof (induction t rule: nodes.induct)
  case (1 i e cs)
  let ?rest = "concat (map (\<lambda>(n, c). map (\<lambda>(ns, d). (n # ns, d)) (nodes c)) cs)"
  have "distinct (map fst ?rest)"
    using 1 by (intro distinct_prefixed) (auto simp: list_all_iff)
  moreover have "[] \<notin> set (map fst ?rest)" by auto
  ultimately show ?case by simp
qed auto

lemma entry_name_comps:
  assumes "entry_name n"
  shows "strings_Split slash n = [n]" and "path_comps n = [n]" and "n \<noteq> []" and "\<not> filepath_IsAbs n"
proof -
  show split: "strings_Split slash n = [n]" using assms by (simp add: entry_name_def strings_Split_single)
  show "n \<noteq> []" using assms by (simp add: entry_name_def)
  show "\<not> filepath_IsAbs n" using assms by (auto simp: entry_name_def filepath_IsAbs_def split: list.splits)
  show "path_comps n = [n]"
    using assms split by (subst plain_rel_comps(1)) (auto simp: entry_name_def)
qed

lemma find_node_names: "wf_node t \<Longrightarrow> find_node t ns = Some d \<Longrightarrow> list_all entry_name ns"
proof (induction t ns rule: find_node.induct)
  case (2 i e cs n ns)
  then obtain c where c: "map_of cs n = Some c" "find_node c ns = Some d"
    by (auto split: option.splits)
  then have "entry_name n \<and> wf_node c"
    using 2(2) by (auto simp: list_all_iff dest: map_of_SomeD)
  with 2 c show ?case by simp
qed auto

lemma Clean_not_empty: "filepath_Clean q \<noteq> []"
proof
  assume "filepath_Clean q = []"
  then have ne: "\<not> filepath_IsAbs q" "path_comps q \<noteq> []" "strings_Join (path_comps q) [slash] = []"
    by (auto simp: filepath_Clean_def path_of_def split: if_splits)
  have "[] \<notin> set (path_comps q)"
    using normal_path_comps [of q] ne(1) by (auto simp: normal_comps_def)
  with ne show False by (cases "path_comps q") (auto simp: strings_Join_Cons)
qed

lemma under_comps:
  assumes "list_all entry_name ns" and "p \<noteq> []"
  shows "path_comps (under p ns) = path_comps p @ ns \<and> filepath_IsAbs (under p ns) = filepath_IsAbs p"
  using assms
proof (induction ns arbitrary: p)
  case (Cons n ns)
  have n: "''..'' \<notin> set (strings_Split slash n)"
    using Cons.prems(1) by (auto simp: entry_name_comps(1)) (auto simp: entry_name_def)
  have "filepath_Join [p, n] \<noteq> []"
    using Cons.prems(2) Clean_not_empty by (simp add: filepath_Join_two)
  then show ?case
    using Cons.IH [of "filepath_Join [p, n]"] Cons.prems path_comps_Join [OF Cons.prems(2) n]
    by (simp add: entry_name_comps(2))
qed simp

lemma under_root:
  assumes "list_all entry_name ns" and "filepath_IsAbs p"
  shows "path_comps (under p ns) = path_comps p @ ns \<and> filepath_IsAbs (under p ns)"
proof -
  have "p \<noteq> []" using assms(2) by (auto simp: filepath_IsAbs_def)
  then show ?thesis using under_comps [OF assms(1)] assms(2) by simp
qed

lemma Clean_under: "filepath_Clean p = p \<Longrightarrow> p \<noteq> [] \<Longrightarrow> filepath_Clean (under p ns) = under p ns"
proof (induction ns arbitrary: p)
  case (Cons n ns)
  have "filepath_Join [p, n] = filepath_Clean (strings_Join [p, n] [slash])"
    using Cons.prems(2) by (simp add: filepath_Join_def)
  then have "filepath_Clean (filepath_Join [p, n]) = filepath_Join [p, n]" by simp
  moreover have "filepath_Join [p, n] \<noteq> []"
    using Cons.prems(2) by (simp add: filepath_Join_two Clean_not_empty)
  ultimately show ?case using Cons.IH [of "filepath_Join [p, n]"] by simp
qed simp

text \<open>The name of a node relative to the root of the walk.\<close>

lemma Rel_under_root:
  assumes "filepath_IsAbs p" and "filepath_Clean p = p" and "list_all entry_name ns"
  shows "filepath_Rel p (under p ns) = Inr (path_of False ns)"
proof (cases "ns = []")
  case True
  then show ?thesis by (simp add: filepath_Rel_def path_of_def)
next
  case False
  have ne: "p \<noteq> []" using assms(1) by (auto simp: filepath_IsAbs_def)
  have u: "path_comps (under p ns) = path_comps p @ ns" "filepath_IsAbs (under p ns)"
    using under_root [OF assms(3,1)] by auto
  have clean: "under p ns = path_of True (path_comps p @ ns)"
    using u Clean_under [OF assms(2) ne, of ns] by (simp add: Clean_rooted)
  have p: "p = path_of True (path_comps p)" using assms(1,2) Clean_rooted [of p] by simp
  have "down_comps ns"
    using assms(3) by (auto simp: down_comps_def list_all_iff entry_name_def)
  then have down: "down_comps (path_comps p @ ns)"
    using normal_path_comps [of p] assms(1) by simp
  show ?thesis using Rel_inside_root [OF down False] clean p by metis
qed


text \<open>The same below any root, and what the path below the root ends in.\<close>

lemma under_path_of:
  assumes "list_all entry_name ns" and "p \<noteq> []" and "ns \<noteq> []"
  shows "under p ns = path_of (filepath_IsAbs p) (path_comps p @ ns)"
proof -
  obtain n ms where ns: "ns = n # ms" using assms(3) by (cases ns) auto
  have "filepath_Clean (filepath_Join [p, n]) = filepath_Join [p, n]" "filepath_Join [p, n] \<noteq> []"
    using assms(2) by (simp_all add: filepath_Join_two Clean_not_empty)
  then have "filepath_Clean (under p ns) = under p ns" by (simp add: ns Clean_under)
  then show ?thesis using under_comps [OF assms(1,2)] unfolding filepath_Clean_def by simp
qed

lemma entry_names_down: "list_all entry_name ns \<Longrightarrow> down_comps ns"
  by (auto simp: down_comps_def list_all_iff entry_name_def)

lemma normal_append_down:
  assumes "normal_comps r cs" and "down_comps ds"
  shows "normal_comps r (cs @ ds)"
proof -
  obtain n es where "cs = replicate n ''..'' @ es" "''..'' \<notin> set es" "r \<longrightarrow> n = 0"
    using assms(1) by (auto simp: normal_comps_def)
  then have "cs @ ds = replicate n ''..'' @ (es @ ds)" "''..'' \<notin> set (es @ ds)" "r \<longrightarrow> n = 0"
    using assms(2) by (auto simp: down_comps_def)
  then have "\<exists>n es. cs @ ds = replicate n ''..'' @ es \<and> ''..'' \<notin> set es \<and> (r \<longrightarrow> n = 0)" by blast
  moreover have "[] \<notin> set (cs @ ds) \<and> ''.'' \<notin> set (cs @ ds) \<and> (\<forall>c\<in>set (cs @ ds). slash \<notin> set c)"
    using assms by (auto simp: normal_comps_def down_comps_def)
  ultimately show ?thesis unfolding normal_comps_def by blast
qed

lemma Rel_below:
  assumes "list_all entry_name ns" and "ns \<noteq> []" and "p \<noteq> []"
  shows "filepath_Rel p (under p ns) = Inr (path_of False ns)"
proof (cases "filepath_IsAbs p")
  case True
  let ?cs = "path_comps p"
  have down: "down_comps ?cs" "down_comps (?cs @ ns)"
    using normal_path_comps [of p] True entry_names_down [OF assms(1)] by simp_all
  have "path_of True (?cs @ ns) \<noteq> path_of True ?cs"
    using down assms(2) by (subst path_of_inject) auto
  moreover have "path_of True ?cs \<noteq> ''.''" by (simp add: path_of_def slash_def)
  moreover have "filepath_IsAbs (path_of True cs)" for cs by (simp add: path_of_def filepath_IsAbs_def)
  moreover have "under p ns = path_of True (?cs @ ns)"
    using under_path_of [OF assms(1,3,2)] True by simp
  ultimately show ?thesis
    using assms(2) down Clean_rooted [OF True]
    by (simp add: filepath_Rel_def Let_def rel_comps_path_of path_of_def [of False])
next
  case False
  let ?cs = "path_comps p"
  have down: "down_comps ns" using assms(1) by (rule entry_names_down)
  have norm: "normal_comps False ?cs" "normal_comps False (?cs @ ns)"
    using normal_path_comps [of p] False normal_append_down [OF _ down] by simp_all
  have clean: "filepath_Clean p = path_of False ?cs" using False by (simp add: filepath_Clean_def)
  have split: "rel_comps (path_of False cs) = cs" if "normal_comps False cs" "cs \<noteq> []" for cs
  proof -
    have "strings_Split slash (strings_Join cs [slash]) = cs"
      using that by (intro strings_Split_Join) (auto simp: normal_comps_def)
    moreover have "strings_Split slash [] = [[]]" "strings_Split slash [slash] = [[], []]"
      by simp_all
    moreover have "[] \<notin> set cs" using that(1) by (simp add: normal_comps_def)
    ultimately have "strings_Split slash (strings_Join cs [slash]) = cs"
        "strings_Join cs [slash] \<noteq> []" "strings_Join cs [slash] \<noteq> [slash]"
      by (auto simp del: strings_Split.simps)
    then show ?thesis using that(2) by (simp add: rel_comps_def path_of_def)
  qed
  have base: "rel_comps (if path_of False ?cs = ''.'' then [] else path_of False ?cs) = ?cs"
    using split [OF norm(1)] path_of_eq_dot [OF norm(1)] by (auto simp: rel_comps_def)
  have abs: "\<not> filepath_IsAbs (if path_of False ?cs = ''.'' then [] else path_of False ?cs)"
    using norm(1) by (auto simp: filepath_IsAbs_def [of "[]"])
  have "under p ns = path_of False (?cs @ ns)"
    using under_path_of [OF assms(1,3,2)] False by simp
  moreover have "path_of False (?cs @ ns) \<noteq> path_of False ?cs"
    using path_of_inject [OF norm(2,1)] assms(2) by simp
  ultimately show ?thesis
    using split [OF norm(2)] base abs norm assms(2) clean
    by (simp add: filepath_Rel_def Let_def path_of_def [of False ns])
qed

end
