(* ===== verification/Oci_Artefact.thy ===== *)
theory Oci_Artefact
  imports Oci_Client File_Tree Attest_Statements Image
begin

section \<open>Artefacts: packages as OCI images\<close>

text \<open>
  The file \<open>oci/artefact.go\<close>: fetching the layers of an image or an index, building the archive
  of a directory and the layer of attestations, and pushing both as one index.  The operating
  system and the encoders the code calls (tar with gzip, gzip, SHA-256, JSON, the time format)
  are the fields of \<open>artefact_env\<close>, so are the digests that go-containerregistry computes of the
  JSON text of manifests.
\<close>

subsection \<open>Data\<close>

definition mediaTypePrefix :: string where
  "mediaTypePrefix = ''application/vnd.docker.tape''"

definition tape_ConfigMediaType :: string where
  "tape_ConfigMediaType = mediaTypePrefix @ ''.config.v1alpha1+json''"

definition ContentMediaType :: string where
  "ContentMediaType = mediaTypePrefix @ ''.content.v1alpha1.tar+gzip''"

definition AttestMediaType :: string where
  "AttestMediaType = mediaTypePrefix @ ''.attest.v1alpha1.jsonl+gzip''"

definition ContentInterpreterAnnotation :: string where
  "ContentInterpreterAnnotation = mediaTypePrefix @ ''.content-interpreter.v1alpha1''"

definition ContentInterpreterKubectlApply :: string where
  "ContentInterpreterKubectlApply = mediaTypePrefix @ ''.kubectl-apply.v1alpha1.tar+gzip''"

definition AttestationsSummaryAnnotation :: string where
  "AttestationsSummaryAnnotation = mediaTypePrefix @ ''.attestations-summary.v1alpha1''"

definition OCIManifestSchema1 :: string where
  "OCIManifestSchema1 = ''application/vnd.oci.image.manifest.v1+json''"

definition CreatedAnnotation :: string where
  "CreatedAnnotation = ''org.opencontainers.image.created''"

record ArtefactInfo =
  Content :: string
  InfoMediaType :: string
  InfoAnnotations :: "(string, string) gomap"
  InfoDigest :: string

record tar_header =
  HeaderName :: string
  HeaderDir :: bool
  HeaderSize :: nat
  HeaderMode :: nat
  HeaderUid :: nat
  HeaderGid :: nat
  HeaderUname :: string
  HeaderGname :: string
  HeaderModTime :: int
  HeaderAccessTime :: int
  HeaderChangeTime :: int

type_synonym tar_member = "tar_header \<times> string"

record 'p artefact_env =
  Abs :: "string \<Rightarrow> string res"
  Stat :: "string \<Rightarrow> stat_result"
  Lstat :: "string \<Rightarrow> file_node res"
  MkdirTemp :: "unit res"
  OpenFile :: "unit res"
  tar_WriteHeader :: "tar_header \<Rightarrow> unit res"
  targz :: "tar_member list \<Rightarrow> string"
  gzip :: "string \<Rightarrow> string"
  sha256_Sum :: "string \<Rightarrow> string"
  EncodeStatement :: "'p toto_Statement \<Rightarrow> string \<Rightarrow> string res"
  EncodeAnnotation :: "json \<Rightarrow> string res"
  tarball_check :: "string \<Rightarrow> unit res"
  time_Now :: int
  RFC3339 :: "int \<Rightarrow> string"
  image_hash :: "oci_Manifest \<Rightarrow> string"
  image_size :: "oci_Manifest \<Rightarrow> int"
  index_hash :: "IndexManifest \<Rightarrow> string res"

subsection \<open>Fetching\<close>

definition newArtifcatInfoFromLayerDescriptor ::
    "v1_Image \<Rightarrow> Descriptor \<Rightarrow> (string, string) gomap \<Rightarrow> ArtefactInfo res" where
  "newArtifcatInfoFromLayerDescriptor img d annotations =
     rbind (wrap ''fetching artefact image failed'' (LayerByDigest img (DescriptorDigest d))) (\<lambda>layer.
     rbind (wrap ''extracting compressed aretefact image failed'' (Compressed layer)) (\<lambda>blob.
     Inr \<lparr>Content = blob, InfoMediaType = MediaType d, InfoAnnotations = annotations,
          InfoDigest = DescriptorDigest d\<rparr>))"

definition getImage :: "v1_ImageIndex option \<Rightarrow> string \<Rightarrow> (v1_Image \<times> oci_Manifest) res" where
  "getImage imageIndex digest =
     (case imageIndex of
        None \<Rightarrow> Inl (Panic NilDereference)
      | Some idx \<Rightarrow>
          rbind (IndexImage idx digest) (\<lambda>img.
          rbind (wrap (''failed to get manifest for '' @ digest) (ImageManifest img)) (\<lambda>manifest.
          Inr (img, manifest))))"

definition skip :: "string list \<Rightarrow> string \<Rightarrow> bool" where
  "skip mediaTypes mediaType \<longleftrightarrow> 0 < length mediaTypes \<and> mediaType \<notin> set mediaTypes"

type_synonym fetched = "ArtefactInfo list \<times> (string, oci_Manifest) gomap"

definition fetch_layer ::
    "v1_Image \<Rightarrow> (string, string) gomap \<Rightarrow> Descriptor \<Rightarrow> ArtefactInfo list \<Rightarrow> ArtefactInfo list res" where
  "fetch_layer img annotations d artefacts =
     rbind (newArtifcatInfoFromLayerDescriptor img d annotations) (\<lambda>info. Inr (artefacts @ [info]))"

definition fetch_manifest ::
    "v1_ImageIndex option \<Rightarrow> string list \<Rightarrow> Descriptor \<Rightarrow> fetched \<Rightarrow> fetched res" where
  "fetch_manifest imageIndex mediaTypes md = (\<lambda>(artefacts, manifests).
     if skip mediaTypes (ArtifactType md) then Inr (artefacts, manifests)
     else
       rbind (getImage imageIndex (DescriptorDigest md)) (\<lambda>(img, manifest).
       rbind (rfold (\<lambda>d artefacts.
                if MediaType d \<noteq> ArtifactType md
                then Inl (Fail (MediaTypeMismatch (MediaType md) (MediaType d)))
                else fetch_layer img (ManifestAnnotations manifest) d artefacts)
              (Layers manifest) artefacts) (\<lambda>artefacts.
       Inr (artefacts, gm_put (DescriptorDigest md) manifest manifests))))"

definition FetchFromIndexOrImage ::
    "v1_ImageIndex option \<Rightarrow> IndexManifest option \<Rightarrow> v1_Image option \<Rightarrow> string list \<Rightarrow> fetched res" where
  "FetchFromIndexOrImage imageIndex indexManifest img mediaTypes =
     (case indexManifest of
        None \<Rightarrow>
          (case img of
             None \<Rightarrow> Inl (Panic NilDereference)
           | Some img \<Rightarrow>
               rbind (wrap ''failed to get manifest'' (ImageManifest img)) (\<lambda>manifest.
               rbind (ImageDigest img) (\<lambda>imageDigest.
               rbind (rfold (\<lambda>d artefacts.
                        if skip mediaTypes (MediaType d) then Inr artefacts
                        else fetch_layer img (ManifestAnnotations manifest) d artefacts)
                      (Layers manifest) []) (\<lambda>artefacts.
               Inr (artefacts, gm_put imageDigest manifest [])))))
      | Some im \<Rightarrow> rfold (fetch_manifest imageIndex mediaTypes) (Manifests im) ([], []))"

definition Fetch :: "('w, 'r) remote \<Rightarrow> string \<Rightarrow> string list \<Rightarrow> 'w \<Rightarrow> ArtefactInfo list res" where
  "Fetch R ref mediaTypes w =
     rbind (GetIndexOrImage R ref w) (\<lambda>(imageIndex, indexManifest, img).
     rmap fst (FetchFromIndexOrImage imageIndex indexManifest img mediaTypes))"

definition getFlatArtefactLayers ::
    "('w, 'r) remote \<Rightarrow> string \<Rightarrow> 'w
      \<Rightarrow> (v1_Image \<times> Descriptor list \<times> (string, string) gomap) res" where
  "getFlatArtefactLayers R ref w =
     rbind (GetIndexOrImage R ref w) (\<lambda>(imageIndex, indexManifest, img).
     rbind (case indexManifest of
              Some im \<Rightarrow>
                if length (Manifests im) \<noteq> 1 then Inl (Fail (MultipleManifests ref))
                else getImage imageIndex (DescriptorDigest (Manifests im ! 0))
            | None \<Rightarrow>
                (case img of
                   None \<Rightarrow> Inl (Panic NilDereference)
                 | Some img \<Rightarrow>
                     rmap (\<lambda>m. (img, m)) (wrap (''failed to get manifest for '' @ ref) (ImageManifest img))))
       (\<lambda>(img, manifest).
     if length (Layers manifest) < 1 then Inl (Fail (NoLayers ref))
     else Inr (img, Layers manifest, ManifestAnnotations manifest)))"

definition GetSingleArtefact :: "('w, 'r) remote \<Rightarrow> string \<Rightarrow> 'w \<Rightarrow> ArtefactInfo res" where
  "GetSingleArtefact R ref w =
     rbind (getFlatArtefactLayers R ref w) (\<lambda>(img, layers, annotations).
     if length layers \<noteq> 1 then Inl (Fail (MultipleLayers ref))
     else newArtifcatInfoFromLayerDescriptor img (layers ! 0) annotations)"

subsection \<open>What is fetched\<close>

lemma fetch_layer_Inr [res_simps]:
  "fetch_layer img anns d infos = Inr infos' \<longleftrightarrow>
     (\<exists>i. newArtifcatInfoFromLayerDescriptor img d anns = Inr i \<and> infos' = infos @ [i])"
  by (auto simp: fetch_layer_def res_simps)

lemma rfold_fetch_layers:
  "rfold (\<lambda>d infos. if MediaType d \<noteq> a then Inl (f d) else fetch_layer img anns d infos) ls infos = Inr infos' \<longleftrightarrow>
     list_all (\<lambda>d. MediaType d = a) ls \<and>
     (\<exists>is. infos' = infos @ is
        \<and> list_all2 (\<lambda>d i. newArtifcatInfoFromLayerDescriptor img d anns = Inr i) ls is)"
proof (induction ls arbitrary: infos)
  case (Cons d ls)
  show ?case
    by (cases "MediaType d = a") (auto simp: res_simps Cons.IH list_all2_Cons1)
qed auto

definition selected :: "string list \<Rightarrow> IndexManifest \<Rightarrow> Descriptor list" where
  "selected mediaTypes im = filter (\<lambda>md. \<not> skip mediaTypes (ArtifactType md)) (Manifests im)"

text \<open>The layers of an index, each with its image and the annotations of its manifest.\<close>

definition layers_of ::
    "(v1_Image \<times> oci_Manifest) list \<Rightarrow> (v1_Image \<times> Descriptor \<times> (string, string) gomap) list" where
  "layers_of ims =
     concat (map (\<lambda>(img, m). map (\<lambda>d. (img, d, ManifestAnnotations m)) (Layers m)) ims)"

lemma rfold_fetch_manifests:
  "rfold (fetch_manifest ii mts) mds (infos, ms) = Inr (infos', ms') \<longleftrightarrow>
     (\<exists>ims is.
        list_all2 (\<lambda>md (img, m). getImage ii (DescriptorDigest md) = Inr (img, m)
            \<and> list_all (\<lambda>d. MediaType d = ArtifactType md) (Layers m))
          (filter (\<lambda>md. \<not> skip mts (ArtifactType md)) mds) ims
      \<and> infos' = infos @ is
      \<and> list_all2 (\<lambda>(img, d, anns) i. newArtifcatInfoFromLayerDescriptor img d anns = Inr i) (layers_of ims) is
      \<and> ms' = fold (\<lambda>(md, m). gm_put (DescriptorDigest md) m)
          (zip (filter (\<lambda>md. \<not> skip mts (ArtifactType md)) mds) (map snd ims)) ms)"
proof (induction mds arbitrary: infos ms)
  case (Cons md mds)
  show ?case
  proof (cases "skip mts (ArtifactType md)")
    case True
    then show ?thesis using Cons.IH by (simp add: fetch_manifest_def)
  next
    case False
    have step: "fetch_manifest ii mts md (infos, ms) = Inr x \<longleftrightarrow>
        (\<exists>img m is. getImage ii (DescriptorDigest md) = Inr (img, m)
          \<and> list_all (\<lambda>d. MediaType d = ArtifactType md) (Layers m)
          \<and> list_all2 (\<lambda>d i. newArtifcatInfoFromLayerDescriptor img d (ManifestAnnotations m) = Inr i) (Layers m) is
          \<and> x = (infos @ is, gm_put (DescriptorDigest md) m ms))" for x
      using False unfolding fetch_manifest_def by (auto simp: res_simps rfold_fetch_layers)
    have cons: "list_all2 (\<lambda>(img, d, anns) i. newArtifcatInfoFromLayerDescriptor img d anns = Inr i)
          (layers_of ((img, m) # ims)) is \<longleftrightarrow>
        (\<exists>is1 is2. is = is1 @ is2
          \<and> list_all2 (\<lambda>d i. newArtifcatInfoFromLayerDescriptor img d (ManifestAnnotations m) = Inr i) (Layers m) is1
          \<and> list_all2 (\<lambda>(img, d, anns) i. newArtifcatInfoFromLayerDescriptor img d anns = Inr i) (layers_of ims) is2)"
      for img m ims "is"
      by (simp add: layers_of_def list_all2_append_left list_all2_map1)
    let ?A = "\<lambda>md (img, m). getImage ii (DescriptorDigest md) = Inr (img, m)
        \<and> list_all (\<lambda>d. MediaType d = ArtifactType md) (Layers m)"
    let ?L = "\<lambda>(img, d, anns) i. newArtifcatInfoFromLayerDescriptor img d anns = Inr i"
    let ?sel = "filter (\<lambda>md. \<not> skip mts (ArtifactType md)) mds"
    let ?put = "\<lambda>(md, m). gm_put (DescriptorDigest md) m"
    have "rfold (fetch_manifest ii mts) (md # mds) (infos, ms) = Inr (infos', ms') \<longleftrightarrow>
        (\<exists>img m is1. ?A md (img, m) \<and> list_all2 (\<lambda>d i. newArtifcatInfoFromLayerDescriptor img d (ManifestAnnotations m) = Inr i) (Layers m) is1
          \<and> rfold (fetch_manifest ii mts) mds (infos @ is1, gm_put (DescriptorDigest md) m ms) = Inr (infos', ms'))"
      unfolding rfold.simps rbind_Inr_conv step by auto blast
    also have "\<dots> \<longleftrightarrow>
        (\<exists>img m is1 ims is2. ?A md (img, m) \<and> list_all2 (\<lambda>d i. newArtifcatInfoFromLayerDescriptor img d (ManifestAnnotations m) = Inr i) (Layers m) is1
          \<and> list_all2 ?A ?sel ims \<and> infos' = infos @ is1 @ is2 \<and> list_all2 ?L (layers_of ims) is2
          \<and> ms' = fold ?put (zip ?sel (map snd ims)) (gm_put (DescriptorDigest md) m ms))"
      unfolding Cons.IH append_assoc by blast
    also have "\<dots> \<longleftrightarrow>
        (\<exists>img m ims is. ?A md (img, m) \<and> list_all2 ?A ?sel ims \<and> infos' = infos @ is
          \<and> list_all2 ?L (layers_of ((img, m) # ims)) is
          \<and> ms' = fold ?put (zip ?sel (map snd ims)) (gm_put (DescriptorDigest md) m ms))"
      unfolding cons by blast
    also have "\<dots> \<longleftrightarrow>
        (\<exists>ims is. list_all2 ?A (md # ?sel) ims \<and> infos' = infos @ is \<and> list_all2 ?L (layers_of ims) is
          \<and> ms' = fold ?put (zip (md # ?sel) (map snd ims)) ms)"
      unfolding list_all2_Cons1 by (rule iffI) (elim exE conjE, force)+
    finally show ?thesis using False by simp
  qed
qed (auto simp: layers_of_def)

text \<open>Fetching from an index succeeds exactly when every manifest whose artifact type is asked
  for (all of them when nothing is asked for) can be read, all its layers have this type and
  their blobs can be got.  The result lists these layers in order, each with the annotations of
  its manifest, and maps the digests of the manifests to them.\<close>

theorem FetchFromIndex_selected_layers:
  "FetchFromIndexOrImage ii (Some im) img mts = Inr (infos, ms) \<longleftrightarrow>
     (\<exists>ims.
        list_all2 (\<lambda>md (img, m). getImage ii (DescriptorDigest md) = Inr (img, m)
            \<and> list_all (\<lambda>d. MediaType d = ArtifactType md) (Layers m)) (selected mts im) ims
      \<and> list_all2 (\<lambda>(img, d, anns) i. newArtifcatInfoFromLayerDescriptor img d anns = Inr i) (layers_of ims) infos
      \<and> ms = fold (\<lambda>(md, m). gm_put (DescriptorDigest md) m) (zip (selected mts im) (map snd ims)) [])"
  by (auto simp: FetchFromIndexOrImage_def rfold_fetch_manifests selected_def)

subsection \<open>Building the archive\<close>

text \<open>
  \<^verbatim>\<open>tar.FileInfoHeader\<close>: the header of a file with its base name, its owner and its times.
  The callback of the walk renames the header relative to the source directory and clears
  everything that depends on the machine.
\<close>

definition FileInfoHeader :: "file_node \<Rightarrow> string \<Rightarrow> tar_header" where
  "FileInfoHeader d p =
     (let i = node_info d; n = filepath_Base p
      in \<lparr>HeaderName = (if is_dir d then n @ [slash] else n), HeaderDir = is_dir d,
          HeaderSize = (if is_dir d then 0 else Size i), HeaderMode = Mode i,
          HeaderUid = Uid i, HeaderGid = Gid i, HeaderUname = Uname i, HeaderGname = Gname i,
          HeaderModTime = ModTime i, HeaderAccessTime = AccessTime i,
          HeaderChangeTime = ChangeTime i\<rparr>)"

definition clear_environment :: "tar_header \<Rightarrow> tar_header" where
  "clear_environment h =
     h\<lparr>HeaderGid := 0, HeaderUid := 0, HeaderUname := [], HeaderGname := [],
       HeaderModTime := 0, HeaderAccessTime := 0, HeaderChangeTime := 0\<rparr>"

text \<open>
  The archive writer refuses a content that is longer or shorter than its header says.
\<close>

definition write_content :: "file_node \<Rightarrow> string res" where
  "write_content d =
     (case d of
        File i c \<Rightarrow>
          rbind c (\<lambda>content.
            if length content \<noteq> Size i then Inl (Fail (External ''archive/tar: wrong size''))
            else Inr content)
      | _ \<Rightarrow> Inr [])"

definition archive_entry ::
    "'p artefact_env \<Rightarrow> string \<Rightarrow> stat_result \<Rightarrow> string \<Rightarrow> file_node \<Rightarrow> fault option
      \<Rightarrow> tar_member list \<Rightarrow> tar_member list res" where
  "archive_entry E absDir dirStat p di prevErr members =
     (case prevErr of
        Some e \<Rightarrow> Inl e
      | None \<Rightarrow>
          if \<not> (is_regular di \<or> is_dir di) then Inr members
          else
            let header = FileInfoHeader di p
            in rbind (case dirStat of
                        Exists isDir _ \<Rightarrow>
                          if isDir then
                            rbind (filepath_Rel absDir p) (\<lambda>relFilePath.
                            Inr (header\<lparr>HeaderName := relFilePath\<rparr>))
                          else Inr header
                      | _ \<Rightarrow> Inl (Panic NilDereference)) (\<lambda>header.
               let header = clear_environment header
               in rbind (tar_WriteHeader E header) (\<lambda>_.
                  if \<not> is_regular di then Inr (members @ [(header, [])])
                  else rbind (write_content di) (\<lambda>content. Inr (members @ [(header, content)])))))"

text \<open>\<open>BuildArtefact\<close> returns what it writes to its output.\<close>

definition BuildArtefact :: "'p artefact_env \<Rightarrow> string \<Rightarrow> string res" where
  "BuildArtefact E sourceDir =
     rbind (Abs E sourceDir) (\<lambda>absDir.
     let dirStat = Stat E absDir
     in case dirStat of
          NotExist _ \<Rightarrow> Inl (Fail (PathDoesNotExist absDir))
        | _ \<Rightarrow>
            rbind (WalkDir absDir (Lstat E absDir) (archive_entry E absDir dirStat) []) (\<lambda>members.
            Inr (targz E members)))"

definition tarball_Layer :: "'p artefact_env \<Rightarrow> string \<Rightarrow> string \<Rightarrow> v1_Layer res" where
  "tarball_Layer E blob mediaType =
     rbind (tarball_check E blob) (\<lambda>_.
     Inr \<lparr>LayerDigest = ''sha256:'' @ hex_EncodeToString (sha256_Sum E blob),
          LayerMediaType = mediaType, LayerSize = int (length blob), Compressed = Inr blob\<rparr>)"

definition BuildAttestations :: "'p artefact_env \<Rightarrow> 'p Statements \<Rightarrow> v1_Layer option res" where
  "BuildAttestations E statements =
     (if length statements = 0 then Inr None
      else
        rbind (Statements_EncodeWith (EncodeStatement E) statements []) (\<lambda>output.
        rbind (wrap ''creating attestations layer failed''
                (tarball_Layer E (gzip E output) AttestMediaType)) (\<lambda>layer.
        Inr (Some layer))))"

subsection \<open>Images and indexes under construction\<close>

text \<open>
  What the vendored \<open>mutate\<close> package makes of an empty image or index: media types and
  annotations are replaced or merged, layers and images are appended with the descriptors it
  computes for them.
\<close>

record built_image =
  BuiltMediaType :: string
  BuiltConfigMediaType :: string
  BuiltAnnotations :: "(string, string) gomap"
  BuiltLayers :: "v1_Layer list"

record built_index =
  BuiltIndexAnnotations :: "(string, string) gomap"
  BuiltManifests :: "(Descriptor \<times> v1_Image) list"

definition DockerManifestSchema2 :: string where
  "DockerManifestSchema2 = ''application/vnd.docker.distribution.manifest.v2+json''"

definition DockerConfigJSON :: string where
  "DockerConfigJSON = ''application/vnd.docker.container.image.v1+json''"

definition OCIConfigJSON :: string where
  "OCIConfigJSON = ''application/vnd.oci.image.config.v1+json''"

definition empty_Image :: built_image where
  "empty_Image =
     \<lparr>BuiltMediaType = DockerManifestSchema2, BuiltConfigMediaType = DockerConfigJSON,
      BuiltAnnotations = [], BuiltLayers = []\<rparr>"

definition empty_Index :: built_index where
  "empty_Index = \<lparr>BuiltIndexAnnotations = [], BuiltManifests = []\<rparr>"

definition merge_annotations ::
    "(string, string) gomap \<Rightarrow> (string, string) gomap \<Rightarrow> (string, string) gomap" where
  "merge_annotations anns m = fold (\<lambda>(k, v). gm_put k v) anns m"

definition mutate_Annotations :: "built_image \<Rightarrow> (string, string) gomap \<Rightarrow> built_image" where
  "mutate_Annotations b anns = b\<lparr>BuiltAnnotations := merge_annotations anns (BuiltAnnotations b)\<rparr>"

definition mutate_Append :: "built_image \<Rightarrow> v1_Layer \<Rightarrow> built_image" where
  "mutate_Append b l = b\<lparr>BuiltLayers := BuiltLayers b @ [l]\<rparr>"

definition layer_Descriptor :: "v1_Layer \<Rightarrow> Descriptor" where
  "layer_Descriptor l =
     \<lparr>MediaType = LayerMediaType l, DescriptorSize = LayerSize l, DescriptorDigest = LayerDigest l,
      ArtifactType = [], DescriptorPlatform = None, DescriptorAnnotations = []\<rparr>"

definition built_Manifest :: "built_image \<Rightarrow> oci_Manifest" where
  "built_Manifest b =
     \<lparr>ConfigMediaType = BuiltConfigMediaType b, Layers = map layer_Descriptor (BuiltLayers b),
      ManifestAnnotations = BuiltAnnotations b\<rparr>"

definition as_Image :: "'p artefact_env \<Rightarrow> built_image \<Rightarrow> v1_Image" where
  "as_Image E b =
     \<lparr>ImageManifest = Inr (built_Manifest b),
      ImageDigest = Inr (image_hash E (built_Manifest b)),
      LayerByDigest = (\<lambda>h.
        case find (\<lambda>l. LayerDigest l = h) (rev (BuiltLayers b)) of
          Some l \<Rightarrow> Inr l | None \<Rightarrow> Inl (Fail (External (''unknown blob '' @ h))))\<rparr>"

definition mutate_AppendManifests ::
    "'p artefact_env \<Rightarrow> built_index \<Rightarrow> Descriptor \<Rightarrow> built_image \<Rightarrow> built_index" where
  "mutate_AppendManifests E x d b =
     (let desc = \<lparr>MediaType = BuiltMediaType b,
                  DescriptorSize = image_size E (built_Manifest b),
                  DescriptorDigest = image_hash E (built_Manifest b),
                  ArtifactType =
                    (if BuiltMediaType b \<in> {OCIManifestSchema1, DockerManifestSchema2}
                        \<and> BuiltConfigMediaType b \<notin> {OCIConfigJSON, DockerConfigJSON}
                     then BuiltConfigMediaType b else []),
                  DescriptorPlatform = DescriptorPlatform d, DescriptorAnnotations = []\<rparr>
      in x\<lparr>BuiltManifests := BuiltManifests x @ [(desc, as_Image E b)]\<rparr>)"

definition as_ImageIndex :: "'p artefact_env \<Rightarrow> built_index \<Rightarrow> v1_ImageIndex" where
  "as_ImageIndex E x =
     (let m = \<lparr>Manifests = map fst (BuiltManifests x), IndexAnnotations = BuiltIndexAnnotations x\<rparr>
      in \<lparr>get_IndexManifest = Inr m, IndexDigest = index_hash E m,
          IndexImage = (\<lambda>h.
            case find (\<lambda>(d, _). DescriptorDigest d = h) (rev (BuiltManifests x)) of
              Some (_, img) \<Rightarrow> Inr img | None \<Rightarrow> Inl (Fail (External (''no child with digest '' @ h))))\<rparr>)"

definition makeDescriptorWithPlatform :: Descriptor where
  "makeDescriptorWithPlatform =
     \<lparr>MediaType = [], DescriptorSize = 0, DescriptorDigest = [], ArtifactType = [],
      DescriptorPlatform =
        Some \<lparr>Architecture = ''unknown'', OS = ''unknown'', OSVersion = [], Variant = []\<rparr>,
      DescriptorAnnotations = []\<rparr>"

subsection \<open>Pushing\<close>

definition artefact_image ::
    "string \<Rightarrow> (string, string) gomap \<Rightarrow> v1_Layer \<Rightarrow> built_image" where
  "artefact_image mediaType annotations layer =
     mutate_Append
       (mutate_Annotations
         (empty_Image\<lparr>BuiltMediaType := OCIManifestSchema1, BuiltConfigMediaType := mediaType\<rparr>)
         annotations)
       layer"

text \<open>The index that \<open>PushArtefact\<close> pushes: one image for the archive, one for the attestations.\<close>

definition content_image :: "string \<Rightarrow> v1_Layer \<Rightarrow> built_image" where
  "content_image created layer =
     artefact_image ContentMediaType
       (gm_put ContentInterpreterAnnotation ContentInterpreterKubectlApply
         [(CreatedAnnotation, created)]) layer"

definition attest_image :: "string \<Rightarrow> string \<Rightarrow> v1_Layer \<Rightarrow> built_image" where
  "attest_image created summary layer =
     artefact_image AttestMediaType
       (gm_put AttestationsSummaryAnnotation summary [(CreatedAnnotation, created)]) layer"

definition MarshalSummaryAnnotation ::
    "'p artefact_env \<Rightarrow> choices \<Rightarrow> 'p Statements \<Rightarrow> string res" where
  "MarshalSummaryAnnotation E c statements =
     EncodeAnnotation E (SummaryAnnotation_to_json (MakeSummaryAnnotation c statements))"

definition artefact_index ::
    "'p artefact_env \<Rightarrow> choices \<Rightarrow> int \<Rightarrow> v1_Layer \<Rightarrow> v1_Layer option \<Rightarrow> 'p Statements
      \<Rightarrow> v1_ImageIndex res" where
  "artefact_index E c timestamp configLayer attestLayer statements =
     (let created = RFC3339 E timestamp;
          index = empty_Index\<lparr>BuiltIndexAnnotations := [(CreatedAnnotation, created)]\<rparr>;
          index = mutate_AppendManifests E index makeDescriptorWithPlatform
                    (content_image created configLayer)
      in case attestLayer of
           None \<Rightarrow> Inr (as_ImageIndex E index)
         | Some layer \<Rightarrow>
             rbind (MarshalSummaryAnnotation E c statements) (\<lambda>summary.
             Inr (as_ImageIndex E
               (mutate_AppendManifests E index makeDescriptorWithPlatform
                 (attest_image created summary layer)))))"

text \<open>Everything up to the first write to the registry; it gives the two tags and the index.\<close>

definition prepare_artefact ::
    "('w, 'r) remote \<Rightarrow> 'p artefact_env \<Rightarrow> choices \<Rightarrow> string \<Rightarrow> string \<Rightarrow> int option
      \<Rightarrow> 'p Statements \<Rightarrow> ('r \<times> 'r \<times> v1_ImageIndex \<times> string) res" where
  "prepare_artefact R E c destinationRef sourceDir timestamp statements =
     rbind (MkdirTemp E) (\<lambda>_.
     rbind (OpenFile E) (\<lambda>_.
     rbind (BuildArtefact E sourceDir) (\<lambda>archive.
     rbind (wrap ''failed to serialise attestations'' (BuildAttestations E statements)) (\<lambda>attestLayer.
     rbind (wrap ''invalid URL'' (NewRepository R destinationRef)) (\<lambda>repo.
     let h = hex_EncodeToString (sha256_Sum E archive);
         tag = repo_Tag R repo (ConfigImageTagPrefix @ h);
         tagAlias = repo_Tag R repo (ConfigImageTagPrefix @ take 7 h);
         time = (case timestamp of Some t \<Rightarrow> t | None \<Rightarrow> time_Now E)
     in rbind (wrap ''creating artefact content layer failed''
                (tarball_Layer E archive ContentMediaType)) (\<lambda>configLayer.
        rbind (artefact_index E c time configLayer attestLayer statements) (\<lambda>index.
        rbind (wrap ''parsing index digest failed'' (IndexDigest index)) (\<lambda>digest.
        Inr (tag, tagAlias, index, digest)))))))))"

definition PushArtefact ::
    "('w, 'r) remote \<Rightarrow> 'p artefact_env \<Rightarrow> choices \<Rightarrow> string \<Rightarrow> string \<Rightarrow> int option
      \<Rightarrow> 'p Statements \<Rightarrow> 'w \<Rightarrow> string res \<times> 'w" where
  "PushArtefact R E c destinationRef sourceDir timestamp statements w =
     (case prepare_artefact R E c destinationRef sourceDir timestamp statements of
        Inl e \<Rightarrow> (Inl e, w)
      | Inr (tag, tagAlias, index, digest) \<Rightarrow>
          (case WriteIndex R tag index w of
             (Inl e, w') \<Rightarrow> (wrap ''pushing index failed'' (Inl e), w')
           | (Inr _, w') \<Rightarrow>
               (case remote_Tag R tagAlias index w' of
                  (Inl e, w'') \<Rightarrow> (wrap ''adding alias tagging failed'' (Inl e), w'')
                | (Inr _, w'') \<Rightarrow> (Inr (ref_String R tagAlias @ ''@'' @ digest), w''))))"

subsection \<open>What the archive holds\<close>

text \<open>The part of a tree that the archive depends on: names, modes and contents.\<close>

definition scrub_info :: "file_info \<Rightarrow> file_info" where
  "scrub_info i =
     i\<lparr>Uid := 0, Gid := 0, Uname := [], Gname := [], ModTime := 0, AccessTime := 0, ChangeTime := 0\<rparr>"

fun scrub :: "file_node \<Rightarrow> file_node" where
  "scrub (File i c) = File (scrub_info i) c"
| "scrub (Directory i e cs) = Directory (scrub_info i) e (map (\<lambda>(n, c). (n, scrub c)) cs)"
| "scrub (Special i) = Special (scrub_info i)"

lemma is_dir_scrub [simp]: "is_dir (scrub d) = is_dir d" "is_regular (scrub d) = is_regular d"
  by (cases d; simp)+

lemma write_content_scrub [simp]: "write_content (scrub d) = write_content d"
  by (cases d) (simp_all add: write_content_def scrub_info_def)

lemma clear_header_scrub:
  "clear_environment (FileInfoHeader (scrub d) p) = clear_environment (FileInfoHeader d p)"
  "clear_environment ((FileInfoHeader (scrub d) p)\<lparr>HeaderName := n\<rparr>) =
   clear_environment ((FileInfoHeader d p)\<lparr>HeaderName := n\<rparr>)"
  by (cases d; simp add: FileInfoHeader_def clear_environment_def scrub_info_def Let_def)+

lemma archive_entry_scrub: "archive_entry E a st p (scrub d) e = archive_entry E a st p d e"
proof
  fix ms
  show "archive_entry E a st p (scrub d) e ms = archive_entry E a st p d e ms"
  proof (cases e)
    case None
    then show ?thesis
    proof (cases st)
      case (Exists isDir i)
      show ?thesis
        by (cases isDir; cases "filepath_Rel a p")
          (simp_all add: archive_entry_def None Exists clear_header_scrub Let_def)
    qed (simp_all add: archive_entry_def)
  qed (simp add: archive_entry_def)
qed

lemma visits_scrub: "visits p (scrub t) = map (\<lambda>(q, d, e). (q, scrub d, e)) (visits p t)"
proof (induction p t rule: visits.induct)
  case (1 p i e cs)
  have "concat (map (\<lambda>(n, c). visits (filepath_Join [p, n]) (scrub c)) cs) =
      concat (map (\<lambda>(n, c). map (\<lambda>(q, d, e). (q, scrub d, e)) (visits (filepath_Join [p, n]) c)) cs)"
    using 1 by (intro arg_cong [where f = concat] map_cong) auto
  then show ?case
    by (auto simp: map_concat comp_def case_prod_unfold split: option.splits)
qed auto

lemma sort_node_scrub: "sort_node (scrub t) = scrub (sort_node t)"
proof (induction t rule: sort_node.induct)
  case (1 i e cs)
  have "map (\<lambda>(n, c). (n, sort_node (scrub c))) cs = map (\<lambda>(n, c). (n, scrub (sort_node c))) cs"
    using 1 by (intro map_cong) auto
  then have "map (\<lambda>(n, c). (n, sort_node c)) (map (\<lambda>(n, c). (n, scrub c)) cs) =
      map (\<lambda>(n, c). (n, scrub c)) (map (\<lambda>(n, c). (n, sort_node c)) cs)"
    by (simp add: comp_def case_prod_unfold)
  moreover have "sort_key fst (map (\<lambda>(n, c). (n, scrub c)) xs) = map (\<lambda>(n, c). (n, scrub c)) (sort_key fst xs)"
    for xs :: "(string \<times> file_node) list"
  proof -
    have ins: "insort_key fst (n, scrub c) (map (\<lambda>(n, c). (n, scrub c)) xs) =
        map (\<lambda>(n, c). (n, scrub c)) (insort_key fst (n, c) xs)" for n c and xs :: "(string \<times> file_node) list"
      by (induction xs) auto
    show ?thesis by (induction xs) (auto simp: ins)
  qed
  ultimately show ?case by (simp del: map_map)
qed auto

lemma sort_node_sort_node [simp]: "sort_node (sort_node t) = sort_node t"
proof (induction t rule: sort_node.induct)
  case (1 i e cs)
  let ?s = "sort_key fst (map (\<lambda>(n, c). (n, sort_node c)) cs)"
  have "map (\<lambda>(n, c). (n, sort_node c)) ?s = ?s"
    using 1 by (intro map_idI) auto
  moreover have "sort_key fst ?s = ?s" by (simp add: sort_key_id_if_sorted)
  ultimately show ?case by (simp del: map_map)
qed auto

text \<open>C13: The archive is reproducible: \<open>BuildArtefact\<close> gives the same bytes, or the same error, when
  the entries of every directory are listed in another order and when the owners, groups and all
  times of the files are different.\<close>

theorem BuildArtefact_reproducible:
  "BuildArtefact (E\<lparr>Lstat := \<lambda>p. rmap (\<lambda>t. sort_node (scrub t)) (Lstat E p)\<rparr>) sourceDir =
   BuildArtefact E sourceDir"
proof -
  have hdr: "tar_WriteHeader (E\<lparr>Lstat := f\<rparr>) = tar_WriteHeader E" for f by simp
  have "archive_entry (E\<lparr>Lstat := f\<rparr>) = archive_entry E" for f
    by (intro ext) (unfold archive_entry_def hdr, rule refl)
  moreover have "rfold (\<lambda>(p, d, err). archive_entry E a st p d err) (visits p (sort_node (sort_node (scrub t)))) [] =
      rfold (\<lambda>(p, d, err). archive_entry E a st p d err) (visits p (sort_node t)) []" for a st p t
    by (simp add: sort_node_scrub visits_scrub rfold_map comp_def case_prod_unfold archive_entry_scrub)
  ultimately have "WalkDir p (rmap (\<lambda>t. sort_node (scrub t)) (Lstat E p))
        (archive_entry (E\<lparr>Lstat := f\<rparr>) p st) [] =
      WalkDir p (Lstat E p) (archive_entry E p st) []" for f p st
    by (cases "Lstat E p") (simp_all add: WalkDir_def)
  note walk = this
  have fields: "Abs (E\<lparr>Lstat := f\<rparr>) = Abs E" "Stat (E\<lparr>Lstat := f\<rparr>) = Stat E"
    "Lstat (E\<lparr>Lstat := f\<rparr>) = f" "targz (E\<lparr>Lstat := f\<rparr>) = targz E" for f by simp_all
  show ?thesis unfolding BuildArtefact_def Let_def fields walk ..
qed

text \<open>The members of the archive of a directory, and the files in it.\<close>

definition member_header :: "string list \<Rightarrow> file_node \<Rightarrow> tar_header" where
  "member_header ns d =
     clear_environment ((FileInfoHeader d [])\<lparr>HeaderName := path_of False ns\<rparr>)"

definition archive_members :: "file_node \<Rightarrow> tar_member list" where
  "archive_members t =
     map (\<lambda>(ns, d). (member_header ns d, case d of File i (Inr content) \<Rightarrow> content | _ \<Rightarrow> []))
       (filter (\<lambda>(ns, d). is_regular d \<or> is_dir d) (nodes (sort_node t)))"

definition archive_files :: "tar_member list \<Rightarrow> (string \<times> string) list" where
  "archive_files ms = map (\<lambda>(h, content). (HeaderName h, content)) (filter (\<lambda>(h, _). \<not> HeaderDir h) ms)"

fun complete :: "file_node \<Rightarrow> bool" where
  "complete (File i c) \<longleftrightarrow> \<not> isl c"
| "complete (Directory i e cs) \<longleftrightarrow> e = None \<and> list_all (\<lambda>(n, c). complete c) cs"
| "complete (Special i) \<longleftrightarrow> True"

lemma complete_readable: "complete t \<Longrightarrow> readable t"
  by (induction t rule: complete.induct) (auto simp: list_all_iff)

lemma complete_sort_node [simp]: "complete (sort_node t) = complete t"
  by (induction t rule: sort_node.induct) (auto simp: list_all_iff)

lemma complete_nodes: "complete t \<Longrightarrow> (ns, d) \<in> set (nodes t) \<Longrightarrow> complete d"
proof (induction t arbitrary: ns rule: nodes.induct)
  case (1 i e cs)
  then show ?case by (auto simp: list_all_iff)
qed auto

lemma wf_nodes: "wf_node t \<Longrightarrow> (ns, d) \<in> set (nodes t) \<Longrightarrow> wf_node d \<and> list_all entry_name ns"
proof (induction t arbitrary: ns rule: nodes.induct)
  case (1 i e cs)
  then show ?case by (auto simp: list_all_iff) blast+
qed auto

lemma archive_entry_node:
  assumes "filepath_IsAbs p" and "filepath_Clean p = p" and "list_all entry_name ns"
    and "wf_node d" and "complete d" and "\<And>h. tar_WriteHeader E h = Inr ()"
  shows "archive_entry E p (Exists True i) (under p ns) d None ms =
    Inr (if is_regular d \<or> is_dir d
         then ms @ [(member_header ns d, case d of File i (Inr content) \<Rightarrow> content | _ \<Rightarrow> [])]
         else ms)"
proof -
  have h: "clear_environment ((FileInfoHeader d q)\<lparr>HeaderName := path_of False ns\<rparr>) = member_header ns d" for d q
    by (simp add: member_header_def FileInfoHeader_def clear_environment_def Let_def)
  show ?thesis
    using assms(4-6) Rel_under_root [OF assms(1-3)]
    by (cases d) (auto simp: archive_entry_def h Let_def write_content_def isl_def split: sum.splits)
qed

lemma rfold_append_entries:
  assumes "\<And>x ms. x \<in> set xs \<Longrightarrow> f x ms = Inr (if P x then ms @ [g x] else ms)"
  shows "rfold f xs ms = Inr (ms @ map g (filter P xs))"
  using assms by (induction xs arbitrary: ms) auto

lemma BuildArtefact_members:
  assumes "Abs E sourceDir = Inr p" and "filepath_IsAbs p" and "filepath_Clean p = p"
    and "Stat E p = Exists True i" and "Lstat E p = Inr t" and "wf_node t" and "complete t"
    and "\<And>h. tar_WriteHeader E h = Inr ()"
  shows "BuildArtefact E sourceDir = Inr (targz E (archive_members t))"
proof -
  have "rfold (\<lambda>(q, d, err). archive_entry E p (Exists True i) q d err) (visits p (sort_node t)) [] =
      rfold (\<lambda>(ns, d). archive_entry E p (Exists True i) (under p ns) d None) (nodes (sort_node t)) []"
    using assms(7) by (simp add: visits_nodes complete_readable rfold_map comp_def case_prod_unfold)
  also have "\<dots> = Inr ([] @ archive_members t)"
    unfolding archive_members_def
  proof (rule rfold_append_entries)
    fix x ms
    assume x: "x \<in> set (nodes (sort_node t))"
    obtain ns d where [simp]: "x = (ns, d)" by (cases x)
    have "wf_node d \<and> list_all entry_name ns" "complete d"
      using x assms(6,7) wf_nodes [of "sort_node t" ns d] complete_nodes [of "sort_node t" ns d] by auto
    then show "(case x of (ns, d) \<Rightarrow> archive_entry E p (Exists True i) (under p ns) d None) ms =
        Inr (if case x of (ns, d) \<Rightarrow> is_regular d \<or> is_dir d
             then ms @ [case x of (ns, d) \<Rightarrow> (member_header ns d, case d of File i (Inr content) \<Rightarrow> content | _ \<Rightarrow> [])]
             else ms)"
      using archive_entry_node [OF assms(2,3) _ _ _ assms(8)] by simp
  qed
  finally show ?thesis
    using assms(1,4,5) by (simp add: BuildArtefact_def WalkDir_def)
qed

lemma names_down: "list_all entry_name ns \<Longrightarrow> down_comps ns"
  by (auto simp: down_comps_def list_all_iff entry_name_def)

lemma path_of_names_inject:
  "list_all entry_name ns \<Longrightarrow> list_all entry_name ms \<Longrightarrow> path_of False ns = path_of False ms \<longleftrightarrow> ns = ms"
  by (rule path_of_inject) (simp_all add: names_down)

lemma HeaderName_member [simp]: "HeaderName (member_header ns d) = path_of False ns"
  by (simp add: member_header_def clear_environment_def)

lemma HeaderDir_member [simp]: "HeaderDir (member_header ns d) = is_dir d"
  by (simp add: member_header_def clear_environment_def FileInfoHeader_def Let_def)

lemma archive_files_members:
  assumes "wf_node t" and "complete t"
  shows "set (archive_files (archive_members t)) =
    {(path_of False ns, content) | ns content. \<exists>i. find_node t ns = Some (File i (Inr content))}"
proof -
  have found: "(ns, d) \<in> set (nodes (sort_node t)) \<longleftrightarrow> map_option sort_node (find_node t ns) = Some d" for ns d
    using assms(1) by (simp add: nodes_find find_sort_node)
  have file_node: "sort_node e = File i c \<longleftrightarrow> e = File i c" for e i c by (cases e) auto
  have "(q, content) \<in> set (archive_files (archive_members t)) \<longleftrightarrow>
      (\<exists>ns i. q = path_of False ns \<and> (ns, File i (Inr content)) \<in> set (nodes (sort_node t)))" (is "?l = ?r")
    for q content
  proof
    assume ?l
    then obtain ns d where d: "(ns, d) \<in> set (nodes (sort_node t))" "is_regular d" "q = path_of False ns"
      "content = (case d of File i (Inr c) \<Rightarrow> c | _ \<Rightarrow> [])"
      by (auto simp: archive_files_def archive_members_def)
    moreover have "complete d" using assms(2) complete_nodes [OF _ d(1)] by simp
    ultimately show ?r by (cases d) (auto simp: isl_def split: sum.splits)
  next
    assume ?r
    then obtain ns i where q: "q = path_of False ns"
      and n: "(ns, File i (Inr content)) \<in> set (nodes (sort_node t))" by blast
    let ?m = "(member_header ns (File i (Inr content)), content)"
    have "?m \<in> set (archive_members t)"
      unfolding archive_members_def set_map using n
      by (intro image_eqI [where x = "(ns, File i (Inr content))"]) simp_all
    then have "(HeaderName (fst ?m), snd ?m) \<in> set (archive_files (archive_members t))"
      unfolding archive_files_def set_map by (intro image_eqI [where x = ?m]) simp_all
    then show ?l using q by simp
  qed
  then show ?thesis unfolding found by (auto simp: file_node)
qed

lemma distinct_archive_names:
  assumes "wf_node t"
  shows "distinct (map (\<lambda>(h, _). HeaderName h) (archive_members t))"
proof -
  let ?xs = "filter (\<lambda>(ns, d). is_regular d \<or> is_dir d) (nodes (sort_node t))"
  have "distinct (map fst ?xs)"
    using assms by (intro distinct_map_filter distinct_nodes) simp
  moreover have "inj_on (path_of False) (fst ` set ?xs)"
    using wf_nodes [of "sort_node t"] assms
    by (intro inj_onI) (force simp: path_of_names_inject)
  ultimately have "distinct (map (path_of False) (map fst ?xs))"
    by (simp only: distinct_map set_map simp_thms)
  then show ?thesis by (simp add: archive_members_def comp_def case_prod_unfold)
qed

text \<open>C12: The archive of a directory holds every regular file below it once, under its path
  relative to the directory and with its content, and no other file.\<close>

theorem BuildArtefact_holds_all_files:
  assumes "Abs E sourceDir = Inr p" and "filepath_IsAbs p" and "filepath_Clean p = p"
    and "Stat E p = Exists True i" and "Lstat E p = Inr t" and "wf_node t" and "complete t"
    and "\<And>h. tar_WriteHeader E h = Inr ()"
  shows "\<exists>members. BuildArtefact E sourceDir = Inr (targz E members)
    \<and> distinct (map (\<lambda>(h, _). HeaderName h) members)
    \<and> set (archive_files members) =
       {(path_of False ns, content) | ns content. \<exists>i. find_node t ns = Some (File i (Inr content))}"
  using BuildArtefact_members [OF assms] archive_files_members [OF assms(6,7)]
    distinct_archive_names [OF assms(6)] by blast

subsection \<open>Fetching what was pushed\<close>

text \<open>
  What a registry promises to a client that pushed an index and tagged it: the reference made of
  the tag and the digest parses, and it gets this index.
\<close>

definition serves_pushed :: "('w, 'r) remote \<Rightarrow> bool" where
  "serves_pushed R \<longleftrightarrow>
     (\<forall>dest repo t1 t2 index digest w w1 w2.
        NewRepository R dest = Inr repo \<longrightarrow> CHR ''@'' \<notin> set t2 \<longrightarrow> IndexDigest index = Inr digest \<longrightarrow>
        WriteIndex R (repo_Tag R repo t1) index w = (Inr (), w1) \<longrightarrow>
        remote_Tag R (repo_Tag R repo t2) index w1 = (Inr (), w2) \<longrightarrow>
        (\<exists>r h. ParseReference R (ref_String R (repo_Tag R repo t2) @ ''@'' @ digest) = Inr r
           \<and> remote_Head R r w2 = Inr h \<and> MediaType h = OCIImageIndex
           \<and> remote_Index R r w2 = Inr index))"

text \<open>Images whose configs have different media types have different digests.\<close>

definition hash_separates :: "'p artefact_env \<Rightarrow> bool" where
  "hash_separates E \<longleftrightarrow>
     (\<forall>m m'. image_hash E m = image_hash E m' \<longrightarrow> ConfigMediaType m = ConfigMediaType m')"

lemma media_types_differ [simp]:
  "ContentMediaType \<noteq> AttestMediaType" "AttestMediaType \<noteq> ContentMediaType"
  "ContentMediaType \<noteq> OCIConfigJSON" "ContentMediaType \<noteq> DockerConfigJSON"
  "AttestMediaType \<noteq> OCIConfigJSON" "AttestMediaType \<noteq> DockerConfigJSON"
  by (simp_all add: ContentMediaType_def AttestMediaType_def mediaTypePrefix_def OCIConfigJSON_def
      DockerConfigJSON_def)

lemma ContentInterpreterAnnotation_other [simp]:
  "AttestationsSummaryAnnotation \<noteq> ContentInterpreterAnnotation"
  "AttestationsSummaryAnnotation \<noteq> CreatedAnnotation"
  by (simp_all add: AttestationsSummaryAnnotation_def ContentInterpreterAnnotation_def
      CreatedAnnotation_def mediaTypePrefix_def)

text \<open>One image of a package: an annotated layer of the media type that its config has.\<close>

lemma artefact_image_simps [simp]:
  "BuiltMediaType (artefact_image mt anns l) = OCIManifestSchema1"
  "BuiltConfigMediaType (artefact_image mt anns l) = mt"
  "BuiltLayers (artefact_image mt anns l) = [l]"
  "BuiltAnnotations (artefact_image mt anns l) = merge_annotations anns []"
  by (simp_all add: artefact_image_def mutate_Append_def mutate_Annotations_def empty_Image_def)

definition artefact_Descriptor :: "'p artefact_env \<Rightarrow> built_image \<Rightarrow> Descriptor" where
  "artefact_Descriptor E b =
     \<lparr>MediaType = OCIManifestSchema1, DescriptorSize = image_size E (built_Manifest b),
      DescriptorDigest = image_hash E (built_Manifest b), ArtifactType = BuiltConfigMediaType b,
      DescriptorPlatform = DescriptorPlatform makeDescriptorWithPlatform, DescriptorAnnotations = []\<rparr>"

lemma append_artefact_image:
  assumes "mt \<noteq> OCIConfigJSON" and "mt \<noteq> DockerConfigJSON"
  shows "mutate_AppendManifests E x makeDescriptorWithPlatform (artefact_image mt anns l) =
    x\<lparr>BuiltManifests := BuiltManifests x @
       [(artefact_Descriptor E (artefact_image mt anns l), as_Image E (artefact_image mt anns l))]\<rparr>"
  using assms by (simp add: mutate_AppendManifests_def artefact_Descriptor_def Let_def)

lemma fetch_artefact_image:
  assumes "b = artefact_image mt anns l" and "LayerMediaType l = mt" and "Compressed l = Inr blob"
    and "\<not> skip mts mt" and "IndexImage idx (image_hash E (built_Manifest b)) = Inr (as_Image E b)"
  shows "fetch_manifest (Some idx) mts (artefact_Descriptor E b) (infos, ms) =
    Inr (infos @ [\<lparr>Content = blob, InfoMediaType = mt, InfoAnnotations = merge_annotations anns [],
           InfoDigest = LayerDigest l\<rparr>],
         gm_put (image_hash E (built_Manifest b)) (built_Manifest b) ms)"
  using assms
  by (simp add: fetch_manifest_def artefact_Descriptor_def getImage_def as_Image_def
      built_Manifest_def layer_Descriptor_def fetch_layer_def newArtifcatInfoFromLayerDescriptor_def)

lemma hex_no_at: "CHR ''@'' \<notin> set (hex_EncodeToString s)"
proof -
  have "hex_digit n \<in> set hex_digits" for n
    unfolding hex_digit_def by (rule nth_mem) (simp add: hex_digits_def)
  moreover have "CHR ''@'' \<notin> set hex_digits" by (simp add: hex_digits_def)
  ultimately have "CHR ''@'' \<noteq> hex_digit n" for n by metis
  then show ?thesis by (induction s) simp_all
qed

text \<open>The index for one or two images serves each of them under its digest.\<close>

lemma fetch_artefact_index:
  assumes "artefact_index E c t l1 l2 statements = Inr index"
    and "LayerMediaType l1 = ContentMediaType" and "Compressed l1 = Inr b1"
    and "case l2 of None \<Rightarrow> True | Some l \<Rightarrow> LayerMediaType l = AttestMediaType \<and> Compressed l = Inr b2"
    and "hash_separates E" and "\<not> skip mts ContentMediaType" and "\<not> skip mts AttestMediaType"
  shows "\<exists>im infos ms. get_IndexManifest index = Inr im \<and> Manifests im \<noteq> []
    \<and> FetchFromIndexOrImage (Some index) (Some im) None mts = Inr (infos, ms)
    \<and> map (\<lambda>i. (InfoMediaType i, Content i)) infos =
        (ContentMediaType, b1) # (if l2 = None then [] else [(AttestMediaType, b2)])
    \<and> map (\<lambda>(d, m). ConfigMediaType m) ms =
        ContentMediaType # (if l2 = None then [] else [AttestMediaType])
    \<and> (l2 \<noteq> None \<longrightarrow> (\<exists>summary. MarshalSummaryAnnotation E c statements = Inr summary
        \<and> gm_get (InfoAnnotations (last infos)) AttestationsSummaryAnnotation = Some summary))"
proof (cases l2)
  case None
  let ?b = "content_image (RFC3339 E t) l1"
  have index: "index = as_ImageIndex E
      \<lparr>BuiltIndexAnnotations = [(CreatedAnnotation, RFC3339 E t)],
       BuiltManifests = [(artefact_Descriptor E ?b, as_Image E ?b)]\<rparr>"
    using assms(1) None
    by (simp add: artefact_index_def Let_def content_image_def append_artefact_image empty_Index_def)
  have "IndexImage index (image_hash E (built_Manifest ?b)) = Inr (as_Image E ?b)"
    by (simp add: index as_ImageIndex_def Let_def artefact_Descriptor_def)
  then have "fetch_manifest (Some index) mts (artefact_Descriptor E ?b) ([], []) =
      Inr ([\<lparr>Content = b1, InfoMediaType = ContentMediaType,
             InfoAnnotations = merge_annotations (gm_put ContentInterpreterAnnotation
               ContentInterpreterKubectlApply [(CreatedAnnotation, RFC3339 E t)]) [],
             InfoDigest = LayerDigest l1\<rparr>],
           gm_put (image_hash E (built_Manifest ?b)) (built_Manifest ?b) [])"
    using assms(6) by (subst fetch_artefact_image [OF content_image_def assms(2,3)]) auto
  moreover have "ConfigMediaType (built_Manifest ?b) = ContentMediaType"
    by (simp add: built_Manifest_def content_image_def)
  ultimately show ?thesis
    using None by (simp add: index as_ImageIndex_def Let_def FetchFromIndexOrImage_def gm_put_def)
next
  case (Some l)
  obtain summary where summary: "MarshalSummaryAnnotation E c statements = Inr summary"
    using assms(1) Some by (auto simp: artefact_index_def Let_def res_simps)
  let ?b = "content_image (RFC3339 E t) l1" and ?a = "attest_image (RFC3339 E t) summary l"
  have index: "index = as_ImageIndex E
      \<lparr>BuiltIndexAnnotations = [(CreatedAnnotation, RFC3339 E t)],
       BuiltManifests = [(artefact_Descriptor E ?b, as_Image E ?b), (artefact_Descriptor E ?a, as_Image E ?a)]\<rparr>"
    using assms(1) Some summary
    by (simp add: artefact_index_def Let_def content_image_def attest_image_def append_artefact_image
        empty_Index_def)
  have types: "ConfigMediaType (built_Manifest ?a) = AttestMediaType"
      "ConfigMediaType (built_Manifest ?b) = ContentMediaType"
    by (simp_all add: built_Manifest_def content_image_def attest_image_def)
  then have "ConfigMediaType (built_Manifest ?a) \<noteq> ConfigMediaType (built_Manifest ?b)" by simp
  then have differ: "image_hash E (built_Manifest ?a) \<noteq> image_hash E (built_Manifest ?b)"
    using assms(5) unfolding hash_separates_def by blast
  have img: "IndexImage index (image_hash E (built_Manifest ?b)) = Inr (as_Image E ?b)"
      "IndexImage index (image_hash E (built_Manifest ?a)) = Inr (as_Image E ?a)"
    using differ by (simp_all add: index as_ImageIndex_def Let_def artefact_Descriptor_def)
  have first: "fetch_manifest (Some index) mts (artefact_Descriptor E ?b) ([], []) =
      Inr ([\<lparr>Content = b1, InfoMediaType = ContentMediaType,
             InfoAnnotations = merge_annotations (gm_put ContentInterpreterAnnotation
               ContentInterpreterKubectlApply [(CreatedAnnotation, RFC3339 E t)]) [],
             InfoDigest = LayerDigest l1\<rparr>],
           gm_put (image_hash E (built_Manifest ?b)) (built_Manifest ?b) [])"
    using img assms(6) by (subst fetch_artefact_image [OF content_image_def assms(2,3)]) auto
  have l: "LayerMediaType l = AttestMediaType" "Compressed l = Inr b2" using assms(4) Some by auto
  have second: "fetch_manifest (Some index) mts (artefact_Descriptor E ?a) (infos, ms) =
      Inr (infos @ [\<lparr>Content = b2, InfoMediaType = AttestMediaType,
             InfoAnnotations = merge_annotations (gm_put AttestationsSummaryAnnotation
               summary [(CreatedAnnotation, RFC3339 E t)]) [],
             InfoDigest = LayerDigest l\<rparr>],
           gm_put (image_hash E (built_Manifest ?a)) (built_Manifest ?a) ms)" for infos ms
    using img assms(7) by (subst fetch_artefact_image [OF attest_image_def l]) auto
  have "gm_get (merge_annotations (gm_put AttestationsSummaryAnnotation
      summary [(CreatedAnnotation, RFC3339 E t)]) []) AttestationsSummaryAnnotation = Some summary"
    by (simp add: merge_annotations_def gm_put_def gm_get_def update_conv')
  moreover have "\<exists>im. get_IndexManifest index = Inr im \<and>
      Manifests im = [artefact_Descriptor E ?b, artefact_Descriptor E ?a]"
    by (simp add: index as_ImageIndex_def Let_def)
  ultimately show ?thesis
    using Some summary first second types differ
    by (auto simp: FetchFromIndexOrImage_def gm_put_def)
qed

lemma tarball_Layer_Inr:
  "tarball_Layer E blob mt = Inr l \<Longrightarrow> LayerMediaType l = mt \<and> Compressed l = Inr blob"
  by (auto simp: tarball_Layer_def res_simps)

lemma BuildAttestations_Inr:
  assumes "BuildAttestations E statements = Inr l2"
  shows "\<exists>output. Statements_EncodeWith (EncodeStatement E) statements [] = Inr output
    \<and> (l2 = None \<longleftrightarrow> statements = [])
    \<and> (case l2 of None \<Rightarrow> True
        | Some l \<Rightarrow> LayerMediaType l = AttestMediaType \<and> Compressed l = Inr (gzip E output))"
  using assms tarball_Layer_Inr [of E _ AttestMediaType]
  by (auto simp: BuildAttestations_def Statements_EncodeWith_def res_simps split: if_splits)

lemma config_tag_no_at: "CHR ''@'' \<notin> set (ConfigImageTagPrefix @ take 7 (hex_EncodeToString h))"
  using hex_no_at [of h] by (auto simp: ConfigImageTagPrefix_def dest: in_set_takeD)

text \<open>What is at the reference that \<open>PushArtefact\<close> returned, for any media types that are asked for.\<close>

lemma Index_pushed:
  assumes "PushArtefact R E c dest dir timestamp statements w = (Inr ref, w')"
    and "serves_pushed R" and "hash_separates E"
  shows "\<exists>archive output index im. BuildArtefact E dir = Inr archive
    \<and> Statements_EncodeWith (EncodeStatement E) statements [] = Inr output
    \<and> GetIndexOrImage R ref w' = Inr (Some index, Some im, None)
    \<and> (\<exists>digest. IndexDigest index = Inr digest)
    \<and> (\<forall>mts. \<not> skip mts ContentMediaType \<longrightarrow> \<not> skip mts AttestMediaType \<longrightarrow>
        (\<exists>infos ms. FetchFromIndexOrImage (Some index) (Some im) None mts = Inr (infos, ms)
        \<and> map (\<lambda>i. (InfoMediaType i, Content i)) infos =
            (ContentMediaType, archive) # (if statements = [] then [] else [(AttestMediaType, gzip E output)])
        \<and> map (\<lambda>(d, m). ConfigMediaType m) ms =
            ContentMediaType # (if statements = [] then [] else [AttestMediaType])
        \<and> (statements \<noteq> [] \<longrightarrow> (\<exists>summary. MarshalSummaryAnnotation E c statements = Inr summary
            \<and> gm_get (InfoAnnotations (last infos)) AttestationsSummaryAnnotation = Some summary))))"
proof -
  obtain tag talias index digest w1 where
    prep: "prepare_artefact R E c dest dir timestamp statements = Inr (tag, talias, index, digest)"
    and pushed: "WriteIndex R tag index w = (Inr (), w1)" "remote_Tag R talias index w1 = (Inr (), w')"
    and ref: "ref = ref_String R talias @ ''@'' @ digest"
    using assms(1) by (auto simp: PushArtefact_def split: sum.splits prod.splits fault.splits)
  obtain archive l2 repo l1 t where archive: "BuildArtefact E dir = Inr archive"
    and l2: "BuildAttestations E statements = Inr l2" and repo: "NewRepository R dest = Inr repo"
    and tag: "tag = repo_Tag R repo (ConfigImageTagPrefix @ hex_EncodeToString (sha256_Sum E archive))"
    and talias_def: "talias = repo_Tag R repo (ConfigImageTagPrefix @ take 7 (hex_EncodeToString (sha256_Sum E archive)))"
    and l1: "tarball_Layer E archive ContentMediaType = Inr l1"
    and index: "artefact_index E c t l1 l2 statements = Inr index"
    and digest: "IndexDigest index = Inr digest"
    using prep by (auto simp: prepare_artefact_def Let_def res_simps)
  obtain "output" where outp: "Statements_EncodeWith (EncodeStatement E) statements [] = Inr output"
      "l2 = None \<longleftrightarrow> statements = []"
      "case l2 of None \<Rightarrow> True
        | Some l \<Rightarrow> LayerMediaType l = AttestMediaType \<and> Compressed l = Inr (gzip E output)"
    using BuildAttestations_Inr [OF l2] by blast
  obtain r h where r: "ParseReference R ref = Inr r" "remote_Head R r w' = Inr h"
      "MediaType h = OCIImageIndex" "remote_Index R r w' = Inr index"
    using assms(2) repo config_tag_no_at digest pushed
    unfolding serves_pushed_def ref talias_def tag by blast
  have l: "LayerMediaType l1 = ContentMediaType \<and> Compressed l1 = Inr archive"
    by (rule tarball_Layer_Inr [OF l1])
  note fetched = fetch_artefact_index [OF index conjunct1 [OF l] conjunct2 [OF l] outp(3) assms(3)]
  obtain im where im: "get_IndexManifest index = Inr im" "Manifests im \<noteq> []"
    using fetched [of "[]"] by (auto simp: skip_def)
  then have "GetIndexOrImage R ref w' = Inr (Some index, Some im, None)"
    using r by (simp add: GetIndexOrImage_def)
  moreover have "\<exists>infos ms. FetchFromIndexOrImage (Some index) (Some im) None mts = Inr (infos, ms)
        \<and> map (\<lambda>i. (InfoMediaType i, Content i)) infos =
            (ContentMediaType, archive) # (if statements = [] then [] else [(AttestMediaType, gzip E output)])
        \<and> map (\<lambda>(d, m). ConfigMediaType m) ms =
            ContentMediaType # (if statements = [] then [] else [AttestMediaType])
        \<and> (statements \<noteq> [] \<longrightarrow> (\<exists>summary. MarshalSummaryAnnotation E c statements = Inr summary
            \<and> gm_get (InfoAnnotations (last infos)) AttestationsSummaryAnnotation = Some summary))"
    if "\<not> skip mts ContentMediaType" and "\<not> skip mts AttestMediaType" for mts
    using fetched [OF that] im(1) unfolding outp(2) by simp
  ultimately show ?thesis using archive outp(1) digest by blast
qed

lemma Fetch_pushed:
  assumes "PushArtefact R E c dest dir timestamp statements w = (Inr ref, w')"
    and "serves_pushed R"
    and "hash_separates E"
  shows "\<exists>archive output infos. BuildArtefact E dir = Inr archive
    \<and> Statements_EncodeWith (EncodeStatement E) statements [] = Inr output
    \<and> Fetch R ref [ContentMediaType, AttestMediaType] w' = Inr infos
    \<and> map (\<lambda>i. (InfoMediaType i, Content i)) infos =
        (ContentMediaType, archive) # (if statements = [] then [] else [(AttestMediaType, gzip E output)])
    \<and> (statements \<noteq> [] \<longrightarrow> (\<exists>summary. MarshalSummaryAnnotation E c statements = Inr summary
        \<and> gm_get (InfoAnnotations (last infos)) AttestationsSummaryAnnotation = Some summary))"
proof -
  obtain archive "output" index im where pushed: "BuildArtefact E dir = Inr archive"
      "Statements_EncodeWith (EncodeStatement E) statements [] = Inr output"
      "GetIndexOrImage R ref w' = Inr (Some index, Some im, None)"
    and fetched: "\<And>mts. \<not> skip mts ContentMediaType \<Longrightarrow> \<not> skip mts AttestMediaType \<Longrightarrow>
        \<exists>infos ms. FetchFromIndexOrImage (Some index) (Some im) None mts = Inr (infos, ms)
        \<and> map (\<lambda>i. (InfoMediaType i, Content i)) infos =
            (ContentMediaType, archive) # (if statements = [] then [] else [(AttestMediaType, gzip E output)])
        \<and> map (\<lambda>(d, m). ConfigMediaType m) ms =
            ContentMediaType # (if statements = [] then [] else [AttestMediaType])
        \<and> (statements \<noteq> [] \<longrightarrow> (\<exists>summary. MarshalSummaryAnnotation E c statements = Inr summary
            \<and> gm_get (InfoAnnotations (last infos)) AttestationsSummaryAnnotation = Some summary))"
    using Index_pushed [OF assms] by blast
  obtain infos ms where infos:
      "FetchFromIndexOrImage (Some index) (Some im) None [ContentMediaType, AttestMediaType] = Inr (infos, ms)"
      "map (\<lambda>i. (InfoMediaType i, Content i)) infos =
        (ContentMediaType, archive) # (if statements = [] then [] else [(AttestMediaType, gzip E output)])"
      "statements \<noteq> [] \<longrightarrow> (\<exists>summary. MarshalSummaryAnnotation E c statements = Inr summary
        \<and> gm_get (InfoAnnotations (last infos)) AttestationsSummaryAnnotation = Some summary)"
    using fetched [of "[ContentMediaType, AttestMediaType]"] by (auto simp: skip_def)
  have "Fetch R ref [ContentMediaType, AttestMediaType] w' = Inr infos"
    using pushed(3) infos(1) by (simp add: Fetch_def)
  then show ?thesis using pushed(1,2) infos(2,3)
    by (intro exI [of _ archive] exI [of _ "output"] exI [of _ infos] conjI)
qed

text \<open>What \<open>PushArtefact\<close> pushed, \<open>Fetch\<close> gets by the reference it returned: the archive of the
  source directory, and when there are statements their encoding, annotated with the summary.  The
  registry has to serve what was pushed, and images with different config types must not have
  the same digest.\<close>

theorem Fetch_gets_what_was_pushed:
  assumes "PushArtefact R E c dest dir timestamp statements w = (Inr ref, w')"
    and "serves_pushed R"
    and "hash_separates E"
  shows "\<exists>archive output infos. BuildArtefact E dir = Inr archive
    \<and> Statements_EncodeWith (EncodeStatement E) statements [] = Inr output
    \<and> Fetch R ref [ContentMediaType, AttestMediaType] w' = Inr infos
    \<and> map (\<lambda>i. (InfoMediaType i, Content i)) infos =
        (ContentMediaType, archive) # (if statements = [] then [] else [(AttestMediaType, gzip E output)])
    \<and> (statements \<noteq> [] \<longrightarrow> (\<exists>summary. MarshalSummaryAnnotation E c statements = Inr summary
        \<and> gm_get (InfoAnnotations (last infos)) AttestationsSummaryAnnotation = Some summary))"
  by (rule Fetch_pushed [OF assms])

subsection \<open>Examples\<close>

lemma mem_remote_serves_pushed: "serves_pushed mem_remote"
proof -
  have "\<exists>r h. Inr (repo @ '':'' @ t @ ''@'' @ digest) = (Inr r :: string res)
      \<and> remote_Head mem_remote r w2 = Inr h \<and> MediaType h = OCIImageIndex
      \<and> remote_Index mem_remote r w2 = Inr index"
    if "CHR ''@'' \<notin> set repo" and "CHR ''@'' \<notin> set t" and "IndexDigest index = Inr digest"
      and "mem_put (repo @ '':'' @ t) (StoredIndex index) w1 = (Inr (), w2)"
    for repo t digest index w1 w2
  proof -
    have "mem_get (repo @ '':'' @ t @ ''@'' @ digest) w2 = Inr (StoredIndex index)"
      using that mem_get_digest [of "repo @ '':'' @ t" digest w2]
      by (auto simp: mem_put_def mem_tag_def gm_get_gm_put found_def)
    then show ?thesis using that(3) by (simp add: mem_remote_def)
  qed
  then show ?thesis
    unfolding serves_pushed_def by (auto simp: mem_remote_def split: if_splits)
qed

definition sample_info :: file_info where
  "sample_info =
     \<lparr>Size = 2, Mode = 420, Uid = 1000, Gid = 1000, Uname = ''me'', Gname = ''us'', ModTime = 7,
      AccessTime = 8, ChangeTime = 9\<rparr>"

definition sample_tree :: file_node where
  "sample_tree =
     Directory sample_info None
       [(''b'', Directory sample_info None [(''c.yaml'', File sample_info (Inr ''cc''))]),
        (''a.yaml'', File sample_info (Inr ''aa'')), (''link'', Special sample_info)]"

definition sample_env :: "('p toto_Statement \<Rightarrow> string \<Rightarrow> string) \<Rightarrow> 'p artefact_env" where
  "sample_env enc =
     \<lparr>Abs = (\<lambda>_. Inr ''/src''), Stat = (\<lambda>_. Exists True sample_info), Lstat = (\<lambda>_. Inr sample_tree),
      MkdirTemp = Inr (), OpenFile = Inr (), tar_WriteHeader = (\<lambda>_. Inr ()),
      targz = (\<lambda>ms. concat (map (\<lambda>(h, content). HeaderName h @ content) ms)), gzip = (\<lambda>s. s),
      sha256_Sum = take 8, EncodeStatement = (\<lambda>s out. Inr (enc s out)),
      EncodeAnnotation = (\<lambda>_. Inr ''summary''), tarball_check = (\<lambda>_. Inr ()), time_Now = 0,
      RFC3339 = (\<lambda>_. ''now''), image_hash = ConfigMediaType,
      image_size = (\<lambda>_. 1), index_hash = (\<lambda>_. Inr ''sha256:index'')\<rparr>"

abbreviation sample_artefact_env :: "nat artefact_env" where
  "sample_artefact_env \<equiv> sample_env (\<lambda>s out. out @ PredicateType s)"

lemma sample_archive:
  "BuildArtefact (sample_env enc) ''src'' = Inr (targz (sample_env enc) (archive_members sample_tree))"
  "filepath_IsAbs ''/src''" "filepath_Clean ''/src'' = ''/src''"
  "Abs (sample_env enc) ''src'' = Inr ''/src''" "Stat (sample_env enc) ''/src'' = Exists True sample_info"
  "Lstat (sample_env enc) ''/src'' = Inr sample_tree" "wf_node sample_tree" "complete sample_tree"
  "tar_WriteHeader (sample_env enc) h = Inr ()"
proof -
  show env: "Abs (sample_env enc) ''src'' = Inr ''/src''"
      "Stat (sample_env enc) ''/src'' = Exists True sample_info"
      "Lstat (sample_env enc) ''/src'' = Inr sample_tree" "tar_WriteHeader (sample_env enc) h = Inr ()" for h
    by (simp_all add: sample_env_def)
  show p: "filepath_IsAbs ''/src''" "filepath_Clean ''/src'' = ''/src''"
    by (simp_all add: slash_def filepath_IsAbs_def filepath_Clean_def path_comps_def clean_comps_def
        path_step_def path_of_def)
  show t: "wf_node sample_tree" "complete sample_tree"
    by (simp_all add: sample_tree_def sample_info_def entry_name_def slash_def)
  show "BuildArtefact (sample_env enc) ''src'' = Inr (targz (sample_env enc) (archive_members sample_tree))"
    by (rule BuildArtefact_members [OF env(1) p env(2,3) t env(4)])
qed

lemma BuildArtefact_holds_all_files_witness:
  "\<exists>members. BuildArtefact sample_artefact_env ''src'' = Inr (targz sample_artefact_env members)
    \<and> distinct (map (\<lambda>(h, _). HeaderName h) members)
    \<and> set (archive_files members) =
       {(path_of False ns, content) | ns content. \<exists>i. find_node sample_tree ns = Some (File i (Inr content))}"
  by (rule BuildArtefact_holds_all_files [OF sample_archive(4,2,3,5,6,7,8,9)])

lemma sample_hash_separates: "hash_separates (sample_env enc)"
  by (simp add: hash_separates_def sample_env_def)

lemma mem_put_index:
  "IndexDigest index = Inr d \<Longrightarrow> \<exists>m'. mem_put r (StoredIndex index) m = (Inr (), m')"
  by (simp add: mem_put_def)

lemma sample_push:
  "\<exists>ref w'. PushArtefact mem_remote (sample_env enc) ch ''host/app'' ''src'' (Some 5)
    [s] \<lparr>Tags = [], Blobs = []\<rparr> = (Inr ref, w')"
proof -
  let ?E = "sample_env enc"
  have tar: "tarball_Layer ?E b mt = Inr \<lparr>LayerDigest = ''sha256:'' @ hex_EncodeToString (take 8 b),
      LayerMediaType = mt, LayerSize = int (length b), Compressed = Inr b\<rparr>" for b mt
    by (simp add: tarball_Layer_def sample_env_def)
  have enc: "\<exists>l. BuildAttestations ?E [s] = Inr (Some l)" for s
    by (simp add: BuildAttestations_def Statements_EncodeWith_def EncodeWith_def tar)
      (simp add: sample_env_def)
  have idx: "\<exists>x. artefact_index ?E c t l1 (Some l2) ss = Inr x \<and> IndexDigest x = Inr ''sha256:index''" for c t l1 l2 ss
    by (simp add: artefact_index_def Let_def MarshalSummaryAnnotation_def as_ImageIndex_def)
      (simp add: sample_env_def)
  have env: "MkdirTemp ?E = Inr ()" "OpenFile ?E = Inr ()" by (simp_all add: sample_env_def)
  have rem: "NewRepository mem_remote ''host/app'' = Inr ''host/app''"
    "WriteIndex mem_remote r x = mem_put r (StoredIndex x)" "remote_Tag mem_remote r x = mem_put r (StoredIndex x)" for r x
    by (simp_all add: mem_remote_def)
  obtain l where l: "BuildAttestations ?E [s] = Inr (Some l)"
    using enc by blast
  obtain tag talias x where prep: "prepare_artefact mem_remote ?E ch ''host/app'' ''src'' (Some 5)
      [s] = Inr (tag, talias, x, ''sha256:index'')"
    and x: "IndexDigest x = Inr ''sha256:index''"
  proof -
    let ?l1 = "\<lparr>LayerDigest = ''sha256:'' @ hex_EncodeToString (take 8 (targz ?E (archive_members sample_tree))),
      LayerMediaType = ContentMediaType, LayerSize = int (length (targz ?E (archive_members sample_tree))), Compressed = Inr (targz ?E (archive_members sample_tree))\<rparr>"
    obtain y where "artefact_index ?E ch 5 ?l1 (Some l) [s] = Inr y"
        "IndexDigest y = Inr ''sha256:index''"
      using idx by blast
    then show thesis
      by (intro that) (simp_all add: prepare_artefact_def env sample_archive(1) l rem tar Let_def)
  qed
  obtain m1 where m1: "mem_put tag (StoredIndex x) \<lparr>Tags = [], Blobs = []\<rparr> = (Inr (), m1)"
    using mem_put_index [OF x] by blast
  obtain m2 where m2: "mem_put talias (StoredIndex x) m1 = (Inr (), m2)"
    using mem_put_index [OF x] by blast
  show ?thesis
    by (simp add: PushArtefact_def prep rem m1 m2)
qed

lemma Fetch_gets_what_was_pushed_witness:
  "\<exists>ref w' archive output infos.
      PushArtefact mem_remote sample_artefact_env (\<lambda>_. in_order) ''host/app'' ''src'' (Some 5)
        [sample_statement ''type'' ''name'' ''digest''] \<lparr>Tags = [], Blobs = []\<rparr> = (Inr ref, w')
    \<and> BuildArtefact sample_artefact_env ''src'' = Inr archive
    \<and> Fetch mem_remote ref [ContentMediaType, AttestMediaType] w' = Inr infos
    \<and> map (\<lambda>i. (InfoMediaType i, Content i)) infos =
        [(ContentMediaType, archive), (AttestMediaType, gzip sample_artefact_env output)]"
proof -
  obtain ref w' where push: "PushArtefact mem_remote sample_artefact_env (\<lambda>_. in_order) ''host/app'' ''src'' (Some 5)
      [sample_statement ''type'' ''name'' ''digest''] \<lparr>Tags = [], Blobs = []\<rparr> = (Inr ref, w')"
    using sample_push by blast
  show ?thesis
    using push Fetch_gets_what_was_pushed [OF push mem_remote_serves_pushed sample_hash_separates] by auto
qed

end
