(* ===== verification/Image_Copier.thy ===== *)
theory Image_Copier
  imports Image_Resolver Oci_Artefact
begin

section \<open>Copying images and pushing the package\<close>

text \<open>
  The packages \<open>manifest/imagecopier\<close> and \<open>manifest/packager\<close>: the images of an application and what
  is related to them are copied into the repository of the package, each under a tag made of its
  original reference, and the manifests are pushed there as an artefact.
\<close>

subsection \<open>Operations of the copier\<close>

record RegistryCopier =
  DestinationRef :: string
  copier_hash :: "string \<Rightarrow> string"

definition NewRegistryCopier :: "(string \<Rightarrow> string) \<Rightarrow> string \<Rightarrow> RegistryCopier" where
  "NewRegistryCopier sha256 destinationRef = \<lparr>DestinationRef = destinationRef, copier_hash = sha256\<rparr>"

definition doSetNewImageRef :: "string \<Rightarrow> (string \<Rightarrow> string) \<Rightarrow> image \<Rightarrow> image" where
  "doSetNewImageRef destinationRef hash i =
     (let i = i\<lparr>NewName := destinationRef\<rparr>
      in if IsCosignArtifact (OriginalTag i) then i\<lparr>NewTag := OriginalTag i\<rparr>
         else i\<lparr>NewTag := AppImageTagPrefix @
                  hex_EncodeToString (hash (OriginalName i @ '':'' @ OriginalTag i))\<rparr>)"

definition SetNewImageRefs :: "string \<Rightarrow> (string \<Rightarrow> string) \<Rightarrow> image list \<Rightarrow> image list" where
  "SetNewImageRefs destinationRef hash images = map (doSetNewImageRef destinationRef hash) images"

definition newRef :: "image \<Rightarrow> string" where
  "newRef i = NewName i @ '':'' @ NewTag i"

fun copy_images ::
    "('w, 'r) remote \<Rightarrow> image list \<Rightarrow> string list \<Rightarrow> 'w \<Rightarrow> string list res \<times> 'w" where
  "copy_images R [] copied w = (Inr copied, w)"
| "copy_images R (i # is) copied w =
     (case client_Copy R (Ref True i) (newRef i) (Digest i) w of
        (Inl e, w') \<Rightarrow> (Inl e, w')
      | (Inr _, w') \<Rightarrow> copy_images R is (copied @ [newRef i @ ''@'' @ Digest i]) w')"

text \<open>
  The new references are set in the lists themselves; a list that is not reached keeps its own.
\<close>

fun copy_lists ::
    "('w, 'r) remote \<Rightarrow> RegistryCopier \<Rightarrow> ImageList list \<Rightarrow> string list \<Rightarrow> 'w
      \<Rightarrow> string list res \<times> ImageList list \<times> 'w" where
  "copy_lists R c [] copied w = (Inr copied, [], w)"
| "copy_lists R c (l # ls) copied w =
     (let l' = l\<lparr>items := SetNewImageRefs (DestinationRef c) (copier_hash c) (items l)\<rparr>
      in case copy_images R (items l') copied w of
           (Inl e, w') \<Rightarrow> (Inl e, l' # ls, w')
         | (Inr copied', w') \<Rightarrow>
             (case copy_lists R c ls copied' w' of (r, ls', w'') \<Rightarrow> (r, l' # ls', w'')))"

definition CopyImages ::
    "('w, 'r) remote \<Rightarrow> RegistryCopier \<Rightarrow> ImageList list \<Rightarrow> 'w
      \<Rightarrow> string list res \<times> ImageList list \<times> 'w" where
  "CopyImages R c imageLists w = copy_lists R c imageLists [] w"

subsection \<open>The packager\<close>

record 'p DefaultPackager =
  destinationRef :: string
  sourceEpochTimestamp :: "int option"
  sourceAttestations :: "'p Statements"

definition NewDefaultPackager :: "string \<Rightarrow> int option \<Rightarrow> 'p Statements \<Rightarrow> 'p DefaultPackager" where
  "NewDefaultPackager d t ss = \<lparr>destinationRef = d, sourceEpochTimestamp = t, sourceAttestations = ss\<rparr>"

definition packager_Push ::
    "('w, 'r) remote \<Rightarrow> 'p artefact_env \<Rightarrow> choices \<Rightarrow> 'p DefaultPackager \<Rightarrow> string \<Rightarrow> 'w
      \<Rightarrow> string res \<times> 'w" where
  "packager_Push R E c p d w =
     PushArtefact R E c (destinationRef p) d (sourceEpochTimestamp p) (sourceAttestations p) w"

subsection \<open>Where images are copied to\<close>

lemma doSetNewImageRef_simps [simp]:
  "OriginalName (doSetNewImageRef d h i) = OriginalName i"
  "OriginalTag (doSetNewImageRef d h i) = OriginalTag i"
  "Digest (doSetNewImageRef d h i) = Digest i" "Sources (doSetNewImageRef d h i) = Sources i"
  "NewName (doSetNewImageRef d h i) = d" "Ref True (doSetNewImageRef d h i) = Ref True i"
  by (simp_all add: doSetNewImageRef_def Let_def Ref_def)

lemma newRef_doSetNewImageRef:
  "newRef (doSetNewImageRef d h i) = d @ '':'' @
     (if IsCosignArtifact (OriginalTag i) then OriginalTag i
      else AppImageTagPrefix @ hex_EncodeToString (h (OriginalName i @ '':'' @ OriginalTag i)))"
  by (simp add: newRef_def doSetNewImageRef_def Let_def)

text \<open>What a registry promises: copying to one tag of a repository leaves its other tags alone.\<close>

definition keeps_other_tags :: "('w, 'r) remote \<Rightarrow> string \<Rightarrow> bool" where
  "keeps_other_tags R repo \<longleftrightarrow>
     (\<forall>src tag r w w' tag'. crane_Copy R src (repo @ '':'' @ tag) w = (r, w') \<longrightarrow> tag' \<noteq> tag \<longrightarrow>
        crane_Digest R (repo @ '':'' @ tag') w' = crane_Digest R (repo @ '':'' @ tag') w)"

lemma client_Copy_other:
  assumes "client_Copy R src (repo @ '':'' @ tag) d w = (r, w')" and "keeps_other_tags R repo"
    and "tag' \<noteq> tag"
  shows "crane_Digest R (repo @ '':'' @ tag') w' = crane_Digest R (repo @ '':'' @ tag') w"
proof -
  obtain r' where "crane_Copy R src (repo @ '':'' @ tag) w = (r', w')"
    using assms(1) by (auto simp: client_Copy_def split: prod.splits sum.splits if_splits)
  then show ?thesis using assms(2,3) unfolding keeps_other_tags_def by blast
qed

definition last_copy :: "image list \<Rightarrow> image \<Rightarrow> image" where
  "last_copy is i = last (filter (\<lambda>j. newRef j = newRef i) is)"

lemma copy_images_Inr:
  assumes "copy_images R is copied w = (Inr refs, w')" and "keeps_other_tags R repo"
    and "\<forall>i\<in>set is. NewName i = repo"
  shows "refs = copied @ map (\<lambda>i. newRef i @ ''@'' @ Digest i) is"
    and "i \<in> set is \<Longrightarrow> crane_Digest R (newRef i) w' = Inr (Digest (last_copy is i))"
    and "repo @ '':'' @ t \<notin> newRef ` set is
      \<Longrightarrow> crane_Digest R (repo @ '':'' @ t) w' = crane_Digest R (repo @ '':'' @ t) w"
  using assms
proof (induction "is" arbitrary: copied w i t)
  case (Cons j "is")
  {
    case 1
    then obtain w1 where
      "copy_images R is (copied @ [newRef j @ ''@'' @ Digest j]) w1 = (Inr refs, w')"
      by (auto split: prod.splits sum.splits)
    from Cons.IH(1) [OF this] 1 show ?case by simp
  next
    case 2
    then obtain w1 where w1: "client_Copy R (Ref True j) (newRef j) (Digest j) w = (Inr (), w1)"
      "copy_images R is (copied @ [newRef j @ ''@'' @ Digest j]) w1 = (Inr refs, w')"
      by (auto split: prod.splits sum.splits)
    show ?case
    proof (cases "newRef i \<in> newRef ` set is")
      case True
      then obtain k where k: "k \<in> set is" "newRef k = newRef i" by auto
      have "last_copy (j # is) i = last_copy is k"
        using k by (auto simp: last_copy_def filter_empty_conv)
      then show ?thesis using Cons.IH(2) [OF k(1) w1(2)] 2 k(2) by simp
    next
      case False
      then have i: "i = j" using 2 by auto
      have "newRef j = repo @ '':'' @ NewTag j" using 2 by (simp add: newRef_def)
      then have "crane_Digest R (newRef j) w' = crane_Digest R (newRef j) w1"
        using Cons.IH(3) [OF _ w1(2), of "NewTag j"] 2 False i by simp
      moreover have "filter (\<lambda>k. newRef k = newRef j) is = []"
        unfolding filter_empty_conv using False i by (metis image_eqI)
      then have "last_copy (j # is) i = j" by (simp add: last_copy_def i)
      ultimately show ?thesis using w1(1) i by (simp add: res_simps)
    qed
  next
    case 3
    then obtain w1 where w1: "client_Copy R (Ref True j) (newRef j) (Digest j) w = (Inr (), w1)"
      "copy_images R is (copied @ [newRef j @ ''@'' @ Digest j]) w1 = (Inr refs, w')"
      by (auto split: prod.splits sum.splits)
    have "client_Copy R (Ref True j) (repo @ '':'' @ NewTag j) (Digest j) w = (Inr (), w1)"
      using w1(1) 3 by (simp add: newRef_def)
    moreover have "t \<noteq> NewTag j" using 3 by (auto simp: newRef_def)
    ultimately have "crane_Digest R (repo @ '':'' @ t) w1 = crane_Digest R (repo @ '':'' @ t) w"
      using client_Copy_other 3(3) by metis
    then show ?case using Cons.IH(3) [OF _ w1(2)] 3 by simp
  }
qed simp_all

lemma copy_images_append:
  "copy_images R (is @ js) copied w =
     (case copy_images R is copied w of
        (Inl e, w') \<Rightarrow> (Inl e, w') | (Inr copied', w') \<Rightarrow> copy_images R js copied' w')"
  by (induction "is" arbitrary: copied w) (auto split: prod.splits sum.splits)

definition relocated :: "RegistryCopier \<Rightarrow> ImageList \<Rightarrow> ImageList" where
  "relocated c l = l\<lparr>items := SetNewImageRefs (DestinationRef c) (copier_hash c) (items l)\<rparr>"

lemma copy_lists_Inr:
  assumes "copy_lists R c ls copied w = (Inr refs, ls', w')"
  shows "ls' = map (relocated c) ls"
    and "copy_images R (concat (map items ls')) copied w = (Inr refs, w')"
  using assms
proof (induction ls arbitrary: copied w ls')
  case (Cons l ls)
  {
    case 1
    then show ?case using Cons.IH(1)
      by (auto simp: Let_def relocated_def split: prod.splits sum.splits)
  next
    case 2
    then obtain copied' w1 ls1 where "copy_images R (items (relocated c l)) copied w = (Inr copied', w1)"
        "copy_lists R c ls copied' w1 = (Inr refs, ls1, w')" "ls' = relocated c l # ls1"
      by (auto simp: Let_def relocated_def split: prod.splits sum.splits)
    then show ?case using Cons.IH(2) by (simp add: copy_images_append)
  }
qed simp_all


lemma mem_remote_keeps_other_tags: "keeps_other_tags mem_remote repo"
proof -
  have "mem_get (repo @ '':'' @ t') (mem_tag (repo @ '':'' @ t) x m) = mem_get (repo @ '':'' @ t') m"
    if "t' \<noteq> t" for t t' x m
    using that by (simp add: mem_get_def mem_tag_def gm_get_gm_put split: option.splits)
  then show ?thesis
    unfolding keeps_other_tags_def
    by (auto simp: mem_remote_def split: sum.splits)
qed

definition sample_stored :: "string \<Rightarrow> stored" where
  "sample_stored d =
     StoredImage \<lparr>ImageManifest = Inl (Fail (External [])), ImageDigest = Inr d,
       LayerByDigest = (\<lambda>_. Inl (Fail (External [])))\<rparr>"

definition sample_copier :: RegistryCopier where
  "sample_copier = NewRegistryCopier (take 2) ''pkg''"

definition sample_images :: ImageList where
  "sample_images = Append [located_image ''a:1'' ''a'' ''1'' ''d1'', located_image ''a:x.sig'' ''a'' ''x.sig'' ''d2'']
     (NewImageList ''k8s'')"

definition sample_memory :: memory where
  "sample_memory = \<lparr>Tags = [], Blobs = [(''d1'', sample_stored ''d1''), (''d2'', sample_stored ''d2'')]\<rparr>"

lemma mem_remote_copy:
  "crane_Copy mem_remote src dst m =
     (case mem_get src m of Inl e \<Rightarrow> (Inl e, m) | Inr x \<Rightarrow> (Inr (), mem_tag dst x m))"
  "crane_Digest mem_remote ref m = rbind (mem_get ref m) stored_Digest"
  by (simp_all add: mem_remote_def)

lemma sample_copies:
  "\<exists>imageLists' w'. CopyImages mem_remote sample_copier [sample_images] sample_memory =
     (Inr [''pkg:app.613a@d1'', ''pkg:x.sig@d2''], imageLists', w')"
  by (simp add: CopyImages_def sample_copier_def sample_images_def Append_def NewImageList_def Let_def
      NewRegistryCopier_def SetNewImageRefs_def doSetNewImageRef_def located_image_def client_Copy_def
      newRef_def IsCosignArtifact_def strings_HasSuffix_def AppImageTagPrefix_def hex_digit_def hex_digits_def
      mem_remote_copy mem_get_def mem_tag_def found_def Ref_def sample_memory_def gm_put_def gm_get_def
      sample_stored_def)


text \<open>
  With a hash without collisions, images of different name or tag that are not cosign artefacts
  never get the same new reference.
\<close>

lemma new_tags_differ:
  assumes "inj h" and "\<not> IsCosignArtifact (OriginalTag i)" and "\<not> IsCosignArtifact (OriginalTag j)"
  shows "newRef (doSetNewImageRef d h i) = newRef (doSetNewImageRef d h j) \<longleftrightarrow>
    OriginalName i @ '':'' @ OriginalTag i = OriginalName j @ '':'' @ OriginalTag j"
  using assms by (simp add: newRef_doSetNewImageRef hex_EncodeToString_inject inj_eq)

end
