(* ===== verification/Yaml_Fields.thy ===== *)
theory Yaml_Fields
  imports Go_Strings Prelude "HOL-Library.Sublist"
begin

section \<open>Visiting fields of YAML documents\<close>

text \<open>
  The part of the vendored kustomize that the scanner and the updater run on every document:
  \<open>fieldspec.Filter\<close> follows a path such as \<open>spec/containers[]/image\<close> through mappings, visits
  every element of a sequence on the way, and calls a function on the nodes it ends at, which it
  changes in place.  Reading and writing the text of documents is a parameter of the components
  that do it.  Aliases of YAML are not part of the tree.
\<close>

datatype ynode =
    Scalar string int int
  | Null string int int
  | Seq "ynode list"
  | Map "(string \<times> ynode) list"

subsection \<open>Functions that change nodes and a state\<close>

fun smap :: "('a \<Rightarrow> 's \<Rightarrow> ('b \<times> 's) res) \<Rightarrow> 'a list \<Rightarrow> 's \<Rightarrow> ('b list \<times> 's) res" where
  "smap f [] s = Inr ([], s)"
| "smap f (x # xs) s =
     rbind (f x s) (\<lambda>(y, s). rbind (smap f xs s) (\<lambda>(ys, s). Inr (y # ys, s)))"

text \<open>The first field of a name: \<open>visitMappingNodeFields\<close> stops there.\<close>

fun on_field ::
    "string \<Rightarrow> ('v \<Rightarrow> 's \<Rightarrow> ('v \<times> 's) res) \<Rightarrow> (string \<times> 'v) list \<Rightarrow> 's
      \<Rightarrow> ((string \<times> 'v) list \<times> 's) res" where
  "on_field k f [] s = Inr ([], s)"
| "on_field k f ((j, v) # kvs) s =
     (if j = k then rbind (f v s) (\<lambda>(v, s). Inr ((j, v) # kvs, s))
      else rbind (on_field k f kvs s) (\<lambda>(kvs, s). Inr ((j, v) # kvs, s)))"

lemma smap_cong [fundef_cong]:
  assumes "xs = ys" and "s = t" and "\<And>x s. x \<in> set ys \<Longrightarrow> f x s = g x s"
  shows "smap f xs s = smap g ys t"
proof -
  have "(\<And>x s. x \<in> set ys \<Longrightarrow> f x s = g x s) \<Longrightarrow> smap f ys t = smap g ys t" for t
  proof (induction ys arbitrary: t)
    case (Cons y ys)
    then have "smap f ys = smap g ys" by (intro ext) auto
    with Cons.prems show ?case by simp
  qed simp
  with assms show ?thesis by simp
qed

lemma on_field_cong [fundef_cong]:
  assumes "k = k'" and "kvs = kvs'" and "s = t" and "\<And>v s. (k', v) \<in> set kvs' \<Longrightarrow> f v s = g v s"
  shows "on_field k f kvs s = on_field k' g kvs' t"
  unfolding assms(1-3) using assms(4) by (induction kvs' arbitrary: t) auto

subsection \<open>fieldspec.Filter\<close>

definition isSequenceField :: "string \<Rightarrow> string \<times> bool" where
  "isSequenceField name =
     (let shorter = strings_TrimSuffix name ''[]'' in (shorter, shorter \<noteq> name))"

lemma size_elem: "(n :: ynode) \<in> set ns \<Longrightarrow> size n < Suc (size_list size ns)"
  by (induction ns) auto

lemma size_field:
  "(k, v :: ynode) \<in> set kvs \<Longrightarrow> size v < Suc (size_list (size_prod (\<lambda>_. 0) size) kvs)"
  by (induction kvs) auto

text \<open>
  The function at the end of a path gets the names of the fields on the way, without indexes.
\<close>

type_synonym 's set_value = "string list \<Rightarrow> ynode \<Rightarrow> 's \<Rightarrow> (ynode \<times> 's) res"

text \<open>A null where the path wants a sequence becomes an empty sequence.\<close>

function fields ::
    "'s set_value \<Rightarrow> string list \<Rightarrow> string list \<Rightarrow> ynode \<Rightarrow> 's \<Rightarrow> (ynode \<times> 's) res" where
  "fields f fieldPath [] n s = f fieldPath n s"
| "fields f fieldPath (p # ps) (Null v l c) s = Inr (Null v l c, s)"
| "fields f fieldPath (p # ps) (Scalar v l c) s = Inl (Fail NotACollection)"
| "fields f fieldPath (p # ps) (Seq ns) s =
     rbind (smap (fields f fieldPath (p # ps)) ns s) (\<lambda>(ns, s). Inr (Seq ns, s))"
| "fields f fieldPath (p # ps) (Map kvs) s =
     (case isSequenceField p of (name, isSeq) \<Rightarrow>
        if name = [] then Inl (Fail (External ''cannot set or create an empty field name''))
        else
          rbind (on_field name
              (\<lambda>v s. if isSeq \<and> (case v of Null _ _ _ \<Rightarrow> True | _ \<Rightarrow> False)
                     then (if ps = [] then f (fieldPath @ [name]) (Seq []) s else Inr (Seq [], s))
                     else fields f (fieldPath @ [name]) ps v s) kvs s)
            (\<lambda>(kvs, s). Inr (Map kvs, s)))"
  by pat_completeness auto

termination
  by (relation "measure (\<lambda>(f, fp, ps, n, s). size n)") (auto simp: size_elem size_field)

definition PathSplitter :: "string \<Rightarrow> string list" where
  "PathSplitter path = strings_Split CHR ''/'' path"

definition fieldspec_Filter :: "'s set_value \<Rightarrow> string \<Rightarrow> ynode \<Rightarrow> 's \<Rightarrow> (ynode \<times> 's) res" where
  "fieldspec_Filter f path obj s =
     wrap (''considering field '' @ path) (fields f [] (PathSplitter path) obj s)"

definition fsslice_Filter :: "'s set_value \<Rightarrow> string list \<Rightarrow> ynode \<Rightarrow> 's \<Rightarrow> (ynode \<times> 's) res" where
  "fsslice_Filter f paths obj s = rfold (\<lambda>p (n, s). fieldspec_Filter f p n s) paths (obj, s)"

text \<open>The kind of a resource; what cannot have one is not on the deny list.\<close>

definition isOnDenyList :: "ynode \<Rightarrow> bool" where
  "isOnDenyList n =
     (case n of
        Map kvs \<Rightarrow>
          (case map_of kvs ''kind'' of
             Some (Scalar v _ _) \<Rightarrow> v = ''CustomResourceDefinition''
           | _ \<Rightarrow> False)
      | _ \<Rightarrow> False)"

subsection \<open>The nodes a path leads to\<close>

text \<open>
  What a path leads to, as a function of the document alone: the names of the fields on the way
  and the node.
\<close>

function reached :: "string list \<Rightarrow> string list \<Rightarrow> ynode \<Rightarrow> (string list \<times> ynode) list" where
  "reached fp [] n = [(fp, n)]"
| "reached fp (p # ps) (Null v l c) = []"
| "reached fp (p # ps) (Scalar v l c) = []"
| "reached fp (p # ps) (Seq ns) = concat (map (reached fp (p # ps)) ns)"
| "reached fp (p # ps) (Map kvs) =
     (let name = fst (isSequenceField p)
      in case map_of kvs name of
           None \<Rightarrow> []
         | Some v \<Rightarrow> reached (fp @ [name]) ps v)"
  by pat_completeness auto

termination
  by (relation "measure (\<lambda>(fp, ps, n). size n)")
    (auto simp: size_elem size_field dest: map_of_SomeD)

lemma smap_Inr_Cons [res_simps]:
  "smap f (x # xs) s = Inr (zs, u) \<longleftrightarrow>
     (\<exists>y t ys. f x s = Inr (y, t) \<and> smap f xs t = Inr (ys, u) \<and> zs = y # ys)"
  by (auto simp: rbind_Inr_conv)

lemma on_field_None: "map_of kvs k = None \<Longrightarrow> on_field k f kvs s = Inr (kvs, s)"
  by (induction kvs) (auto split: if_splits)

lemma on_field_Some:
  assumes "map_of kvs k = Some v"
  shows "on_field k f kvs s = Inr (kvs', s') \<Longrightarrow>
      \<exists>v'. f v s = Inr (v', s') \<and> map_of kvs' = (map_of kvs)(k \<mapsto> v')"
    and "f v s = Inr (v', s') \<Longrightarrow> \<exists>kvs'. on_field k f kvs s = Inr (kvs', s')"
  using assms
proof (induction kvs arbitrary: kvs')
  case (Cons e kvs)
  obtain j u where e: "e = (j, u)" by (cases e)
  {
    case 1
    show ?case
    proof (cases "j = k")
      case True
      with 1 show ?thesis by (auto simp: e rbind_Inr_conv fun_eq_iff)
    next
      case False
      with 1 obtain r where r: "on_field k f kvs s = Inr (r, s')" "kvs' = (j, u) # r"
        by (auto simp: e rbind_Inr_conv)
      then show ?thesis using Cons.IH(1) [OF r(1)] 1 False by (auto simp: e fun_eq_iff)
    qed
  next
    case 2
    then show ?case using Cons.IH(2) by (cases "j = k") (auto simp: e)
  }
qed simp_all

definition field_names :: "string list \<Rightarrow> string list" where
  "field_names ps = map (\<lambda>p. fst (isSequenceField p)) ps"

lemma field_names_simps [simp]:
  "field_names [] = []" "field_names (p # ps) = fst (isSequenceField p) # field_names ps"
  by (simp_all add: field_names_def)

lemma smap_list_all2:
  "smap f xs s = Inr (ys, t) \<Longrightarrow> list_all2 (\<lambda>x y. \<exists>s t. f x s = Inr (y, t)) xs ys"
  by (induction xs arbitrary: s ys) (auto simp: rbind_Inr_conv)

lemma concat_map_eq:
  "list_all2 P xs ys \<Longrightarrow> (\<And>x y. x \<in> set xs \<Longrightarrow> P x y \<Longrightarrow> f y = g x) \<Longrightarrow> concat (map f ys) = concat (map g xs)"
  by (induction rule: list_all2_induct) auto

text \<open>What \<open>fields\<close> does along one path leaves what other paths lead to.\<close>

lemma reached_other_path:
  assumes "fields f fp ps n s = Inr (n', s')"
    and "\<not> prefix (field_names ps) (field_names qs)" and "\<not> prefix (field_names qs) (field_names ps)"
  shows "reached fq qs n' = reached fq qs n"
  using assms
proof (induction f fp ps n s arbitrary: n' s' qs fq rule: fields.induct)
  case (4 f fp p ps ns s)
  obtain q qs' where qs: "qs = q # qs'" using 4(4) by (cases qs) auto
  obtain ns' t where ns': "smap (fields f fp (p # ps)) ns s = Inr (ns', t)" "n' = Seq ns'"
    using 4(2) by (auto simp: rbind_Inr_conv)
  have "concat (map (reached fq qs) ns') = concat (map (reached fq qs) ns)"
    by (rule concat_map_eq [OF smap_list_all2 [OF ns'(1)]]) (use 4 in blast)
  then show ?case using ns'(2) by (simp add: qs)
next
  case (5 f fp p ps kvs s)
  obtain q qs' where qs: "qs = q # qs'" using 5(4) by (cases qs) auto
  obtain name isSeq where p: "isSequenceField p = (name, isSeq)" by fastforce
  let ?f = "\<lambda>v s. if isSeq \<and> (case v of Null _ _ _ \<Rightarrow> True | _ \<Rightarrow> False)
       then (if ps = [] then f (fp @ [name]) (Seq []) s else Inr (Seq [], s))
       else fields f (fp @ [name]) ps v s"
  obtain kvs' t where kvs': "on_field name ?f kvs s = Inr (kvs', t)" "n' = Map kvs'"
    using 5(2) by (auto simp: p rbind_Inr_conv split: if_splits)
  show ?case
  proof (cases "map_of kvs name")
    case None
    then show ?thesis using kvs' on_field_None [OF None, of ?f s] by simp
  next
    case (Some v)
    obtain v' where v': "?f v s = Inr (v', t)" "map_of kvs' = (map_of kvs)(name \<mapsto> v')"
      using on_field_Some(1) [OF Some kvs'(1)] by blast
    show ?thesis
    proof (cases "fst (isSequenceField q) = name")
      case False
      then show ?thesis using v'(2) by (simp add: kvs'(2) qs Let_def)
    next
      case True
      then have rest: "\<not> prefix (field_names ps) (field_names qs')" "\<not> prefix (field_names qs') (field_names ps)"
        using 5(3,4) by (auto simp: p qs)
      then obtain r rs where qs': "qs' = r # rs" by (cases qs') auto
      have "ps \<noteq> []" using rest(1) by auto
      have "reached (fq @ [name]) qs' v' = reached (fq @ [name]) qs' v"
      proof (cases "isSeq \<and> (case v of Null _ _ _ \<Rightarrow> True | _ \<Rightarrow> False)")
        case True
        then show ?thesis using v'(1) \<open>ps \<noteq> []\<close> by (auto simp: qs' split: ynode.splits)
      next
        case False
        then have run: "fields f (fp @ [name]) ps v s = Inr (v', t)" using v'(1) by (simp only: if_False)
        have "name \<noteq> []" using 5(2) by (auto simp: p)
        show ?thesis
          by (rule 5(1) [OF p [symmetric] \<open>name \<noteq> []\<close> map_of_SomeD [OF Some] False run rest])
      qed
      then show ?thesis using v'(2) True Some by (simp add: kvs'(2) qs Let_def)
    qed
  qed
qed auto

text \<open>
  What \<open>fields\<close> does along its own path, for a function that makes \<open>g n\<close> of a node \<open>n\<close> and updates
  the state by \<open>h\<close> with it.
\<close>

lemma smap_state:
  assumes "smap f xs s = Inr (ys, t)" and "\<And>x s y u. x \<in> set xs \<Longrightarrow> f x s = Inr (y, u) \<Longrightarrow> u = F x s"
  shows "t = fold F xs s"
  using assms by (induction xs arbitrary: s ys) (fastforce simp: rbind_Inr_conv)+

lemma fold_concat_map: "fold F (concat (map r xs)) s = fold (\<lambda>x. fold F (r x)) xs s"
  by (induction xs arbitrary: s) auto

definition ends_at_value :: "string list \<Rightarrow> bool" where
  "ends_at_value ps \<longleftrightarrow> ps = [] \<or> \<not> snd (isSequenceField (last ps))"

lemma fields_reached:
  assumes "fields f fp ps n s = Inr (n', s')"
    and "\<And>q m s m' s'. f q m s = Inr (m', s') \<Longrightarrow> m' = g m \<and> s' = h q m s"
    and "ends_at_value ps"
  shows "s' = fold (\<lambda>(q, m). h q m) (reached fp ps n) s"
    and "reached fq ps n' = map (\<lambda>(q, m). (q, g m)) (reached fq ps n)"
  using assms
proof (induction f fp ps n s arbitrary: n' s' fq rule: fields.induct)
  case (4 f fp p ps ns s)
  {
    case 1
    obtain ns' where ns': "smap (fields f fp (p # ps)) ns s = Inr (ns', s')" "n' = Seq ns'"
      using 1(1) by (auto simp: rbind_Inr_conv)
    have "s' = fold (\<lambda>x. fold (\<lambda>(q, m). h q m) (reached fp (p # ps) x)) ns s"
      by (rule smap_state [OF ns'(1)]) (rule 4(1) [OF _ _ 1(2,3)])
    then show ?case by (simp add: fold_concat_map)
  next
    case 2
    obtain ns' where ns': "smap (fields f fp (p # ps)) ns s = Inr (ns', s')" "n' = Seq ns'"
      using 2(1) by (auto simp: rbind_Inr_conv)
    have "concat (map (reached fq (p # ps)) ns') =
        concat (map (\<lambda>n. map (\<lambda>(q, m). (q, g m)) (reached fq (p # ps) n)) ns)"
      by (rule concat_map_eq [OF smap_list_all2 [OF ns'(1)]]) (use 4(2) 2(2,3) in blast)
    then show ?case using ns'(2) by (simp add: map_concat comp_def)
  }
next
  case (5 f fp p ps kvs s)
  obtain name isSeq where p: "isSequenceField p = (name, isSeq)" by fastforce
  let ?f = "\<lambda>v s. if isSeq \<and> (case v of Null _ _ _ \<Rightarrow> True | _ \<Rightarrow> False)
       then (if ps = [] then f (fp @ [name]) (Seq []) s else Inr (Seq [], s))
       else fields f (fp @ [name]) ps v s"
  have both: "s' = fold (\<lambda>(q, m). h q m) (reached fp (p # ps) (Map kvs)) s \<and>
      reached fq (p # ps) n' = map (\<lambda>(q, m). (q, g m)) (reached fq (p # ps) (Map kvs))"
    if run: "fields f fp (p # ps) (Map kvs) s = Inr (n', s')"
      and f: "\<forall>q m s m' s'. f q m s = Inr (m', s') \<longrightarrow> m' = g m \<and> s' = h q m s"
      and last: "ends_at_value (p # ps)" for fq n' s'
  proof -
    obtain kvs' where kvs': "on_field name ?f kvs s = Inr (kvs', s')" "n' = Map kvs'"
      using run by (auto simp: p rbind_Inr_conv split: if_splits)
    have name: "name \<noteq> []" using run by (auto simp: p)
    show ?thesis
    proof (cases "map_of kvs name")
      case None
      then show ?thesis using kvs' on_field_None [OF None, of ?f s] by (simp add: p)
    next
      case (Some v)
      obtain v' where v': "?f v s = Inr (v', s')" "map_of kvs' = (map_of kvs)(name \<mapsto> v')"
        using on_field_Some(1) [OF Some kvs'(1)] by blast
      have last': "ends_at_value ps" using last by (auto simp: ends_at_value_def split: if_splits)
      have "s' = fold (\<lambda>(q, m). h q m) (reached (fp @ [name]) ps v) s \<and>
          reached (fq @ [name]) ps v' = map (\<lambda>(q, m). (q, g m)) (reached (fq @ [name]) ps v)"
      proof (cases "isSeq \<and> (case v of Null _ _ _ \<Rightarrow> True | _ \<Rightarrow> False)")
        case True
        then obtain r rs where ps: "ps = r # rs" using last p by (cases ps) (auto simp: ends_at_value_def)
        then show ?thesis using v'(1) True by (auto split: ynode.splits)
      next
        case False
        then have run': "fields f (fp @ [name]) ps v s = Inr (v', s')" using v'(1) by (simp only: if_False)
        note ih = 5(1) [OF p [symmetric] name map_of_SomeD [OF Some] False run' _ last']
          5(2) [OF p [symmetric] name map_of_SomeD [OF Some] False run' _ last']
        show ?thesis using ih f by blast
      qed
      then show ?thesis using v'(2) Some by (simp add: kvs'(2) p Let_def)
    qed
  qed
  {
    case 1
    show ?case using both [OF 1(1) _ 1(3)] 1(2) by blast
  next
    case 2
    show ?case using both [OF 2(1) _ 2(3)] 2(2) by blast
  }
qed auto


subsection \<open>Several paths\<close>

text \<open>The nodes that a list of paths leads to, path by path.\<close>

definition reached_all :: "string list \<Rightarrow> ynode \<Rightarrow> (string list \<times> ynode) list" where
  "reached_all paths n = concat (map (\<lambda>p. reached [] (PathSplitter p) n) paths)"

definition path_fields :: "string \<Rightarrow> string list" where
  "path_fields p = field_names (PathSplitter p)"

definition apart :: "string \<Rightarrow> string \<Rightarrow> bool" where
  "apart p q \<longleftrightarrow> \<not> prefix (path_fields p) (path_fields q) \<and> \<not> prefix (path_fields q) (path_fields p)"

definition value_paths :: "string list \<Rightarrow> bool" where
  "value_paths paths \<longleftrightarrow> list_all (ends_at_value \<circ> PathSplitter) paths \<and> sorted_wrt apart paths"

lemma value_paths_Cons:
  "value_paths (p # ps) \<longleftrightarrow>
     ends_at_value (PathSplitter p) \<and> list_all (apart p) ps \<and> value_paths ps"
  by (auto simp: value_paths_def list_all_iff)

lemma fieldspec_other_path:
  "fieldspec_Filter f p n s = Inr (n', s') \<Longrightarrow> apart p q \<or> apart q p \<Longrightarrow>
     reached fq (PathSplitter q) n' = reached fq (PathSplitter q) n"
  by (rule reached_other_path [of f "[]" "PathSplitter p" n s n' s'])
    (auto simp: fieldspec_Filter_def apart_def path_fields_def)

lemma fsslice_other_path:
  assumes "fsslice_Filter f paths n s = Inr (n', s')" and "list_all (apart q) paths"
  shows "reached fq (PathSplitter q) n' = reached fq (PathSplitter q) n"
  using assms
proof (induction paths arbitrary: n s)
  case (Cons p paths)
  obtain m t where m: "fieldspec_Filter f p n s = Inr (m, t)" "fsslice_Filter f paths m t = Inr (n', s')"
    using Cons.prems(1) by (auto simp: fsslice_Filter_def rbind_Inr_conv)
  show ?case using Cons.IH [OF m(2)] fieldspec_other_path [OF m(1), of q fq] Cons.prems(2) by simp
qed (simp add: fsslice_Filter_def)

lemma fsslice_reached:
  assumes "fsslice_Filter f paths n s = Inr (n', s')"
    and "\<And>q m s m' s'. f q m s = Inr (m', s') \<Longrightarrow> m' = g m \<and> s' = h q m s"
    and "value_paths paths"
  shows "s' = fold (\<lambda>(q, m). h q m) (reached_all paths n) s \<and>
    reached_all paths n' = map (\<lambda>(q, m). (q, g m)) (reached_all paths n)"
  using assms(1,3)
proof (induction paths arbitrary: n s)
  case (Cons p paths)
  obtain m t where m: "fieldspec_Filter f p n s = Inr (m, t)" "fsslice_Filter f paths m t = Inr (n', s')"
    using Cons.prems(1) by (auto simp: fsslice_Filter_def rbind_Inr_conv)
  have p: "ends_at_value (PathSplitter p)" "list_all (apart p) paths" "value_paths paths"
    using Cons.prems(2) by (simp_all add: value_paths_Cons)
  have run: "fields f [] (PathSplitter p) n s = Inr (m, t)" using m(1) by (simp add: fieldspec_Filter_def)
  note here = fields_reached [OF run assms(2) p(1)]
  have rest: "reached_all paths m = reached_all paths n"
    unfolding reached_all_def using p(2) fieldspec_other_path [OF m(1)]
    by (intro arg_cong [where f = concat] map_cong) (auto simp: list_all_iff)
  have "reached [] (PathSplitter p) n' = reached [] (PathSplitter p) m"
    by (rule fsslice_other_path [OF m(2) p(2)])
  with Cons.IH [OF m(2) p(3)] here show ?case
    by (simp add: rest) (simp add: reached_all_def)
qed (simp add: fsslice_Filter_def reached_all_def)

subsection \<open>Pipelines\<close>

text \<open>
  What a pipeline of \<open>kio\<close> runs on the documents: reading and writing them as text, and marking
  them with annotations before each filter (\<open>Preprocess\<close>) and taking the marks off after it
  (\<open>Reconcile\<close>, which is given the documents as they were marked).
\<close>

record kio =
  ByteReader :: "string \<Rightarrow> ynode list res"
  Preprocess :: "ynode list \<Rightarrow> ynode list res"
  Reconcile :: "ynode list \<Rightarrow> ynode list \<Rightarrow> ynode list res"

type_synonym 's kio_filter = "ynode list \<Rightarrow> 's \<Rightarrow> (ynode list \<times> 's) res"

definition FilterAll :: "(ynode \<Rightarrow> 's \<Rightarrow> (ynode \<times> 's) res) \<Rightarrow> 's kio_filter" where
  "FilterAll = smap"

text \<open>The filters; \<open>None\<close> when there are no documents, for then the pipeline ends without its outputs.\<close>

fun Execute_filters ::
    "kio \<Rightarrow> 's kio_filter list \<Rightarrow> ynode list \<Rightarrow> 's \<Rightarrow> (ynode list option \<times> 's) res" where
  "Execute_filters k [] result s = Inr (Some result, s)"
| "Execute_filters k (op # ops) result s =
     rbind (Preprocess k result) (\<lambda>marked.
       rbind (op marked s) (\<lambda>(result, s).
         if result = [] then Inr (None, s)
         else rbind (Reconcile k marked result) (\<lambda>result. Execute_filters k ops result s)))"

end
