(* ===== verification/Image_Scanner.thy ===== *)
theory Image_Scanner
  imports Yaml_Fields Image_List Attest_Registry
begin

section \<open>Finding images in manifests\<close>

text \<open>
  The package \<open>manifest/imagescanner\<close>: the filter that collects the scalars at the image paths of
  every document of a manifest (\<open>filter.go\<close>) and the scanner that makes an image list of them
  (\<open>imagescanner.go\<close>).  Parameters are the files and the hash, and what kustomize does with text.
\<close>

subsection \<open>The filter\<close>

record SetValueArg =
  arg_Key :: string
  arg_Value :: string
  arg_Tag :: string
  arg_Line :: int
  arg_Column :: int
  arg_NodePath :: "string list"

record Tracker =
  tracker_Manifest :: string
  tracker_ManifestDigest :: SHA256
  setValueArgs :: "SetValueArg list"

text \<open>A node as \<open>MutationTracker\<close> sees it: the names of the fields that lead to it, line and column.\<close>

definition MutationTracker ::
    "string \<Rightarrow> string \<Rightarrow> string \<Rightarrow> string list \<times> int \<times> int \<Rightarrow> Tracker \<Rightarrow> Tracker" where
  "MutationTracker key val tag node t =
     (case node of (fieldPath, line, column) \<Rightarrow>
        t\<lparr>setValueArgs := setValueArgs t @
          [\<lparr>arg_Key = key, arg_Value = val, arg_Tag = tag, arg_Line = line, arg_Column = column,
            arg_NodePath = fieldPath\<rparr>]\<rparr>)"

definition SetValueArgs :: "Tracker \<Rightarrow> SetValueArg list" where
  "SetValueArgs t = setValueArgs t"

definition Tracker_Reset :: "Tracker \<Rightarrow> Tracker" where
  "Tracker_Reset t = t\<lparr>setValueArgs := []\<rparr>"

text \<open>The value of a node that is a scalar; a null is one.\<close>

definition scalar_value :: "ynode \<Rightarrow> (string \<times> int \<times> int) option" where
  "scalar_value n =
     (case n of Scalar v l c \<Rightarrow> Some (v, l, c) | Null v l c \<Rightarrow> Some (v, l, c) | _ \<Rightarrow> None)"

text \<open>
  \<open>Filter.SetValue\<close>: the setter replaces the node by a new one with the same value, which has no
  line or column.
\<close>

definition Filter_SetValue :: "Tracker set_value" where
  "Filter_SetValue fieldPath n t =
     (case scalar_value n of
        None \<Rightarrow> Inl (Fail NotAScalar)
      | Some (v, line, column) \<Rightarrow>
          Inr (Scalar v 0 0, MutationTracker [] v [] (fieldPath, line, column) t))"

definition scan_filter :: "ynode \<Rightarrow> Tracker \<Rightarrow> (ynode \<times> Tracker) res" where
  "scan_filter n t =
     (if isOnDenyList n then Inr (n, t) else fsslice_Filter Filter_SetValue ImagePaths n t)"

subsection \<open>The scanner\<close>

record ('c, 's) DefaultImageScanner =
  directory :: string
  trackers :: "Tracker list"
  attestor :: "('c, 's) PathCheckerRegistry option"

text \<open>
  Opening a file gives what reading it to the end and what closing it give.
\<close>

record scan_env =
  os_Open :: "string \<Rightarrow> (string res \<times> unit res) res"
  kustomize :: kio
  scan_Sum :: "string \<Rightarrow> string"

definition NewDefaultImageScanner :: "('c, 's) DefaultImageScanner" where
  "NewDefaultImageScanner = \<lparr>directory = [], trackers = [], attestor = None\<rparr>"

text \<open>The part of the loop of \<open>Scan\<close> that makes the tracker, and the result of closing the file.\<close>

definition scan_tracker :: "scan_env \<Rightarrow> string \<Rightarrow> string \<Rightarrow> (Tracker \<times> unit res) res" where
  "scan_tracker E d manifest =
     rbind (os_Open E (filepath_Join [d, manifest])) (\<lambda>(content, close).
       rbind content (\<lambda>content.
         rbind (ByteReader (kustomize E) content) (\<lambda>nodes.
           rbind (Execute_filters (kustomize E) [FilterAll scan_filter] nodes
               \<lparr>tracker_Manifest = manifest, tracker_ManifestDigest = [], setValueArgs = []\<rparr>)
             (\<lambda>(_, tracker).
               Inr (tracker\<lparr>tracker_ManifestDigest := MakeSHA256 (scan_Sum E content)\<rparr>, close)))))"

text \<open>One manifest: a tracker that was made stays, also when what follows fails.\<close>

definition scan_manifest ::
    "scan_env \<Rightarrow> string \<Rightarrow> ('c, 's) DefaultImageScanner \<Rightarrow> unit res \<times> ('c, 's) DefaultImageScanner" where
  "scan_manifest E manifest sc =
     (case scan_tracker E (directory sc) manifest of
        Inl e \<Rightarrow> (Inl e, sc)
      | Inr (tracker, close) \<Rightarrow>
          let sc = sc\<lparr>trackers := trackers sc @ [tracker]\<rparr>
          in case attestor sc of
               None \<Rightarrow> (close, sc)
             | Some a \<Rightarrow>
                 (case Register (tracker_Manifest tracker) (tracker_ManifestDigest tracker) a of
                    Inl e \<Rightarrow> (Inl e, sc)
                  | Inr a' \<Rightarrow> (close, sc\<lparr>attestor := Some a'\<rparr>)))"

fun scan_manifests ::
    "scan_env \<Rightarrow> string list \<Rightarrow> ('c, 's) DefaultImageScanner
      \<Rightarrow> unit res \<times> ('c, 's) DefaultImageScanner" where
  "scan_manifests E [] sc = (Inr (), sc)"
| "scan_manifests E (m # ms) sc =
     (case scan_manifest E m sc of
        (Inl e, sc') \<Rightarrow> (Inl e, sc')
      | (Inr _, sc') \<Rightarrow> scan_manifests E ms sc')"

definition Scan ::
    "scan_env \<Rightarrow> string \<Rightarrow> string list \<Rightarrow> ('c, 's) DefaultImageScanner
      \<Rightarrow> unit res \<times> ('c, 's) DefaultImageScanner" where
  "Scan E d manifests sc = scan_manifests E manifests (sc\<lparr>directory := d\<rparr>)"

definition WithProvinanceAttestor ::
    "('c, 's) PathCheckerRegistry option \<Rightarrow> ('c, 's) DefaultImageScanner
      \<Rightarrow> ('c, 's) DefaultImageScanner" where
  "WithProvinanceAttestor pcr sc = sc\<lparr>attestor := pcr\<rparr>"

definition arg_image :: "Tracker \<Rightarrow> SetValueArg \<Rightarrow> image" where
  "arg_image v vv =
     image_of_ref
       [\<lparr>Manifest = tracker_Manifest v, ManifestDigest = tracker_ManifestDigest v,
         Line = arg_Line vv, Column = arg_Column vv, NodePath = arg_NodePath vv,
         OriginalRef = arg_Value vv\<rparr>] (arg_Value vv)"

definition GetImages :: "('c, 's) DefaultImageScanner \<Rightarrow> ImageList" where
  "GetImages sc =
     fold (\<lambda>v. fold (\<lambda>vv. Append [arg_image v vv]) (SetValueArgs v)) (trackers sc)
       (NewImageList (directory sc))"

definition Scanner_Reset :: "('c, 's) DefaultImageScanner \<Rightarrow> ('c, 's) DefaultImageScanner" where
  "Scanner_Reset sc = sc\<lparr>trackers := [], attestor := None\<rparr>"


subsection \<open>What the scanner finds\<close>

text \<open>The text of a manifest and its documents, as the filter gets them.\<close>

definition documents :: "scan_env \<Rightarrow> string \<Rightarrow> string \<Rightarrow> (string \<times> ynode list) res" where
  "documents E d manifest =
     rbind (os_Open E (filepath_Join [d, manifest])) (\<lambda>(content, close).
       rbind content (\<lambda>content.
         rbind (ByteReader (kustomize E) content) (\<lambda>nodes.
           rmap (Pair content) (Preprocess (kustomize E) nodes))))"

definition image_nodes :: "ynode \<Rightarrow> (string list \<times> ynode) list" where
  "image_nodes doc = (if isOnDenyList doc then [] else reached_all ImagePaths doc)"

text \<open>The image that stands at a node of a manifest.\<close>

definition node_image :: "string \<Rightarrow> SHA256 \<Rightarrow> string list \<times> ynode \<Rightarrow> image option" where
  "node_image manifest d node =
     (case node of (fieldPath, n) \<Rightarrow>
        map_option (\<lambda>(v, line, column).
            image_of_ref
              [\<lparr>Manifest = manifest, ManifestDigest = d, Line = line, Column = column,
                NodePath = fieldPath, OriginalRef = v\<rparr>] v)
          (scalar_value n))"

definition manifest_images :: "string \<Rightarrow> SHA256 \<Rightarrow> ynode list \<Rightarrow> image list" where
  "manifest_images manifest d docs =
     List.map_filter (node_image manifest d) (concat (map image_nodes docs))"

definition track :: "string list \<Rightarrow> ynode \<Rightarrow> Tracker \<Rightarrow> Tracker" where
  "track q n t =
     (case scalar_value n of
        None \<Rightarrow> t
      | Some (v, line, column) \<Rightarrow> MutationTracker [] v [] (q, line, column) t)"

lemma value_paths_ImagePaths: "value_paths ImagePaths"
  by code_simp

lemma Filter_SetValue_Inr:
  "Filter_SetValue q m t = Inr (m', t') \<Longrightarrow>
     m' = Scalar (fst (the (scalar_value m))) 0 0 \<and> t' = track q m t"
  by (auto simp: Filter_SetValue_def track_def split: option.splits)

lemma scan_filter_Inr:
  assumes "scan_filter n t = Inr (n', t')"
  shows "t' = fold (\<lambda>(q, m). track q m) (image_nodes n) t"
proof (cases "isOnDenyList n")
  case False
  then have "fsslice_Filter Filter_SetValue ImagePaths n t = Inr (n', t')"
    using assms by (simp add: scan_filter_def)
  from fsslice_reached [OF this Filter_SetValue_Inr value_paths_ImagePaths]
  show ?thesis using False by (simp add: image_nodes_def)
qed (use assms in \<open>simp add: scan_filter_def image_nodes_def\<close>)

text \<open>The images of a tracker.\<close>

definition tracker_images :: "Tracker \<Rightarrow> image list" where
  "tracker_images v = map (arg_image v) (setValueArgs v)"

lemma track_simps:
  "tracker_Manifest (track q n t) = tracker_Manifest t"
  "tracker_ManifestDigest (track q n t) = tracker_ManifestDigest t"
  by (auto simp: track_def MutationTracker_def split: option.splits)

lemma track_digest:
  "track q n (t\<lparr>tracker_ManifestDigest := D\<rparr>) = track q n t\<lparr>tracker_ManifestDigest := D\<rparr>"
  by (cases t) (auto simp: track_def MutationTracker_def split: option.splits)

lemma fold_track_simps:
  "tracker_Manifest (fold (\<lambda>(q, m). track q m) xs t) = tracker_Manifest t"
  "tracker_ManifestDigest (fold (\<lambda>(q, m). track q m) xs t) = tracker_ManifestDigest t"
  by (induction xs arbitrary: t) (auto simp: track_simps)

lemma tracker_images_track:
  "tracker_images (track q n t) = tracker_images t @
     (case node_image (tracker_Manifest t) (tracker_ManifestDigest t) (q, n) of None \<Rightarrow> [] | Some i \<Rightarrow> [i])"
  by (auto simp: tracker_images_def track_def MutationTracker_def node_image_def arg_image_def
      split: option.splits)

lemma tracker_images_fold:
  "tracker_images (fold (\<lambda>(q, m). track q m) xs t) = tracker_images t @
     List.map_filter (node_image (tracker_Manifest t) (tracker_ManifestDigest t)) xs"
  by (induction xs arbitrary: t)
    (auto simp: List.map_filter_simps tracker_images_track track_simps split: option.splits)

lemma scan_tracker_Inr:
  assumes "scan_tracker E d manifest = Inr (v, close)"
  shows "\<exists>content docs. documents E d manifest = Inr (content, docs) \<and>
    tracker_Manifest v = manifest \<and> tracker_ManifestDigest v = MakeSHA256 (scan_Sum E content) \<and>
    tracker_images v = manifest_images manifest (MakeSHA256 (scan_Sum E content)) docs"
proof -
  let ?t = "\<lambda>D. \<lparr>tracker_Manifest = manifest, tracker_ManifestDigest = D, setValueArgs = []\<rparr>"
  obtain c content nodes marked result u where
    opened: "os_Open E (filepath_Join [d, manifest]) = Inr (Inr content, c)"
      "ByteReader (kustomize E) content = Inr nodes" "Preprocess (kustomize E) nodes = Inr marked"
    and run: "FilterAll scan_filter marked (?t []) = Inr (result, u)"
      "v = u\<lparr>tracker_ManifestDigest := MakeSHA256 (scan_Sum E content)\<rparr>"
    using assms by (auto simp: scan_tracker_def rbind_Inr_conv split: if_splits)
  have "u = fold (\<lambda>n. fold (\<lambda>(q, m). track q m) (image_nodes n)) marked (?t [])"
    by (rule smap_state [OF run(1) [unfolded FilterAll_def] scan_filter_Inr])
  then have u: "u = fold (\<lambda>(q, m). track q m) (concat (map image_nodes marked)) (?t [])"
    by (simp add: fold_concat_map)
  have with_digest: "fold (\<lambda>(q, m). track q m) xs t\<lparr>tracker_ManifestDigest := D\<rparr> =
      fold (\<lambda>(q, m). track q m) xs (t\<lparr>tracker_ManifestDigest := D\<rparr>)" for xs t D
    by (induction xs arbitrary: t) (auto simp: track_digest)
  have "v = fold (\<lambda>(q, m). track q m) (concat (map image_nodes marked))
      (?t (MakeSHA256 (scan_Sum E content)))"
    unfolding run(2) u with_digest by simp
  then show ?thesis using opened
    by (simp add: documents_def manifest_images_def tracker_images_fold fold_track_simps)
      (simp add: tracker_images_def)
qed

lemma items_GetImages: "items (GetImages sc) = concat (map tracker_images (trackers sc))"
proof -
  have one: "items (fold (\<lambda>vv. Append [f vv]) vvs l) = items l @ map f vvs" for f vvs l
    by (induction vvs arbitrary: l) auto
  have "items (fold (\<lambda>v. fold (\<lambda>vv. Append [arg_image v vv]) (SetValueArgs v)) vs l) =
      items l @ concat (map tracker_images vs)" for vs l
    by (induction vs arbitrary: l) (auto simp: one SetValueArgs_def tracker_images_def)
  then show ?thesis by (simp add: GetImages_def)
qed

lemma scan_manifest_Inr:
  assumes "scan_manifest E m sc = (Inr u, sc')"
  obtains c ds where "documents E (directory sc) m = Inr (c, ds)" "directory sc' = directory sc"
    "concat (map tracker_images (trackers sc')) = concat (map tracker_images (trackers sc)) @
      manifest_images m (MakeSHA256 (scan_Sum E c)) ds"
    "case attestor sc of None \<Rightarrow> attestor sc' = None
     | Some a \<Rightarrow> \<exists>a'. attestor sc' = Some a' \<and> Register m (MakeSHA256 (scan_Sum E c)) a = Inr a'"
proof -
  obtain v close where v: "scan_tracker E (directory sc) m = Inr (v, close)"
    using assms by (auto simp: scan_manifest_def split: sum.splits)
  obtain c ds where found: "documents E (directory sc) m = Inr (c, ds)"
      "tracker_Manifest v = m" "tracker_ManifestDigest v = MakeSHA256 (scan_Sum E c)"
      "tracker_images v = manifest_images m (MakeSHA256 (scan_Sum E c)) ds"
    using scan_tracker_Inr [OF v] by blast
  show ?thesis
    by (rule that [OF found(1)])
      (use assms in \<open>auto simp: scan_manifest_def v found(2-4) Let_def split: option.splits sum.splits\<close>)
qed

definition manifest_digests :: "scan_env \<Rightarrow> string list \<Rightarrow> (string \<times> ynode list) list \<Rightarrow> (string \<times> SHA256) list" where
  "manifest_digests E ms docs = map2 (\<lambda>m (c, ds). (m, MakeSHA256 (scan_Sum E c))) ms docs"

lemma scan_manifests_Inr:
  assumes "scan_manifests E ms sc = (Inr u, sc')"
  shows "\<exists>docs. list_all2 (\<lambda>m d. documents E (directory sc) m = Inr d) ms docs \<and>
    directory sc' = directory sc \<and>
    concat (map tracker_images (trackers sc')) = concat (map tracker_images (trackers sc)) @
      concat (map2 (\<lambda>(m, D) (c, ds). manifest_images m D ds) (manifest_digests E ms docs) docs) \<and>
    (case attestor sc of None \<Rightarrow> attestor sc' = None
     | Some a \<Rightarrow> \<exists>a'. attestor sc' = Some a' \<and> register_all (manifest_digests E ms docs) a = Inr a')"
  using assms
proof (induction ms arbitrary: sc)
  case Nil
  then show ?case
    by (intro exI [of _ "[]"]) (auto simp: manifest_digests_def register_all_def split: option.splits)
next
  case (Cons m ms)
  obtain t where t: "scan_manifest E m sc = (Inr (), t)" "scan_manifests E ms t = (Inr u, sc')"
    using Cons.prems by (auto split: prod.splits sum.splits)
  from t(1) obtain c ds where one: "documents E (directory sc) m = Inr (c, ds)" "directory t = directory sc"
    "concat (map tracker_images (trackers t)) = concat (map tracker_images (trackers sc)) @
      manifest_images m (MakeSHA256 (scan_Sum E c)) ds"
    "case attestor sc of None \<Rightarrow> attestor t = None
     | Some a \<Rightarrow> \<exists>a'. attestor t = Some a' \<and> Register m (MakeSHA256 (scan_Sum E c)) a = Inr a'"
    by (rule scan_manifest_Inr)
  from Cons.IH [OF t(2)] obtain docs where rest:
    "list_all2 (\<lambda>m d. documents E (directory t) m = Inr d) ms docs" "directory sc' = directory t"
    "concat (map tracker_images (trackers sc')) = concat (map tracker_images (trackers t)) @
      concat (map2 (\<lambda>(m, D) (c, ds). manifest_images m D ds) (manifest_digests E ms docs) docs)"
    "case attestor t of None \<Rightarrow> attestor sc' = None
     | Some a \<Rightarrow> \<exists>a'. attestor sc' = Some a' \<and> register_all (manifest_digests E ms docs) a = Inr a'"
    by blast
  have attested: "case attestor sc of None \<Rightarrow> attestor sc' = None
     | Some a \<Rightarrow> \<exists>a'. attestor sc' = Some a' \<and>
         register_all (manifest_digests E (m # ms) ((c, ds) # docs)) a = Inr a'"
    using one(4) rest(4) by (auto simp: manifest_digests_def register_all_def split: option.splits)
  show ?case
    by (rule exI [of _ "(c, ds) # docs"])
      (use one(1-3) rest(1-3) attested in \<open>simp add: manifest_digests_def\<close>)
qed

text \<open>
  C10: a scan that succeeds has found the images of every manifest, in order and each once: for every
  manifest of the list, every document of it that is not a custom resource definition, every image
  path and every scalar at that path there is one image, with the name, tag and digest of the
  scalar's value, its line, column and field names, and with the SHA-256 digest of the manifest's
  text.  When an attestor is set, exactly these manifests and digests have been registered with it.
\<close>

theorem Scan_finds_every_image:
  assumes "Scan E d ms sc = (Inr (), sc')"
  shows "\<exists>docs. list_all2 (\<lambda>m doc. documents E d m = Inr doc) ms docs \<and>
    dir (GetImages sc') = d \<and>
    items (GetImages sc') = items (GetImages sc) @
      concat (map2 (\<lambda>(m, D) (c, ds). manifest_images m D ds) (manifest_digests E ms docs) docs) \<and>
    (case attestor sc of None \<Rightarrow> attestor sc' = None
     | Some a \<Rightarrow> \<exists>a'. attestor sc' = Some a' \<and>
         rfold (\<lambda>(p, D). Register p D) (manifest_digests E ms docs) a = Inr a')"
proof -
  have dir: "dir (GetImages sc') = directory sc'"
  proof -
    have one: "dir (fold (\<lambda>vv. Append [f vv]) vvs l) = dir l" for f vvs l
      by (induction vvs arbitrary: l) auto
    have "dir (fold (\<lambda>v. fold (\<lambda>vv. Append [arg_image v vv]) (SetValueArgs v)) vs l) = dir l" for vs l
      by (induction vs arbitrary: l) (auto simp: one)
    then show ?thesis by (simp add: GetImages_def)
  qed
  show ?thesis
    using scan_manifests_Inr [OF assms [unfolded Scan_def]]
    unfolding dir items_GetImages register_all_def by simp
qed

definition sample_pod :: ynode where
  "sample_pod =
     Map [(''kind'', Scalar ''Pod'' 1 7),
          (''spec'', Map [(''initContainers'', Null [] 3 19),
                          (''containers'', Seq [Map [(''image'', Scalar ''a.io/web:1'' 7 12)],
                                               Map [(''image'', Scalar ''a.io/log'' 9 12)]])])]"

definition sample_kio :: kio where
  "sample_kio = \<lparr>ByteReader = (\<lambda>_. Inr [sample_pod]), Preprocess = Inr, Reconcile = (\<lambda>_ ns. Inr ns)\<rparr>"

definition sample_scan_env :: scan_env where
  "sample_scan_env = \<lparr>os_Open = (\<lambda>p. if p = ''k8s/web.yaml'' then Inr (Inr ''text'', Inr ()) else Inl (Fail (External p))),
     kustomize = sample_kio, scan_Sum = (\<lambda>s. s)\<rparr>"

lemma sample_scan:
  "fst (Scan sample_scan_env ''k8s'' [''web.yaml''] (NewDefaultImageScanner :: (nat, nat) DefaultImageScanner)) = Inr ()"
  by code_simp

theorem Scan_finds_every_image_witness:
  "map (Ref True) (items (GetImages (snd (Scan sample_scan_env ''k8s'' [''web.yaml'']
     (NewDefaultImageScanner :: (nat, nat) DefaultImageScanner))))) = [''a.io/web:1'', ''a.io/log'']"
proof -
  let ?sc = "NewDefaultImageScanner :: (nat, nat) DefaultImageScanner"
  have run: "Scan sample_scan_env ''k8s'' [''web.yaml''] ?sc =
      (Inr (), snd (Scan sample_scan_env ''k8s'' [''web.yaml''] ?sc))"
    using sample_scan by (simp add: prod_eq_iff)
  have doc: "documents sample_scan_env ''k8s'' ''web.yaml'' = Inr (''text'', [sample_pod])"
    by code_simp
  have found: "map (Ref True) (manifest_images ''web.yaml'' (MakeSHA256 ''text'') [sample_pod]) =
      [''a.io/web:1'', ''a.io/log'']"
    by code_simp
  have sum: "scan_Sum sample_scan_env = (\<lambda>s. s)" by (simp add: sample_scan_env_def)
  obtain docs where docs: "list_all2 (\<lambda>m doc. documents sample_scan_env ''k8s'' m = Inr doc) [''web.yaml''] docs"
    "items (GetImages (snd (Scan sample_scan_env ''k8s'' [''web.yaml''] ?sc))) = items (GetImages ?sc) @
      concat (map2 (\<lambda>(m, D) (c, ds). manifest_images m D ds) (manifest_digests sample_scan_env [''web.yaml''] docs) docs)"
    using Scan_finds_every_image [OF run] by (elim exE conjE) (rule that)
  have "docs = [(''text'', [sample_pod])]" using docs(1) by (auto simp: list_all2_Cons1 doc)
  then show ?thesis using found unfolding docs(2)
    by (simp add: manifest_digests_def sum items_GetImages NewDefaultImageScanner_def)
qed

end
