(* ===== verification/Image_Updater.thy ===== *)
theory Image_Updater
  imports Image_Scanner
begin

section \<open>Writing new references into manifests\<close>

text \<open>
  The package \<open>manifest/updater\<close> (\<open>updater.go\<close>) with the image tag filter of the vendored
  kustomize that it runs: for every manifest of an image list, the references that match an image
  by name are replaced by the image's new reference.  The state is the content of the files and the
  mutations that are recorded; the text of documents, writing files and the hash are parameters.
\<close>

subsection \<open>The image tag filter\<close>

record kustomize_Image =
  kust_Name :: string
  kust_NewName :: string
  kust_TagSuffix :: string
  kust_NewTag :: string
  kust_Digest :: string

definition in_range :: "char \<times> char \<Rightarrow> char \<Rightarrow> bool" where
  "in_range = (\<lambda>(lo, hi) c. lo \<le> c \<and> c \<le> hi)"

definition tag_char :: "char \<Rightarrow> bool" where
  "tag_char c \<longleftrightarrow>
     list_ex (\<lambda>r. in_range r c) [(CHR ''a'', CHR ''z''), (CHR ''A'', CHR ''Z''), (CHR ''0'', CHR ''9'')] \<or>
     c \<in> set ''_.{}-''"

text \<open>What may follow the name: \<^verbatim>\<open>(:[a-zA-Z0-9_.{}-]*)?(@sha256:[a-zA-Z0-9_.{}-]*)?$\<close>.\<close>

definition tag_and_digest :: "string \<Rightarrow> bool" where
  "tag_and_digest r \<longleftrightarrow>
     (let r' = (case r of [] \<Rightarrow> r | c # u \<Rightarrow> if c = CHR '':'' then dropWhile tag_char u else r)
      in r' = [] \<or>
         strings_HasPrefix r' ''@sha256:'' \<and> list_all tag_char (drop (length ''@sha256:'') r'))"

text \<open>
  \<open>image.IsImageMatched\<close> puts the name into a regular expression.  Of the characters that
  repository names can have, only the dot means something there: it matches any character but a
  newline.
\<close>

definition IsImageMatched :: "string \<Rightarrow> string \<Rightarrow> bool" where
  "IsImageMatched s t \<longleftrightarrow>
     list_all2 (\<lambda>c p. if p = CHR ''.'' then c \<noteq> CHR 0x0A else c = p) (take (length t) s) t \<and>
     tag_and_digest (drop (length t) s)"

definition updated_ref :: "kustomize_Image \<Rightarrow> string \<Rightarrow> string" where
  "updated_ref u val =
     (case kimage_Split val of (name, tag, digest) \<Rightarrow>
        let name = (if kust_NewName u \<noteq> [] then kust_NewName u else name);
            (tag, digest) =
              (if kust_NewTag u \<noteq> [] \<and> kust_Digest u \<noteq> [] then (kust_NewTag u, kust_Digest u)
               else if kust_NewTag u \<noteq> [] then (kust_NewTag u, [])
               else if kust_Digest u \<noteq> [] then ([], kust_Digest u)
               else if kust_TagSuffix u \<noteq> [] then (tag @ kust_TagSuffix u, [])
               else (tag, digest));
            name = (if tag \<noteq> [] then name @ '':'' @ tag else name);
            name = (if digest \<noteq> [] then name @ ''@'' @ digest else name)
        in name)"

definition SetImageValue :: "kustomize_Image \<Rightarrow> unit set_value" where
  "SetImageValue u fieldPath n s =
     (case scalar_value n of
        None \<Rightarrow> Inl (Fail NotAScalar)
      | Some (val, _, _) \<Rightarrow>
          if \<not> IsImageMatched val (kust_Name u) then Inr (n, s)
          else Inr (Scalar (updated_ref u val) 0 0, s))"

definition imagetag_filter :: "kustomize_Image \<Rightarrow> ynode \<Rightarrow> unit \<Rightarrow> (ynode \<times> unit) res" where
  "imagetag_filter u n s =
     (if isOnDenyList n then Inr (n, s) else fsslice_Filter (SetImageValue u) ImagePaths n s)"

subsection \<open>The updater\<close>

text \<open>
  Reading documents with the annotations of a package, what \<open>LocalPackageWriter\<close> writes to a file
  and \<open>ByteWriter\<close> to the hash, writing a file, and the hash.
\<close>

record update_env =
  update_kio :: kio
  LocalPackageWriter :: "ynode list \<Rightarrow> string res"
  ByteWriter :: "ynode list \<Rightarrow> string res"
  os_WriteFile :: "string \<Rightarrow> string \<Rightarrow> unit res"
  update_Sum :: "string \<Rightarrow> string"

type_synonym files = "string \<Rightarrow> string option"

record FileUpdater =
  disk :: files
  mutations :: Mutations

definition NewFileUpdater :: "files \<Rightarrow> FileUpdater" where
  "NewFileUpdater fs = \<lparr>disk = fs, mutations = []\<rparr>"

definition Updater_Mutations :: "FileUpdater \<Rightarrow> Mutations" where
  "Updater_Mutations = mutations"

text \<open>
  \<open>LocalPackageReader\<close> of a path that is a file: only names that end in \<open>.yaml\<close> or \<open>.yml\<close> are read.
\<close>

definition DefaultMatch :: "string \<Rightarrow> bool" where
  "DefaultMatch p \<longleftrightarrow>
     strings_HasSuffix (filepath_Base p) ''.yaml'' \<or> strings_HasSuffix (filepath_Base p) ''.yml''"

definition LocalPackageReader :: "update_env \<Rightarrow> files \<Rightarrow> string \<Rightarrow> ynode list res" where
  "LocalPackageReader E fs p =
     (if p = [] then Inl (Fail (External ''must specify package path''))
      else case fs p of
             None \<Rightarrow> Inl (Fail (External p))
           | Some content \<Rightarrow> if DefaultMatch p then ByteReader (update_kio E) content else Inr [])"

definition kustomize_image :: "image \<Rightarrow> kustomize_Image" where
  "kustomize_image i =
     \<lparr>kust_Name = OriginalName i, kust_NewName = NewName i, kust_TagSuffix = [],
      kust_NewTag = NewTag i, kust_Digest = Digest i\<rparr>"

text \<open>The outputs of the pipeline: the files and what was written to the hash.\<close>

definition run_outputs ::
    "update_env \<Rightarrow> string \<Rightarrow> ynode list option \<Rightarrow> files \<Rightarrow> string res \<times> files" where
  "run_outputs E p result fs =
     (case result of
        None \<Rightarrow> (Inr [], fs)
      | Some nodes \<Rightarrow>
          (case rbind (LocalPackageWriter E nodes)
                  (\<lambda>content. rbind (os_WriteFile E p content) (\<lambda>_. Inr content)) of
             Inl e \<Rightarrow> (Inl e, fs)
           | Inr content \<Rightarrow> (ByteWriter E nodes, fs(p \<mapsto> content))))"

definition run_pipeline ::
    "update_env \<Rightarrow> string \<Rightarrow> image list \<Rightarrow> files \<Rightarrow> string res \<times> files" where
  "run_pipeline E p images fs =
     (case rbind (LocalPackageReader E fs p) (\<lambda>nodes.
             Execute_filters (update_kio E)
               (map (\<lambda>i. FilterAll (imagetag_filter (kustomize_image i))) images) nodes ()) of
        Inl e \<Rightarrow> (Inl e, fs)
      | Inr (result, _) \<Rightarrow> run_outputs E p result fs)"

definition record_mutation :: "image \<Rightarrow> SHA256 \<Rightarrow> Mutations \<Rightarrow> Mutations res" where
  "record_mutation first digest m =
     rbind (image_Manifest first) (\<lambda>manifest.
       case gm_get m (manifest, digest) of
         Some _ \<Rightarrow> Inl (Fail (MutationAlreadyRegistered manifest digest))
       | None \<Rightarrow> rmap (\<lambda>d. gm_put (manifest, digest) d m) (image_ManifestDigest first))"

definition doUpdate ::
    "update_env \<Rightarrow> string \<Rightarrow> image list \<Rightarrow> FileUpdater \<Rightarrow> unit res \<times> FileUpdater" where
  "doUpdate E manifestPath images u =
     (case images of
        [] \<Rightarrow> (Inl (Fail NoImagesToUpdate), u)
      | first # _ \<Rightarrow>
          (case run_pipeline E manifestPath images (disk u) of
             (Inl e, fs) \<Rightarrow> (Inl e, u\<lparr>disk := fs\<rparr>)
           | (Inr hashed, fs) \<Rightarrow>
               (case record_mutation first (MakeSHA256 (update_Sum E hashed)) (mutations u) of
                  Inl e \<Rightarrow> (Inl e, u\<lparr>disk := fs\<rparr>)
                | Inr m \<Rightarrow> (Inr (), \<lparr>disk = fs, mutations = m\<rparr>))))"

fun update_groups ::
    "update_env \<Rightarrow> (string \<times> ImageList) list \<Rightarrow> FileUpdater \<Rightarrow> unit res \<times> FileUpdater" where
  "update_groups E [] u = (Inr (), u)"
| "update_groups E ((p, g) # gs) u =
     (case doUpdate E p (items g) u of
        (Inl e, u') \<Rightarrow> (Inl e, u')
      | (Inr _, u') \<Rightarrow> update_groups E gs u')"

text \<open>The manifests are taken in an order that the run time chooses.\<close>

definition Update :: "update_env \<Rightarrow> order \<Rightarrow> ImageList \<Rightarrow> FileUpdater \<Rightarrow> unit res \<times> FileUpdater" where
  "Update E ord images u = update_groups E (gm_range ord (GroupByManifest images)) u"


subsection \<open>What the filters do\<close>

text \<open>The references of documents: the names of the fields that lead to a node and its value.\<close>

definition image_values :: "ynode \<Rightarrow> (string list \<times> string option) list" where
  "image_values n = map (\<lambda>(q, m). (q, map_option fst (scalar_value m))) (image_nodes n)"

definition docs_values :: "ynode list \<Rightarrow> (string list \<times> string option) list" where
  "docs_values docs = concat (map image_values docs)"

definition set_ref :: "kustomize_Image \<Rightarrow> string \<Rightarrow> string" where
  "set_ref u v = (if IsImageMatched v (kust_Name u) then updated_ref u v else v)"

definition set_node :: "kustomize_Image \<Rightarrow> ynode \<Rightarrow> ynode" where
  "set_node u n =
     (case scalar_value n of
        None \<Rightarrow> n
      | Some (v, _, _) \<Rightarrow> if IsImageMatched v (kust_Name u) then Scalar (updated_ref u v) 0 0 else n)"

lemma SetImageValue_Inr: "SetImageValue u q m s = Inr (m', s') \<Longrightarrow> m' = set_node u m \<and> s' = s"
  by (auto simp: SetImageValue_def set_node_def split: option.splits if_splits)

lemma scalar_value_set_node:
  "map_option fst (scalar_value (set_node u n)) = map_option (set_ref u) (map_option fst (scalar_value n))"
  by (auto simp: set_node_def set_ref_def scalar_value_def split: ynode.splits)

text \<open>No filter changes the kind of a resource.\<close>

lemma isOnDenyList_reached:
  "isOnDenyList n \<longleftrightarrow>
     (case n of Map _ \<Rightarrow>
        (case reached [] [''kind''] n of
           [(_, Scalar v _ _)] \<Rightarrow> v = ''CustomResourceDefinition''
         | _ \<Rightarrow> False)
      | _ \<Rightarrow> False)"
  by (auto simp: isOnDenyList_def isSequenceField_def strings_TrimSuffix_def strings_HasSuffix_def Let_def
      split: ynode.splits option.splits)

lemma fieldspec_is_map:
  assumes "fieldspec_Filter f p n s = Inr (n', s')"
  shows "(\<exists>kvs. n' = Map kvs) \<longleftrightarrow> (\<exists>kvs. n = Map kvs)"
proof -
  obtain q qs where "PathSplitter p = q # qs"
    using strings_Split_nonempty [of "CHR ''/''" p] by (cases "PathSplitter p") (auto simp: PathSplitter_def)
  then show ?thesis using assms
    by (cases n) (auto simp: fieldspec_Filter_def rbind_Inr_conv split: prod.splits if_splits)
qed

lemma fsslice_isOnDenyList:
  assumes "fsslice_Filter f paths n s = Inr (n', s')" and "list_all (\<lambda>p. apart p ''kind'') paths"
  shows "isOnDenyList n' \<longleftrightarrow> isOnDenyList n"
  using assms
proof (induction paths arbitrary: n s)
  case (Cons p paths)
  obtain m t where m: "fieldspec_Filter f p n s = Inr (m, t)" "fsslice_Filter f paths m t = Inr (n', s')"
    using Cons.prems(1) by (auto simp: fsslice_Filter_def rbind_Inr_conv)
  have "PathSplitter ''kind'' = [''kind'']" by code_simp
  then have "reached [] [''kind''] m = reached [] [''kind''] n"
    using fieldspec_other_path [OF m(1), of "''kind''" "[]"] Cons.prems(2) by simp
  then have "isOnDenyList m \<longleftrightarrow> isOnDenyList n"
    using fieldspec_is_map [OF m(1)] unfolding isOnDenyList_reached [of m] isOnDenyList_reached [of n]
    by (cases m; cases n) auto
  with Cons m(2) show ?case by simp
qed (simp add: fsslice_Filter_def)

lemma imagetag_filter_values:
  assumes "imagetag_filter u n s = Inr (n', s')"
  shows "image_values n' = map (apsnd (map_option (set_ref u))) (image_values n)"
proof (cases "isOnDenyList n")
  case False
  then have run: "fsslice_Filter (SetImageValue u) ImagePaths n s = Inr (n', s')"
    using assms by (simp add: imagetag_filter_def)
  have "reached_all ImagePaths n' = map (\<lambda>(q, m). (q, set_node u m)) (reached_all ImagePaths n)"
    using fsslice_reached [OF run SetImageValue_Inr value_paths_ImagePaths] by simp
  moreover have "list_all (\<lambda>p. apart p ''kind'') ImagePaths" by code_simp
  ultimately show ?thesis using fsslice_isOnDenyList [OF run] False
    by (simp add: image_values_def image_nodes_def comp_def case_prod_unfold scalar_value_set_node)
qed (use assms in \<open>simp add: imagetag_filter_def image_values_def image_nodes_def\<close>)

text \<open>
  What the model relies on in \<open>kio\<close>: the annotations that a pipeline puts on documents and takes
  off again stand beside the image references, and no document appears out of nothing.
\<close>

definition annotates_only :: "kio \<Rightarrow> bool" where
  "annotates_only k \<longleftrightarrow> Preprocess k [] = Inr [] \<and>
     (\<forall>ns ms. Preprocess k ns = Inr ms \<longrightarrow> docs_values ms = docs_values ns) \<and>
     (\<forall>marked ns ms. Reconcile k marked ns = Inr ms \<longrightarrow> docs_values ms = docs_values ns)"

lemma Execute_filters_values:
  assumes "Execute_filters k (map (\<lambda>u. FilterAll (imagetag_filter u)) us) ns () = Inr (res, s)"
    and "annotates_only k"
  shows "case res of
      None \<Rightarrow> docs_values ns = []
    | Some ms \<Rightarrow> docs_values ms = map (apsnd (map_option (fold set_ref us))) (docs_values ns)"
  using assms(1)
proof (induction us arbitrary: ns)
  case Nil
  then show ?case by (auto simp: id_def [symmetric] option.map_id0 apsnd_def prod.map_id0)
next
  case (Cons u us)
  obtain marked r where r: "Preprocess k ns = Inr marked" "smap (imagetag_filter u) marked () = Inr (r, ())"
    and rest: "if r = [] then res = None
      else \<exists>ms. Reconcile k marked r = Inr ms \<and>
        Execute_filters k (map (\<lambda>u. FilterAll (imagetag_filter u)) us) ms () = Inr (res, s)"
    using Cons.prems by (auto simp: rbind_Inr_conv FilterAll_def split: if_splits)
  have "docs_values r = concat (map (map (apsnd (map_option (set_ref u))) \<circ> image_values) marked)"
    unfolding docs_values_def
    by (rule concat_map_eq [OF smap_list_all2 [OF r(2)]]) (auto dest: imagetag_filter_values)
  also have "\<dots> = map (apsnd (map_option (set_ref u))) (docs_values marked)"
    by (simp add: docs_values_def map_concat comp_def)
  finally have step: "docs_values r = map (apsnd (map_option (set_ref u))) (docs_values ns)"
    using assms(2) r(1) by (auto simp: annotates_only_def)
  show ?case
  proof (cases "r = []")
    case True
    then show ?thesis using rest step by (simp add: docs_values_def)
  next
    case False
    then obtain ms where ms: "Reconcile k marked r = Inr ms"
        "Execute_filters k (map (\<lambda>u. FilterAll (imagetag_filter u)) us) ms () = Inr (res, s)"
      using rest by auto
    have "docs_values ms = docs_values r" using ms(1) assms(2) by (auto simp: annotates_only_def)
    then show ?thesis using Cons.IH [OF ms(2)] step
      by (auto simp: comp_def option.map_comp apsnd_def map_prod_def case_prod_unfold split: option.splits)
  qed
qed


subsection \<open>What an update writes\<close>

text \<open>What the images of a list make of a reference: the first that matches by name decides.\<close>

definition new_ref :: "image list \<Rightarrow> string \<Rightarrow> string" where
  "new_ref images v =
     (case find (\<lambda>i. IsImageMatched v (OriginalName i)) images of
        None \<Rightarrow> v
      | Some i \<Rightarrow> Ref False i)"

text \<open>
  Images that were copied have a new name, tag and digest; \<open>settled\<close> says that no new reference is
  itself taken for one of the images.
\<close>

definition settled :: "image list \<Rightarrow> bool" where
  "settled images \<longleftrightarrow>
     list_all (\<lambda>i. NewName i \<noteq> [] \<and> NewTag i \<noteq> [] \<and> Digest i \<noteq> [] \<and>
       list_all (\<lambda>j. \<not> IsImageMatched (Ref False i) (OriginalName j)) images) images"

lemma updated_ref_new:
  "NewName i \<noteq> [] \<Longrightarrow> NewTag i \<noteq> [] \<Longrightarrow> Digest i \<noteq> [] \<Longrightarrow>
     updated_ref (kustomize_image i) v = Ref False i"
  by (simp add: updated_ref_def kustomize_image_def Ref_def split: prod.splits)

lemma fold_set_ref_unmatched:
  "list_all (\<lambda>j. \<not> IsImageMatched v (OriginalName j)) js \<Longrightarrow>
     fold set_ref (map kustomize_image js) v = v"
  by (induction js) (auto simp: set_ref_def kustomize_image_def)

lemma fold_set_ref:
  assumes "settled images" and "set js \<subseteq> set images"
  shows "fold set_ref (map kustomize_image js) v = new_ref js v"
  using assms(2)
proof (induction js)
  case (Cons i js)
  then have i: "NewName i \<noteq> []" "NewTag i \<noteq> []" "Digest i \<noteq> []"
    "list_all (\<lambda>j. \<not> IsImageMatched (Ref False i) (OriginalName j)) js"
    using assms(1) by (auto simp: settled_def list_all_iff)
  show ?case
  proof (cases "IsImageMatched v (OriginalName i)")
    case True
    then have "set_ref (kustomize_image i) v = Ref False i"
      using updated_ref_new [OF i(1-3)] by (simp add: set_ref_def) (simp add: kustomize_image_def)
    then show ?thesis using fold_set_ref_unmatched [OF i(4)] True by (simp add: new_ref_def)
  next
    case False
    then have "set_ref (kustomize_image i) v = v" by (simp add: set_ref_def) (simp add: kustomize_image_def)
    then show ?thesis using Cons False by (simp add: new_ref_def)
  qed
qed (simp add: new_ref_def)

text \<open>
  A manifest that was updated, as text before and after and what was written to the hash: one with
  references has documents written that hold the new references in the places of the old ones.
\<close>

definition update_file ::
    "update_env \<Rightarrow> image list \<Rightarrow> string option \<Rightarrow> string option \<Rightarrow> string \<Rightarrow> bool" where
  "update_file E images before after hashed \<longleftrightarrow>
     (\<exists>content docs. before = Some content \<and> ByteReader (update_kio E) content = Inr docs \<and>
        (docs_values docs = [] \<and> after = before \<and> hashed = [] \<or>
         (\<exists>docs' content'. docs_values docs' = map (apsnd (map_option (new_ref images))) (docs_values docs) \<and>
            LocalPackageWriter E docs' = Inr content' \<and> after = Some content' \<and>
            ByteWriter E docs' = Inr hashed)))"

definition updates_manifest ::
    "update_env \<Rightarrow> string \<Rightarrow> image list \<Rightarrow> string option \<Rightarrow> string option \<Rightarrow> string \<Rightarrow> bool" where
  "updates_manifest E p images before after hashed \<longleftrightarrow>
     (if DefaultMatch p then update_file E images before after hashed
      else before \<noteq> None \<and> after = before \<and> hashed = [])"

lemma run_outputs_Inr:
  "run_outputs E p res fs = (Inr h, fs') \<longleftrightarrow>
     (case res of
        None \<Rightarrow> h = [] \<and> fs' = fs
      | Some nodes \<Rightarrow> \<exists>content. LocalPackageWriter E nodes = Inr content \<and>
          os_WriteFile E p content = Inr () \<and> ByteWriter E nodes = Inr h \<and> fs' = fs(p \<mapsto> content))"
  by (auto simp: run_outputs_def rbind_Inr_conv rbind_Inl_conv split: option.splits sum.splits)

lemma run_pipeline_Inr:
  assumes "run_pipeline E p images fs = (Inr h, fs')" and "annotates_only (update_kio E)"
    and "settled images" and "images \<noteq> []"
  shows "updates_manifest E p images (fs p) (fs' p) h"
    and "q \<noteq> p \<Longrightarrow> fs' q = fs q"
proof -
  obtain nodes res where nodes: "LocalPackageReader E fs p = Inr nodes"
    and res: "Execute_filters (update_kio E) (map (\<lambda>u. FilterAll (imagetag_filter u)) (map kustomize_image images))
        nodes () = Inr (res, ())"
    and outs: "run_outputs E p res fs = (Inr h, fs')"
    using assms(1) by (auto simp: run_pipeline_def comp_def rbind_Inr_conv split: sum.splits)
  obtain content where content: "fs p = Some content"
      "if DefaultMatch p then ByteReader (update_kio E) content = Inr nodes else nodes = []"
    using nodes by (auto simp: LocalPackageReader_def split: if_splits option.splits)
  have all: "fold set_ref (map kustomize_image images) = new_ref images"
    using fold_set_ref [OF assms(3) subset_refl] by (rule ext)
  have new: "case res of None \<Rightarrow> docs_values nodes = []
      | Some ms \<Rightarrow> docs_values ms = map (apsnd (map_option (new_ref images))) (docs_values nodes)"
    using Execute_filters_values [OF res assms(2)] unfolding all .
  have none: "res = None" if "\<not> DefaultMatch p"
  proof -
    obtain i is' where "images = i # is'" using assms(4) by (cases images) auto
    with that res content(2) assms(2) show ?thesis
      by (auto simp: annotates_only_def FilterAll_def)
  qed
  show "updates_manifest E p images (fs p) (fs' p) h"
    using outs new content none
    by (auto simp: run_outputs_Inr updates_manifest_def update_file_def split: option.splits)
  show "q \<noteq> p \<Longrightarrow> fs' q = fs q"
    using outs by (auto simp: run_outputs_Inr split: option.splits)
qed

lemma doUpdate_Inr:
  "doUpdate E p images u = (Inr x, u') \<longleftrightarrow>
     (\<exists>first rest h fs m. images = first # rest \<and> run_pipeline E p images (disk u) = (Inr h, fs) \<and>
        record_mutation first (MakeSHA256 (update_Sum E h)) (mutations u) = Inr m \<and>
        u' = \<lparr>disk = fs, mutations = m\<rparr>)"
  by (auto simp: doUpdate_def split: list.splits prod.splits sum.splits)

lemma record_mutation_Inr:
  "record_mutation first D m = Inr m' \<longleftrightarrow>
     (\<exists>manifest d. image_Manifest first = Inr manifest \<and> image_ManifestDigest first = Inr d \<and>
        gm_get m (manifest, D) = None \<and> m' = gm_put (manifest, D) d m)"
  by (auto simp: record_mutation_def rbind_Inr_conv rmap_Inr_conv split: option.splits)

text \<open>A manifest that was updated and has its mutation recorded.\<close>

definition group_updated ::
    "update_env \<Rightarrow> string \<Rightarrow> image list \<Rightarrow> string option \<Rightarrow> FileUpdater \<Rightarrow> bool" where
  "group_updated E p images before u \<longleftrightarrow>
     (\<exists>hashed manifest d. updates_manifest E p images before (disk u p) hashed \<and>
        image_Manifest (hd images) = Inr manifest \<and> image_ManifestDigest (hd images) = Inr d \<and>
        gm_get (mutations u) (manifest, MakeSHA256 (update_Sum E hashed)) = Some d)"

lemma update_groups_Inr:
  assumes "update_groups E gs u = (Inr x, u')" and "annotates_only (update_kio E)"
    and "list_all (\<lambda>(p, g). settled (items g)) gs" and "distinct (map fst gs)"
  shows "(case map_of gs q of
       None \<Rightarrow> disk u' q = disk u q
     | Some g \<Rightarrow> group_updated E q (items g) (disk u q) u') \<and>
     (\<forall>k v. gm_get (mutations u) k = Some v \<longrightarrow> gm_get (mutations u') k = Some v)"
  using assms(1,3,4)
proof (induction gs arbitrary: u)
  case (Cons pg gs)
  obtain p g where pg: "pg = (p, g)" by fastforce
  obtain t where t: "doUpdate E p (items g) u = (Inr (), t)" "update_groups E gs t = (Inr x, u')"
    using Cons.prems(1) by (auto simp: pg split: prod.splits sum.splits)
  have here: "settled (items g)" "list_all (\<lambda>(p, g). settled (items g)) gs" "p \<notin> fst ` set gs"
      "distinct (map fst gs)"
    using Cons.prems(2,3) by (auto simp: pg)
  obtain first rest h fs m where run: "items g = first # rest"
      "run_pipeline E p (items g) (disk u) = (Inr h, fs)"
      "record_mutation first (MakeSHA256 (update_Sum E h)) (mutations u) = Inr m"
      "t = \<lparr>disk = fs, mutations = m\<rparr>"
    using t(1) by (auto simp: doUpdate_Inr)
  have "items g \<noteq> []" using run(1) by simp
  note files = run_pipeline_Inr [OF run(2) assms(2) here(1) this]
  note ih = Cons.IH [OF t(2) here(2,4)]
  obtain manifest d where mut: "image_Manifest first = Inr manifest" "image_ManifestDigest first = Inr d"
      "gm_get (mutations u) (manifest, MakeSHA256 (update_Sum E h)) = None"
      "m = gm_put (manifest, MakeSHA256 (update_Sum E h)) d (mutations u)"
    using run(3) by (auto simp: record_mutation_Inr)
  have keeps: "gm_get (mutations t) k = Some v" if "gm_get (mutations u) k = Some v" for k v
    using that mut(3,4) run(4) by (auto simp: gm_get_def gm_put_def update_conv')
  have recorded: "gm_get (mutations t) (manifest, MakeSHA256 (update_Sum E h)) = Some d"
    using mut(4) run(4) by (simp add: gm_get_def gm_put_def update_conv')
  show ?case
  proof (cases "q = p")
    case True
    then have "map_of gs q = None" using here(3) by (auto simp: map_of_eq_None_iff)
    then have "disk u' q = fs p" using ih run(4) True by simp
    then have "group_updated E p (items g) (disk u p) u'"
      unfolding group_updated_def using files(1) mut(1,2) recorded ih True run(1)
      by (intro exI [of _ h] exI [of _ manifest] exI [of _ d]) auto
    then show ?thesis using True ih keeps by (simp add: pg)
  next
    case False
    then have "disk t q = disk u q" using files(2) run(4) by simp
    then show ?thesis using ih keeps False by (auto simp: pg split: option.splits)
  qed
qed simp


lemma map_of_gm_range: "gm_ok m \<Longrightarrow> map_of (gm_range ord m) k = gm_get m k"
  using gomap.range_get [of m k _ ord] gomap.range_distinct [of m ord]
  by (cases "map_of (gm_range ord m) k"; cases "gm_get m k") (force simp: map_of_eq_None_iff)+

text \<open>
  C9: an update that succeeds has dealt with every manifest that an image has a source in and with
  no other file: a YAML manifest now holds documents in which every reference that an image of the
  manifest matches by name is the new reference of the first such image, whatever tag it had, and
  every other reference is what it was; and the digest of what was written is recorded as a
  mutation of the digest that the manifest was scanned with.  A manifest that is not named as YAML is
  left as it is, with the digest of nothing recorded.
\<close>

theorem Update_writes_new_refs:
  assumes "Update E ord l u = (Inr (), u')" and "annotates_only (update_kio E)"
    and "list_all (\<lambda>(p, g). settled (items g)) (GroupByManifest l)"
  shows "case gm_get (GroupByManifest l) p of
      None \<Rightarrow> disk u' p = disk u p
    | Some g \<Rightarrow>
        \<exists>hashed manifest d. updates_manifest E p (items g) (disk u p) (disk u' p) hashed \<and>
          image_Manifest (hd (items g)) = Inr manifest \<and> image_ManifestDigest (hd (items g)) = Inr d \<and>
          gm_get (mutations u') (manifest, MakeSHA256 (update_Sum E hashed)) = Some d"
proof -
  have "list_all (\<lambda>(p, g). settled (items g)) (gm_range ord (GroupByManifest l))"
    using assms(3) by (simp add: list_all_iff)
  from update_groups_Inr [OF assms(1) [unfolded Update_def] assms(2) this gomap.range_distinct, of p]
  show ?thesis unfolding map_of_gm_range [OF gm_ok_GroupByManifest] group_updated_def by simp
qed

text \<open>
  C32: a manifest that kustomize does not take for YAML, such as one named \<open>.json\<close>, is never changed:
  when it exists, updating it only records the digest of nothing.
\<close>

theorem doUpdate_skips_json:
  assumes "Preprocess (update_kio E) [] = Inr []"
  shows "doUpdate E (p @ ''.json'') (first # rest) u =
    (if disk u (p @ ''.json'') = None then (Inl (Fail (External (p @ ''.json''))), u)
     else case record_mutation first (MakeSHA256 (update_Sum E [])) (mutations u) of
            Inl e \<Rightarrow> (Inl e, u)
          | Inr m \<Rightarrow> (Inr (), u\<lparr>mutations := m\<rparr>))"
proof -
  have "\<not> DefaultMatch (p @ ''.json'')"
    by (auto simp: DefaultMatch_def filepath_Base_def strings_HasSuffix_iff slash_def Let_def)
  then show ?thesis using assms
    by (auto simp: doUpdate_def run_pipeline_def run_outputs_def LocalPackageReader_def FilterAll_def
        split: option.splits sum.splits)
qed


definition sample_update_env :: update_env where
  "sample_update_env =
     \<lparr>update_kio = sample_kio, LocalPackageWriter = (\<lambda>_. Inr ''new text''),
      ByteWriter = (\<lambda>_. Inr ''new text''), os_WriteFile = (\<lambda>_ _. Inr ()), update_Sum = (\<lambda>s. s)\<rparr>"

definition pod_image :: "string \<Rightarrow> image" where
  "pod_image manifest =
     \<lparr>Sources = [\<lparr>Manifest = manifest, ManifestDigest = ''d0'', Line = 7, Column = 12,
                  NodePath = [''image''], OriginalRef = ''a.io/web:1''\<rparr>],
      OriginalName = ''a.io/web'', OriginalTag = ''1'', Digest = ''sha256:aa'', NewName = ''r.io/app'',
      NewTag = ''app.web'', Alias = None\<rparr>"

definition pod_images :: ImageList where
  "pod_images = Append [pod_image ''web.yaml''] (NewImageList ''k8s'')"

definition sample_disk :: files where
  "sample_disk = Map.empty(''k8s/web.yaml'' \<mapsto> ''text'', ''k8s/web.json'' \<mapsto> ''text'')"

lemma sample_groups: "GroupByManifest pod_images = [(''k8s/web.yaml'', pod_images)]"
  by code_simp

lemma sample_update:
  "fst (update_groups sample_update_env [(''k8s/web.yaml'', pod_images)] (NewFileUpdater sample_disk)) = Inr ()"
  by code_simp

lemma sample_kio_annotates_only: "annotates_only sample_kio"
  by (simp add: annotates_only_def sample_kio_def)

theorem Update_writes_new_refs_witness:
  "\<exists>u' hashed. Update sample_update_env in_order pod_images (NewFileUpdater sample_disk) = (Inr (), u') \<and>
     updates_manifest sample_update_env ''k8s/web.yaml'' (items pod_images) (Some ''text'')
       (disk u' ''k8s/web.yaml'') hashed"
proof -
  let ?u = "NewFileUpdater sample_disk"
  let ?u' = "snd (Update sample_update_env in_order pod_images ?u)"
  have run: "Update sample_update_env in_order pod_images ?u = (Inr (), ?u')"
    using sample_update by (simp add: Update_def sample_groups gm_range_def shuffle_def prod_eq_iff)
  have kio: "annotates_only (update_kio sample_update_env)"
    using sample_kio_annotates_only by (simp add: sample_update_env_def)
  have settled: "list_all (\<lambda>(p, g). settled (items g)) (GroupByManifest pod_images)"
    by code_simp
  have before: "disk ?u ''k8s/web.yaml'' = Some ''text''" by (simp add: NewFileUpdater_def sample_disk_def)
  from Update_writes_new_refs [OF run kio settled, of "''k8s/web.yaml''"]
  obtain hashed where "updates_manifest sample_update_env ''k8s/web.yaml'' (items pod_images)
      (Some ''text'') (disk ?u' ''k8s/web.yaml'') hashed"
    unfolding before by (auto simp: sample_groups gm_get_def)
  with run show ?thesis by blast
qed

theorem doUpdate_skips_json_witness:
  "doUpdate sample_update_env (''k8s/web'' @ ''.json'') [pod_image ''web.json''] (NewFileUpdater sample_disk) =
     (Inr (), \<lparr>disk = sample_disk, mutations = [((''web.json'', []), ''d0'')]\<rparr>)"
proof -
  have mut: "record_mutation (pod_image ''web.json'') (MakeSHA256 (update_Sum sample_update_env []))
      (mutations (NewFileUpdater sample_disk)) = Inr [((''web.json'', []), ''d0'')]"
    by code_simp
  have there: "disk (NewFileUpdater sample_disk) (''k8s/web'' @ ''.json'') = Some ''text''"
    by code_simp
  have pre: "Preprocess (update_kio sample_update_env) [] = Inr []"
    by (simp add: sample_update_env_def sample_kio_def)
  show ?thesis unfolding doUpdate_skips_json [OF pre] mut there by (simp add: NewFileUpdater_def)
qed

end
