(* ===== verification/Manifest_Loader.thy ===== *)
theory Manifest_Loader
  imports File_Tree Prelude
begin

section \<open>Loading a directory of manifests\<close>

text \<open>
  The package \<open>manifest/loader\<close> (\<open>loader.go\<close>): the manifests of a directory are found by walking it,
  the directory is copied to a temporary one, and the copy is walked again.  The file system is the
  state: what \<open>os.Stat\<close> and \<open>filepath.WalkDir\<close> see at a path.  Making a temporary directory, copying
  (the vendored \<open>otiai10/copy\<close>) and removing are parameters that change it.
\<close>

subsection \<open>State\<close>

record fileWithModTime =
  file_path :: string
  file_time :: int

record file_system =
  fs_Stat :: "string \<Rightarrow> stat_result"
  fs_Walk :: "string \<Rightarrow> file_node res"

text \<open>\<open>copy_Copy\<close> gets the function that says which paths that are no directories to skip.\<close>

record loader_env =
  loader_MkdirTemp :: "file_system \<Rightarrow> (string \<times> file_system) res"
  EvalSymlinks :: "file_system \<Rightarrow> string \<Rightarrow> string res"
  copy_Copy :: "string \<Rightarrow> string \<Rightarrow> (string \<Rightarrow> bool) \<Rightarrow> file_system \<Rightarrow> unit res \<times> file_system"
  RemoveAll :: "string \<Rightarrow> file_system \<Rightarrow> unit res \<times> file_system"

record ManifestLoader =
  fromPath :: string
  tempDir :: string
  files :: "fileWithModTime list"
  relPaths :: "(string, string) gomap"

definition NewRecursiveManifestDirectoryLoader :: "string \<Rightarrow> ManifestLoader" where
  "NewRecursiveManifestDirectoryLoader path =
     \<lparr>fromPath = path, tempDir = [], files = [], relPaths = []\<rparr>"

subsection \<open>Finding manifests\<close>

definition ignoreFile :: "string \<Rightarrow> bool" where
  "ignoreFile p \<longleftrightarrow> filepath_Ext p \<notin> {''.json'', ''.yaml'', ''.yml''}"

definition useKustomize :: "string list \<Rightarrow> bool" where
  "useKustomize paths \<longleftrightarrow>
     list_ex (\<lambda>p. filepath_Base p \<in> {''kustomization.yaml'', ''kustomization.yml'', ''Kustomization''}) paths"

definition doWalk ::
    "string \<Rightarrow> file_node \<Rightarrow> fault option \<Rightarrow> fileWithModTime list \<Rightarrow> fileWithModTime list res" where
  "doWalk p e err fs =
     (case err of
        Some f \<Rightarrow> Inl f
      | None \<Rightarrow>
          if is_dir e \<or> ignoreFile p then Inr fs
          else Inr (fs @ [\<lparr>file_path = p, file_time = ModTime (node_info e)\<rparr>]))"

definition compare_files :: "fileWithModTime \<Rightarrow> fileWithModTime \<Rightarrow> int" where
  "compare_files a b =
     (let timewise = cmp_Compare (file_time a) (file_time b)
      in if timewise \<noteq> 0 then timewise else cmp_Compare (file_path a) (file_path b))"

definition getFiles :: "order \<Rightarrow> file_system \<Rightarrow> string \<Rightarrow> fileWithModTime list res" where
  "getFiles ord S path =
     (case fs_Stat S path of
        NotExist e \<Rightarrow> wrap (''the path does not exist: '' @ path) (Inl (Fail e))
      | StatError e \<Rightarrow> Inl (Fail (PathNotAccessible path))
      | Exists isDir info \<Rightarrow>
          if \<not> isDir then Inr [\<lparr>file_path = path, file_time = ModTime info\<rparr>]
          else rbind (WalkDir path (fs_Walk S path) doWalk []) (\<lambda>found.
                 if found = [] then Inl (Fail (NoFilesFound path))
                 else Inr (SortFunc ord compare_files found)))"

subsection \<open>The loader\<close>

definition mkdirTemp :: "loader_env \<Rightarrow> file_system \<Rightarrow> string res \<times> file_system" where
  "mkdirTemp E S =
     (case loader_MkdirTemp E S of
        Inl e \<Rightarrow> (Inl e, S)
      | Inr (d, S') \<Rightarrow> (wrap ''error evaluating symlink'' (EvalSymlinks E S' d), S'))"

definition make_relative :: "string \<Rightarrow> string res" where
  "make_relative p = (if filepath_IsAbs p then filepath_Rel [] p else Inr p)"

definition make_relPaths :: "string \<Rightarrow> fileWithModTime list \<Rightarrow> (string, string) gomap res" where
  "make_relPaths src fs =
     rfold (\<lambda>f m. rmap (\<lambda>rel. gm_put rel (file_path f) m) (filepath_Rel src (file_path f))) fs []"

text \<open>
  The part of \<open>Load\<close> before the copying.  The choices are those of the two sorts.  The loader keeps
  the temporary directory when a later step fails, so that \<open>Cleanup\<close> removes it.
\<close>

definition load_paths ::
    "order \<Rightarrow> file_system \<Rightarrow> ManifestLoader \<Rightarrow> (string \<times> (string, string) gomap) res" where
  "load_paths ord S l =
     rbind (make_relative (fromPath l)) (\<lambda>src.
       rbind (getFiles ord S src) (\<lambda>fs. rmap (Pair src) (make_relPaths src fs)))"

definition Load ::
    "loader_env \<Rightarrow> choices \<Rightarrow> ManifestLoader \<Rightarrow> file_system
      \<Rightarrow> unit res \<times> ManifestLoader \<times> file_system" where
  "Load E c l S =
     (case mkdirTemp E S of
        (Inl e, S1) \<Rightarrow> (Inl e, l, S1)
      | (Inr d, S1) \<Rightarrow>
          let l1 = l\<lparr>tempDir := d\<rparr>
          in case load_paths (c 0) S1 l1 of
               Inl e \<Rightarrow> (Inl e, l1, S1)
             | Inr (src, rels) \<Rightarrow>
                 let l2 = l1\<lparr>fromPath := src, relPaths := rels\<rparr>
                 in case copy_Copy E src d ignoreFile S1 of
                      (Inl e, S2) \<Rightarrow> (Inl e, l2, S2)
                    | (Inr _, S2) \<Rightarrow>
                        (case getFiles (c 1) S2 d of
                           Inl e \<Rightarrow> (Inl e, l2, S2)
                         | Inr fs \<Rightarrow> (Inr (), l2\<lparr>files := fs\<rparr>, S2)))"

definition MostRecentlyModified :: "ManifestLoader \<Rightarrow> (string \<times> int) res" where
  "MostRecentlyModified l =
     (case files l of [] \<Rightarrow> Inl (Panic IndexOutOfRange) | f # _ \<Rightarrow> Inr (file_path f, file_time f))"

definition loader_Paths :: "ManifestLoader \<Rightarrow> string list" where
  "loader_Paths l = map file_path (files l)"

definition RelPaths :: "order \<Rightarrow> ManifestLoader \<Rightarrow> string \<times> string list" where
  "RelPaths ord l = (tempDir l, map fst (gm_range ord (relPaths l)))"

definition ContainsRelPath :: "string \<Rightarrow> ManifestLoader \<Rightarrow> bool" where
  "ContainsRelPath p l \<longleftrightarrow> gm_get (relPaths l) p \<noteq> None"

definition Cleanup :: "loader_env \<Rightarrow> ManifestLoader \<Rightarrow> file_system \<Rightarrow> unit res \<times> file_system" where
  "Cleanup E l S = (if tempDir l = [] then (Inr (), S) else RemoveAll E (tempDir l) S)"


subsection \<open>What is loaded\<close>

text \<open>The files below a directory, as the names that lead to them and their times.\<close>

definition file_times :: "file_node \<Rightarrow> (string list \<times> int) list" where
  "file_times t =
     map (\<lambda>(ns, d). (ns, ModTime (node_info d))) (filter (\<lambda>(ns, d). \<not> is_dir d) (nodes t))"

definition manifest_times :: "string \<Rightarrow> file_node \<Rightarrow> (string list \<times> int) list" where
  "manifest_times root t = filter (\<lambda>(ns, m). \<not> ignoreFile (under root ns)) (file_times t)"

lemma file_times_sort_node: "wf_node t \<Longrightarrow> set (file_times (sort_node t)) = set (file_times t)"
proof -
  assume wf: "wf_node t"
  have "(ns, m) \<in> set (file_times u) \<longleftrightarrow>
      (\<exists>d. find_node u ns = Some d \<and> \<not> is_dir d \<and> m = ModTime (node_info d))" if "wf_node u" for ns m u
    using nodes_find [OF that] by (force simp: file_times_def)
  then show ?thesis using wf by (auto simp: find_sort_node)
qed

lemma visits_doWalk:
  assumes "rfold (\<lambda>(p, d, err). doWalk p d err) vs fs = Inr found"
  shows "list_all (\<lambda>(p, d, err). err = None) vs \<and>
    found = fs @ map (\<lambda>(p, d, err). \<lparr>file_path = p, file_time = ModTime (node_info d)\<rparr>)
      (filter (\<lambda>(p, d, err). \<not> is_dir d \<and> \<not> ignoreFile p) vs)"
  using assms
proof (induction vs arbitrary: fs)
  case (Cons v vs)
  obtain p d err where v: "v = (p, d, err)" by (cases v)
  obtain fs' where "doWalk p d err fs = Inr fs'" "rfold (\<lambda>(p, d, err). doWalk p d err) vs fs' = Inr found"
    using Cons.prems by (auto simp: v rbind_Inr_conv)
  then have "err = None" "fs' = (if is_dir d \<or> ignoreFile p then fs
      else fs @ [\<lparr>file_path = p, file_time = ModTime (node_info d)\<rparr>])"
    by (auto simp: doWalk_def split: option.splits if_splits)
  with Cons.IH [OF \<open>rfold (\<lambda>(p, d, err). doWalk p d err) vs fs' = Inr found\<close>] show ?case
    by (simp add: v)
qed simp

text \<open>A walk that no visit stops with an error has read every directory.\<close>

lemma visits_readable: "list_all (\<lambda>(p, d, err). err = None) (visits p t) \<Longrightarrow> readable t"
proof (induction p t rule: visits.induct)
  case (1 p i e cs)
  have "e = None" using 1(2) by (cases e) auto
  moreover have "readable c" if "(n, c) \<in> set cs" for n c
  proof (rule 1(1) [OF that refl])
    have "set (visits (filepath_Join [p, n]) c) \<subseteq> set (visits p (Directory i e cs))"
      using that by force
    then show "list_all (\<lambda>(p, d, err). err = None) (visits (filepath_Join [p, n]) c)"
      using 1(2) unfolding list_all_iff by blast
  qed
  ultimately show ?case by (auto simp: list_all_iff)
qed auto

lemma WalkDir_doWalk:
  assumes "WalkDir p (Inr t) doWalk [] = Inr found"
  shows "readable t \<and>
    found = map (\<lambda>(ns, m). \<lparr>file_path = under p ns, file_time = m\<rparr>) (manifest_times p (sort_node t))"
proof -
  have run: "rfold (\<lambda>(p, d, err). doWalk p d err) (visits p (sort_node t)) [] = Inr found"
    using assms by (simp add: WalkDir_def)
  note walked = visits_doWalk [OF run]
  have "readable (sort_node t)" using walked by (blast intro: visits_readable)
  with walked show ?thesis
    by (simp add: visits_nodes filter_map comp_def case_prod_unfold manifest_times_def file_times_def)
qed

lemma set_manifest_times_sort_node:
  "wf_node t \<Longrightarrow> set (manifest_times p (sort_node t)) = set (manifest_times p t)"
  by (simp add: manifest_times_def file_times_sort_node)

lemma names_manifest_times:
  "wf_node t \<Longrightarrow> (ns, m) \<in> set (manifest_times p t) \<Longrightarrow> list_all entry_name ns"
  by (auto simp: manifest_times_def file_times_def nodes_find intro: find_node_names)

lemma comparator_files: "comparator compare_files"
proof -
  have eq: "compare_files = cmp_then (\<lambda>a b. cmp_Compare (file_time a) (file_time b))
      (\<lambda>a b. cmp_Compare (file_path a) (file_path b))"
    by (simp add: compare_files_def cmp_then_def Let_def fun_eq_iff)
  show ?thesis unfolding eq by (intro cmp_intros)
qed

interpretation files_order: comparator compare_files
  by (rule comparator_files)

text \<open>What finding files in a directory gives, when it succeeds.\<close>

lemma getFiles_dir:
  assumes "getFiles ord S p = Inr fs" and "fs_Stat S p = Exists True i"
    and "fs_Walk S p = Inr t" and "wf_node t"
  shows "readable t" and "fs \<noteq> []" and "sorted_wrt (\<lambda>a b. compare_files a b \<le> 0) fs"
    and "set fs = (\<lambda>(ns, m). \<lparr>file_path = under p ns, file_time = m\<rparr>) ` set (manifest_times p t)"
proof -
  obtain found where found: "WalkDir p (Inr t) doWalk [] = Inr found" "found \<noteq> []"
      "fs = SortFunc ord compare_files found"
    using assms(1-3) by (auto simp: getFiles_def rbind_Inr_conv split: if_splits)
  note walk = WalkDir_doWalk [OF found(1)]
  show "readable t" using walk by simp
  show "fs \<noteq> []" using found(2,3) by (metis length_0_conv length_SortFunc)
  show "sorted_wrt (\<lambda>a b. compare_files a b \<le> 0) fs"
    unfolding found(3) by (rule files_order.sorted_SortFunc)
  have "set fs = set found" unfolding found(3) by simp
  also have "\<dots> = (\<lambda>(ns, m). \<lparr>file_path = under p ns, file_time = m\<rparr>) ` set (manifest_times p t)"
    unfolding conjunct2 [OF walk] using assms(4) by (simp add: set_manifest_times_sort_node)
  finally show "set fs = (\<lambda>(ns, m). \<lparr>file_path = under p ns, file_time = m\<rparr>) ` set (manifest_times p t)" .
qed

lemma getFiles_nonempty:
  assumes "getFiles ord S p = Inr fs"
  shows "fs \<noteq> [] \<and> sorted_wrt (\<lambda>a b. compare_files a b \<le> 0) fs"
proof (cases "fs_Stat S p")
  case (Exists isDir i)
  show ?thesis
  proof (cases isDir)
    case False
    then show ?thesis using assms Exists by (auto simp: getFiles_def)
  next
    case True
    then obtain found where found: "found \<noteq> []" "fs = SortFunc ord compare_files found"
      using assms Exists by (auto simp: getFiles_def rbind_Inr_conv split: if_splits)
    have "fs \<noteq> []" using found by (metis length_0_conv length_SortFunc)
    then show ?thesis unfolding found(2) using files_order.sorted_SortFunc by simp
  qed
qed (use assms in \<open>auto simp: getFiles_def\<close>)

lemma Load_Inr:
  assumes "Load E c l S = (Inr u, l', S')"
  obtains d S1 src rels fs where "mkdirTemp E S = (Inr d, S1)"
    "make_relative (fromPath l) = Inr src" "copy_Copy E src d ignoreFile S1 = (Inr (), S')"
    "load_paths (c 0) S1 (l\<lparr>tempDir := d\<rparr>) = Inr (src, rels)" "getFiles (c 1) S' d = Inr fs"
    "l' = \<lparr>fromPath = src, tempDir = d, files = fs, relPaths = rels\<rparr>"
proof -
  obtain d S1 src rels fs where run: "mkdirTemp E S = (Inr d, S1)"
    "copy_Copy E src d ignoreFile S1 = (Inr (), S')"
    "load_paths (c 0) S1 (l\<lparr>tempDir := d\<rparr>) = Inr (src, rels)" "getFiles (c 1) S' d = Inr fs"
    "l' = l\<lparr>tempDir := d, fromPath := src, relPaths := rels, files := fs\<rparr>"
    using assms by (auto simp: Load_def Let_def split: prod.splits sum.splits)
  moreover have "make_relative (fromPath l) = Inr src"
    using run(3) by (auto simp: load_paths_def rbind_Inr_conv rmap_Inr_conv)
  moreover have "l' = \<lparr>fromPath = src, tempDir = d, files = fs, relPaths = rels\<rparr>"
    using run(5) by (cases l) simp
  ultimately show ?thesis using that by blast
qed


text \<open>Whether a file counts as a manifest depends on its name alone.\<close>

lemma filepath_Ext_last:
  assumes "slash \<notin> set n"
  shows "filepath_Ext (y @ slash # n) = filepath_Ext n"
proof -
  let ?plain = "\<lambda>c. c \<noteq> CHR ''.'' \<and> c \<noteq> slash"
  show ?thesis
  proof (cases "CHR ''.'' \<in> set n")
    case True
    then have "\<exists>c\<in>set (rev n). \<not> ?plain c" by auto
    then have "dropWhile ?plain (rev n @ slash # rev y) = dropWhile ?plain (rev n) @ slash # rev y"
      "takeWhile ?plain (rev n @ slash # rev y) = takeWhile ?plain (rev n)"
      "dropWhile ?plain (rev n) \<noteq> []"
      by (auto simp: dropWhile_eq_Nil_conv takeWhile_append1)
    then show ?thesis
      by (cases "dropWhile ?plain (rev n)") (auto simp: filepath_Ext_def Let_def)
  next
    case False
    then have all: "\<And>c. c \<in> set (rev n) \<Longrightarrow> ?plain c" using assms by auto
    have "dropWhile ?plain (rev n @ slash # rev y) = slash # rev y"
      using all by (subst dropWhile_append2) auto
    moreover have "dropWhile ?plain (rev n) = []" unfolding dropWhile_eq_Nil_conv using all by blast
    moreover have "slash \<noteq> CHR ''.''" by (simp add: slash_def)
    ultimately show ?thesis by (simp add: filepath_Ext_def Let_def del: dropWhile_eq_Nil_conv)
  qed
qed

lemma filepath_Ext_under:
  assumes "list_all entry_name (ns @ [n])" and "p \<noteq> []"
  shows "filepath_Ext (under p (ns @ [n])) = filepath_Ext n"
proof -
  have join: "strings_Join (xs @ [n]) [slash] = n \<or> (\<exists>y. strings_Join (xs @ [n]) [slash] = y @ slash # n)" for xs
  proof (induction xs)
    case (Cons x xs)
    then show ?case by (cases xs) (auto simp: strings_Join_Cons)
  qed (simp add: strings_Join_Cons)
  have "under p (ns @ [n]) = n \<or> (\<exists>y. under p (ns @ [n]) = y @ slash # n)"
    using join [of "path_comps p @ ns"] under_path_of [OF assms]
    by (cases "filepath_IsAbs p") (auto simp: path_of_def intro: exI [of _ "[]"] exI [of _ "slash # _"])
  moreover have "slash \<notin> set n" using assms(1) by (simp add: entry_name_def)
  ultimately show ?thesis using filepath_Ext_last by auto
qed

lemma ignoreFile_under:
  assumes "list_all entry_name ns" and "ns \<noteq> []" and "p \<noteq> []" and "q \<noteq> []"
  shows "ignoreFile (under p ns) = ignoreFile (under q ns)"
  using assms filepath_Ext_under [of "butlast ns" "last ns"] by (simp add: ignoreFile_def)

lemma make_relPaths_Inr:
  assumes "make_relPaths src fs = Inr rels"
  shows "gm_ok rels \<and>
    (\<forall>k. gm_get rels k \<noteq> None \<longleftrightarrow> (\<exists>f\<in>set fs. filepath_Rel src (file_path f) = Inr k))"
proof -
  have "gm_ok m \<Longrightarrow> rfold (\<lambda>f m. rmap (\<lambda>rel. gm_put rel (file_path f) m) (filepath_Rel src (file_path f))) fs m
      = Inr rels \<Longrightarrow> gm_ok rels \<and>
    (\<forall>k. gm_get rels k \<noteq> None \<longleftrightarrow>
      gm_get m k \<noteq> None \<or> (\<exists>f\<in>set fs. filepath_Rel src (file_path f) = Inr k))" for m
  proof (induction fs arbitrary: m)
    case (Cons f fs)
    then obtain rel where rel: "filepath_Rel src (file_path f) = Inr rel"
      "rfold (\<lambda>f m. rmap (\<lambda>rel. gm_put rel (file_path f) m) (filepath_Rel src (file_path f))) fs
        (gm_put rel (file_path f) m) = Inr rels"
      by (auto simp: rbind_Inr_conv rmap_Inr_conv)
    with Cons.IH [OF gomap.ok_put [OF Cons.prems(1)] rel(2)] Cons.prems(1)
    show ?case by (auto simp: gomap.get_put)
  qed simp
  from this [OF gomap.ok_empty] assms show ?thesis
    by (simp add: make_relPaths_def gomap.get_empty)
qed

lemma compare_files_le:
  "compare_files a b \<le> 0 \<longleftrightarrow>
     file_time a < file_time b \<or> file_time a = file_time b \<and> file_path a \<le> file_path b"
  by (auto simp: compare_files_def Let_def cmp_Compare_def split: if_splits)


text \<open>The names in a directory lead below it.\<close>

lemma manifest_times_below:
  assumes "wf_node t" and "is_dir t" and "(ns, m) \<in> set (manifest_times p t)"
  shows "ns \<noteq> []" and "list_all entry_name ns"
proof -
  show "list_all entry_name ns" using names_manifest_times assms(1,3) by blast
  show "ns \<noteq> []"
    using assms by (auto simp: manifest_times_def file_times_def nodes_find)
qed

lemma Join_path_of:
  assumes "list_all entry_name ns" and "ns \<noteq> []" and "p \<noteq> []"
  shows "filepath_Join [p, path_of False ns] = under p ns"
proof -
  have down: "down_comps ns" using assms(1) by (rule entry_names_down)
  have "strings_Split slash (path_of False ns) = ns"
    using down assms(2) by (simp add: path_of_def strings_Split_Join down_comps_def)
  then have "''..'' \<notin> set (strings_Split slash (path_of False ns))"
    using down by (simp add: down_comps_def)
  from path_comps_Join [OF assms(3) this]
  have "path_comps (filepath_Join [p, path_of False ns]) = path_comps p @ ns"
    "filepath_IsAbs (filepath_Join [p, path_of False ns]) = filepath_IsAbs p"
    using down by simp_all
  moreover have "filepath_Clean (filepath_Join [p, path_of False ns]) = filepath_Join [p, path_of False ns]"
    using assms(3) by (simp add: filepath_Join_two)
  ultimately show ?thesis
    unfolding under_path_of [OF assms(1,3,2)] filepath_Clean_def by simp
qed

text \<open>
  C19: loading a directory, when it succeeds and the copy holds the manifests of the directory with
  their times: the loader's files are those of the copy, by time and then by path; the relative paths
  are those of the manifests in the directory; and joining the temporary directory with the
  relative paths gives exactly the paths of the files.
\<close>

theorem Load_copies_manifests:
  assumes "Load E c l S = (Inr (), l', S')" and "mkdirTemp E S = (Inr d, S1)"
    and "fromPath l \<noteq> []" and "\<not> filepath_IsAbs (fromPath l)" and "d \<noteq> []"
    and "fs_Stat S1 (fromPath l) = Exists True i" and "fs_Walk S1 (fromPath l) = Inr t"
    and "fs_Stat S' d = Exists True i'" and "fs_Walk S' d = Inr t'"
    and "wf_node t" and "is_dir t" and "wf_node t'" and "is_dir t'"
    and "set (file_times t') = set (manifest_times (fromPath l) t)"
  shows "sorted_wrt (\<lambda>a b. file_time a < file_time b \<or>
        file_time a = file_time b \<and> file_path a \<le> file_path b) (files l') \<and>
    set (files l') = (\<lambda>(ns, m). \<lparr>file_path = under d ns, file_time = m\<rparr>) ` set (manifest_times (fromPath l) t) \<and>
    (\<forall>rel. ContainsRelPath rel l' \<longleftrightarrow> rel \<in> (\<lambda>(ns, m). path_of False ns) ` set (manifest_times (fromPath l) t)) \<and>
    fst (RelPaths ord l') = d \<and>
    set (loader_Paths l') = (\<lambda>rel. filepath_Join [d, rel]) ` set (snd (RelPaths ord l'))"
proof -
  let ?p = "fromPath l" and ?M = "set (manifest_times (fromPath l) t)"
  obtain d' S2 src rels fs where run: "mkdirTemp E S = (Inr d', S2)" "make_relative ?p = Inr src"
      "load_paths (c 0) S2 (l\<lparr>tempDir := d'\<rparr>) = Inr (src, rels)" "getFiles (c 1) S' d' = Inr fs"
      "l' = \<lparr>fromPath = src, tempDir = d', files = fs, relPaths = rels\<rparr>"
    by (rule Load_Inr [OF assms(1)])
  have "d' = d" "S2 = S1" "src = ?p" using run(1,2) assms(2,4) by (simp_all add: make_relative_def)
  with run(3-5) have rels: "load_paths (c 0) S1 (l\<lparr>tempDir := d\<rparr>) = Inr (?p, rels)"
      "getFiles (c 1) S' d = Inr fs" "l' = \<lparr>fromPath = ?p, tempDir = d, files = fs, relPaths = rels\<rparr>"
    by simp_all
  obtain found where found: "getFiles (c 0) S1 ?p = Inr found" "make_relPaths ?p found = Inr rels"
    using rels(1) assms(4) by (auto simp: load_paths_def make_relative_def rbind_Inr_conv rmap_Inr_conv)
  note src = getFiles_dir [OF found(1) assms(6,7,10)]
  note tmp = getFiles_dir [OF rels(2) assms(8,9,12)]
  have below: "ns \<noteq> [] \<and> list_all entry_name ns" if "(ns, m) \<in> ?M" for ns m
    using manifest_times_below [OF assms(10,11) that] by simp
  have "ignoreFile (under d ns) = ignoreFile (under ?p ns)" if "(ns, m) \<in> ?M" for ns m
    using ignoreFile_under below [OF that] assms(3,5) by blast
  then have copied: "set (manifest_times d t') = ?M"
    using assms(14) unfolding manifest_times_def set_filter by (auto simp: manifest_times_def)
  have keys: "gm_get rels k \<noteq> None \<longleftrightarrow> k \<in> (\<lambda>(ns, m). path_of False ns) ` ?M" for k
  proof -
    have rel: "filepath_Rel ?p (under ?p ns) = Inr (path_of False ns)" if "(ns, m) \<in> ?M" for ns m
      using Rel_below below [OF that] assms(3) by blast
    have "gm_get rels k \<noteq> None \<longleftrightarrow> (\<exists>(ns, m)\<in>?M. filepath_Rel ?p (under ?p ns) = Inr k)"
      using make_relPaths_Inr [OF found(2)] unfolding src(4) by (auto simp: case_prod_unfold)
    also have "\<dots> \<longleftrightarrow> (\<exists>(ns, m)\<in>?M. path_of False ns = k)" using rel by fastforce
    finally show ?thesis by (auto simp: case_prod_unfold)
  qed
  have ok: "gm_ok rels" using make_relPaths_Inr [OF found(2)] by simp
  have relset: "set (snd (RelPaths ord l')) = (\<lambda>(ns, m). path_of False ns) ` ?M"
    using gomap.range_keys [OF ok, of ord] keys by (auto simp: RelPaths_def rels(3))
  have join: "filepath_Join [d, path_of False ns] = under d ns" if "(ns, m) \<in> ?M" for ns m
    using Join_path_of below [OF that] assms(5) by blast
  have paths: "set (loader_Paths l') = (\<lambda>(ns, m). under d ns) ` ?M"
    using tmp(4) copied by (auto simp: loader_Paths_def rels(3) image_image case_prod_unfold)
  show ?thesis
  proof (intro conjI)
    show "set (loader_Paths l') = (\<lambda>rel. filepath_Join [d, rel]) ` set (snd (RelPaths ord l'))"
      unfolding paths relset using join by (force simp: image_iff)
  qed (use tmp(3,4) copied keys in \<open>auto simp: rels(3) RelPaths_def ContainsRelPath_def compare_files_le\<close>)
qed


definition load_info :: "int \<Rightarrow> file_info" where
  "load_info m = \<lparr>Size = 0, Mode = 420, Uid = 0, Gid = 0, Uname = [], Gname = [],
     ModTime = m, AccessTime = m, ChangeTime = m\<rparr>"

definition sample_dir :: file_node where
  "sample_dir = Directory (load_info 1) None
     [(''b.yaml'', File (load_info 5) (Inr [])), (''a.json'', File (load_info 9) (Inr [])),
      (''README'', File (load_info 0) (Inr [])),
      (''sub'', Directory (load_info 1) None [(''c.yml'', File (load_info 2) (Inr []))])]"

definition sample_copy :: file_node where
  "sample_copy = Directory (load_info 1) None
     [(''a.json'', File (load_info 9) (Inr [])), (''b.yaml'', File (load_info 5) (Inr [])),
      (''sub'', Directory (load_info 1) None [(''c.yml'', File (load_info 2) (Inr []))])]"

definition sample_fs :: file_system where
  "sample_fs = \<lparr>fs_Stat = (\<lambda>_. Exists True (load_info 1)), fs_Walk = (\<lambda>_. Inr sample_dir)\<rparr>"

definition sample_loader_env :: loader_env where
  "sample_loader_env =
     \<lparr>loader_MkdirTemp = (\<lambda>S. Inr (''/tmp/x'', S)), EvalSymlinks = (\<lambda>S p. Inr p),
      copy_Copy = (\<lambda>src dst skip S. (Inr (), S\<lparr>fs_Walk := (\<lambda>p. if p = dst then Inr sample_copy else fs_Walk S p)\<rparr>)),
      RemoveAll = (\<lambda>p S. (Inr (), S))\<rparr>"

abbreviation sample_load where
  "sample_load \<equiv> Load sample_loader_env (\<lambda>_. in_order) (NewRecursiveManifestDirectoryLoader ''k8s'') sample_fs"

lemma sample_load_ok: "fst sample_load = Inr ()"
  by code_simp

theorem Load_copies_manifests_witness:
  "set (loader_Paths (fst (snd sample_load))) = {''/tmp/x/a.json'', ''/tmp/x/b.yaml'', ''/tmp/x/sub/c.yml''}"
proof -
  let ?M = "set (manifest_times ''k8s'' sample_dir)"
  have run: "sample_load = (Inr (), fst (snd sample_load), snd (snd sample_load))"
    using sample_load_ok by (simp add: prod_eq_iff)
  have temp: "mkdirTemp sample_loader_env sample_fs = (Inr ''/tmp/x'', sample_fs)"
    by (simp add: mkdirTemp_def sample_loader_env_def)
  have there: "fs_Stat sample_fs ''k8s'' = Exists True (load_info 1)" "fs_Walk sample_fs ''k8s'' = Inr sample_dir"
    by (simp_all add: sample_fs_def)
  have copied: "fs_Stat (snd (snd sample_load)) ''/tmp/x'' = Exists True (load_info 1)"
    "fs_Walk (snd (snd sample_load)) ''/tmp/x'' = Inr sample_copy"
    by code_simp+
  have trees: "wf_node sample_dir" "is_dir sample_dir" "wf_node sample_copy" "is_dir sample_copy"
    by code_simp+
  have times: "set (file_times sample_copy) = ?M" by code_simp
  have root: "fromPath (NewRecursiveManifestDirectoryLoader ''k8s'') = ''k8s''"
    by (simp add: NewRecursiveManifestDirectoryLoader_def)
  have "set (files (fst (snd sample_load))) = (\<lambda>(ns, m). \<lparr>file_path = under ''/tmp/x'' ns, file_time = m\<rparr>) ` ?M"
    using Load_copies_manifests [OF run temp, of "load_info 1" sample_dir "load_info 1" sample_copy in_order]
      there copied trees times by (simp add: root filepath_IsAbs_def slash_def)
  moreover have "(\<lambda>(ns, m). under ''/tmp/x'' ns) ` ?M = {''/tmp/x/a.json'', ''/tmp/x/b.yaml'', ''/tmp/x/sub/c.yml''}"
    by code_simp
  ultimately show ?thesis by (simp add: loader_Paths_def image_image case_prod_unfold)
qed

text \<open>
  C33: after a successful load \<open>MostRecentlyModified\<close> answers with the file that was modified first:
  no file of the loader has an earlier time.
\<close>

theorem MostRecentlyModified_is_oldest:
  assumes "Load E c l S = (Inr (), l', S')"
  shows "\<exists>f. MostRecentlyModified l' = Inr (file_path f, file_time f) \<and> f \<in> set (files l') \<and>
    list_all (\<lambda>g. file_time f \<le> file_time g) (files l')"
proof -
  obtain d S1 src rels fs where run: "getFiles (c 1) S' d = Inr fs"
      "l' = \<lparr>fromPath = src, tempDir = d, files = fs, relPaths = rels\<rparr>"
    by (rule Load_Inr [OF assms])
  obtain f rest where fs: "fs = f # rest" "sorted_wrt (\<lambda>a b. compare_files a b \<le> 0) (f # rest)"
    using getFiles_nonempty [OF run(1)] by (cases fs) auto
  then have "list_all (\<lambda>g. file_time f \<le> file_time g) fs"
    by (auto simp: list_all_iff compare_files_le)
  then show ?thesis using fs(1) by (auto simp: MostRecentlyModified_def run(2))
qed

theorem MostRecentlyModified_is_oldest_witness:
  "MostRecentlyModified (fst (snd sample_load)) = Inr (''/tmp/x/sub/c.yml'', 2) \<and>
     list_all (\<lambda>g. 2 \<le> file_time g) (files (fst (snd sample_load)))"
proof -
  have run: "sample_load = (Inr (), fst (snd sample_load), snd (snd sample_load))"
    using sample_load_ok by (simp add: prod_eq_iff)
  have "MostRecentlyModified (fst (snd sample_load)) = Inr (''/tmp/x/sub/c.yml'', 2)" by code_simp
  with MostRecentlyModified_is_oldest [OF run] show ?thesis by auto
qed

text \<open>
  A loader for an absolute path never loads: making the path relative to the empty path fails,
  after the temporary directory has been made.
\<close>

theorem Load_absolute_fails:
  "fst (Load E c (NewRecursiveManifestDirectoryLoader (slash # p)) S) =
     (case fst (mkdirTemp E S) of
        Inl e \<Rightarrow> Inl e
      | Inr d \<Rightarrow> Inl (Fail (CannotMakeRelative (slash # p) [])))"
proof -
  have "filepath_IsAbs (filepath_Clean (slash # p))" "filepath_Clean [] = ''.''"
    by (simp_all add: filepath_IsAbs_def filepath_Clean_def path_comps_def clean_comps_def path_step_def path_of_def)
  moreover have "\<not> filepath_IsAbs []" "\<not> filepath_IsAbs ''.''"
    by (simp_all add: filepath_IsAbs_def slash_def)
  moreover from calculation have "filepath_Clean (slash # p) \<noteq> ''.''" by metis
  ultimately have "filepath_Rel [] (slash # p) = Inl (Fail (CannotMakeRelative (slash # p) []))"
    by (simp add: filepath_Rel_def Let_def)
  moreover have "filepath_IsAbs (slash # p)" by (simp add: filepath_IsAbs_def)
  ultimately have "make_relative (slash # p) = Inl (Fail (CannotMakeRelative (slash # p) []))"
    by (simp add: make_relative_def)
  then show ?thesis
    by (auto simp: Load_def load_paths_def NewRecursiveManifestDirectoryLoader_def Let_def
        split: prod.splits sum.splits)
qed

end
