(* ===== verification/Tape_Command.thy ===== *)
theory Tape_Command
  imports Go_Strings
begin

section \<open>What all commands share\<close>

text \<open>
  The options that every command has (\<open>tape/app/app.go\<close>) and the level of the logger
  (\<open>logger/logger.go\<close>, with \<open>ParseLevel\<close> of the vendored logrus).  Nothing else of logging is
  modelled: what is logged has no influence on what the commands do.
\<close>

datatype logrus_Level =
    PanicLevel | FatalLevel | ErrorLevel | WarnLevel | InfoLevel | DebugLevel | TraceLevel

definition ParseLevel :: "string \<Rightarrow> logrus_Level res" where
  "ParseLevel lvl =
     (let l = strings_ToLower lvl
      in if l = ''panic'' then Inr PanicLevel
      else if l = ''fatal'' then Inr FatalLevel
      else if l = ''error'' then Inr ErrorLevel
      else if l = ''warn'' \<or> l = ''warning'' then Inr WarnLevel
      else if l = ''info'' then Inr InfoLevel
      else if l = ''debug'' then Inr DebugLevel
      else if l = ''trace'' then Inr TraceLevel
      else Inl (Fail (InvalidLogLevel lvl)))"

text \<open>A logger is its level; \<open>logger.New\<close> makes one with logrus's default level.\<close>

definition logger_New :: logrus_Level where
  "logger_New = InfoLevel"

definition logger_SetLevel :: "string \<Rightarrow> logrus_Level \<Rightarrow> unit res \<times> logrus_Level" where
  "logger_SetLevel level l =
     (case wrap ''failed to parse log-level'' (ParseLevel level) of
        Inl e \<Rightarrow> (Inl e, l)
      | Inr logrusLevel \<Rightarrow> (Inr (), logrusLevel))"

text \<open>A nil logger is \<open>None\<close>.\<close>

record TapeCommand =
  LogLevel :: string
  tape_log :: "logrus_Level option"

definition Init :: "'a TapeCommand_scheme \<Rightarrow> unit res \<times> 'a TapeCommand_scheme" where
  "Init c =
     (let l = (case tape_log c of None \<Rightarrow> logger_New | Some l \<Rightarrow> l)
      in case logger_SetLevel (LogLevel c) l of (r, l') \<Rightarrow> (r, c\<lparr>tape_log := Some l'\<rparr>))"

definition OutputFormatDetailedText :: string where
  "OutputFormatDetailedText = ''detailed-text''"

definition OutputFormatText :: string where
  "OutputFormatText = ''text''"

definition OutputFormatDirectJSON :: string where
  "OutputFormatDirectJSON = ''direct-json''"

lemma output_formats_differ [simp]:
  "OutputFormatDirectJSON \<noteq> OutputFormatText" "OutputFormatText \<noteq> OutputFormatDirectJSON"
  "OutputFormatDirectJSON \<noteq> OutputFormatDetailedText" "OutputFormatDetailedText \<noteq> OutputFormatDirectJSON"
  "OutputFormatText \<noteq> OutputFormatDetailedText" "OutputFormatDetailedText \<noteq> OutputFormatText"
  by (simp_all add: OutputFormatDetailedText_def OutputFormatText_def OutputFormatDirectJSON_def)

lemma Init_Inr: "fst (Init c) = Inr () \<longleftrightarrow> (\<exists>l. ParseLevel (LogLevel c) = Inr l)"
  by (auto simp: Init_def logger_SetLevel_def Let_def split: sum.splits prod.splits)

end
