(* ===== verification/Tape_Package.thy ===== *)
theory Tape_Package
  imports Tape_Command Image_Updater Manifest_Loader Image_Copier
begin

section \<open>The package command\<close>

text \<open>
  \<open>tape/app/package.go\<close>: the command that loads a directory of manifests, pins and copies the images
  they refer to, writes the new references into the copy of the manifests, and pushes that copy with
  statements about all of it.  It is the composition of the components; what is outside them is a
  field of \<open>package_env\<close>.  Logging is left out, and with it the attestations that are encoded for a
  debug message.
\<close>

record TapePackageCommand = TapeCommand +
  ManifestDir :: string
  OutputImage :: string

text \<open>
  After the loader, only the contents of the files it made matter (\<open>files_of\<close>); the packager sees a
  directory that holds them (\<open>artefact_of\<close>).
\<close>

record ('w, 'r, 'c, 's) package_env =
  loader_of :: loader_env
  files_of :: "file_system \<Rightarrow> files"
  registry_of :: "('w, 'r) remote"
  scan_kio :: kio
  package_Sum :: "string \<Rightarrow> string"
  update_of :: update_env
  summary_of :: "'s PathCheckSummary"
  checker_of :: "('c, 's) PathChecker"
  provider_of :: "string \<Rightarrow> SHA256 \<Rightarrow> 'c"
  MarshalSummary :: "'s \<Rightarrow> unit res"
  EncodePredicate :: "'s predicate dynamic \<Rightarrow> string option"
  artefact_of :: "files \<Rightarrow> 's predicate artefact_env"

subsection \<open>The output image\<close>

definition ValidateFlags :: "TapePackageCommand \<Rightarrow> unit res" where
  "ValidateFlags cmd =
     (case kimage_Split (OutputImage cmd) of (name, tag, digest) \<Rightarrow>
        if tag \<noteq> [] then Inl (Fail (InvalidOutputImage ''tag shouldn't be specified'' (OutputImage cmd)))
        else if digest \<noteq> [] then
          Inl (Fail (InvalidOutputImage ''digest shouldn't be specified'' (OutputImage cmd)))
        else if name = [] then Inl (Fail (InvalidOutputImage ''name must not be empty'' name))
        else if strings_ToLower name \<noteq> name then
          Inl (Fail (InvalidOutputImage ''must not contain upper case characters'' name))
        else Inr ())"

subsection \<open>Steps\<close>

text \<open>
  The registry of path checkers.  Outside a repository \<open>DetectVCS\<close> returns a nil registry, and asking
  it for the summary panics.
\<close>

definition detect_registry ::
    "('w, 'r, 'c, 's) package_env \<Rightarrow> string \<Rightarrow> ('c, 's) PathCheckerRegistry res" where
  "detect_registry E d =
     rbind (DetectVCS (summary_of E) (checker_of E) (provider_of E) d) (\<lambda>attreg.
       case attreg of
         None \<Rightarrow> Inl (Panic NilDereference)
       | Some r \<Rightarrow>
           (case BaseDirSummary r of
              None \<Rightarrow> Inr r
            | Some s \<Rightarrow> rbind (MarshalSummary E s) (\<lambda>_. Inr r)))"

definition associate ::
    "'s predicate Statements \<Rightarrow> ('c, 's) PathCheckerRegistry \<Rightarrow> ('c, 's) PathCheckerRegistry res" where
  "associate ss r = (case AssociateStatements ss r of (res, _, r') \<Rightarrow> rmap (\<lambda>_. r') res)"

definition associate_core_statements ::
    "('w, 'r, 'c, 's) package_env \<Rightarrow> choices \<Rightarrow> ('c, 's) PathCheckerRegistry
      \<Rightarrow> ('c, 's) PathCheckerRegistry res" where
  "associate_core_statements E c r =
     (case AssociateCoreStatements (summary_of E) (checker_of E) c r of (res, r') \<Rightarrow> rmap (\<lambda>_. r') res)"

definition scan_env_of :: "('w, 'r, 'c, 's) package_env \<Rightarrow> files \<Rightarrow> scan_env" where
  "scan_env_of E fs =
     \<lparr>os_Open = (\<lambda>p. case fs p of None \<Rightarrow> Inl (Fail (External p)) | Some s \<Rightarrow> Inr (Inr s, Inr ())),
      kustomize = scan_kio E, scan_Sum = package_Sum E\<rparr>"

definition scan_images ::
    "('w, 'r, 'c, 's) package_env \<Rightarrow> string \<Rightarrow> order \<Rightarrow> ManifestLoader \<Rightarrow> files
      \<Rightarrow> ('c, 's) DefaultImageScanner \<Rightarrow> ('c, 's) DefaultImageScanner res" where
  "scan_images E msg ord l fs sc =
     (case RelPaths ord l of (d, manifests) \<Rightarrow>
        (case Scan (scan_env_of E fs) d manifests sc of (res, sc') \<Rightarrow> wrap msg (rmap (\<lambda>_. sc') res)))"

record ('c, 's) package_state =
  package_loader :: ManifestLoader
  package_files :: files
  package_images :: ImageList
  package_scanner :: "('c, 's) DefaultImageScanner"
  package_registry :: "('c, 's) PathCheckerRegistry"

text \<open>
  From the arguments to the images of the manifests and the statements about where they were found.
  \<open>runs\<close> gives every step its choices.
\<close>

definition package_load ::
    "('w, 'r, 'c, 's) package_env \<Rightarrow> (nat \<Rightarrow> choices) \<Rightarrow> TapePackageCommand \<Rightarrow> string list
      \<Rightarrow> file_system \<Rightarrow> ('c, 's) package_state res" where
  "package_load E runs cmd args S =
     (if args \<noteq> [] then Inl (Fail UnexpectedArguments)
      else
        rbind (fst (Init cmd)) (\<lambda>_.
        rbind (ValidateFlags cmd) (\<lambda>_.
        case Load (loader_of E) (runs 0) (NewRecursiveManifestDirectoryLoader (ManifestDir cmd)) S of
          (Inl e, _) \<Rightarrow> wrap ''failed to load manifests'' (Inl e)
        | (Inr _, l, S') \<Rightarrow>
            rbind (detect_registry E (ManifestDir cmd)) (\<lambda>attreg.
            rbind (scan_images E ''failed to scan images'' (runs 1 0) l (files_of E S')
                     (WithProvinanceAttestor (Some attreg) NewDefaultImageScanner)) (\<lambda>scanner.
            let images = GetImages scanner
            in rbind (associate_core_statements E (runs 2) (the (attestor scanner))) (\<lambda>attreg.
               rbind (associate (MakeOriginalImageRefStatements images) attreg) (\<lambda>attreg.
               Inr \<lparr>package_loader = l, package_files = files_of E S', package_images = images,
                     package_scanner = scanner, package_registry = attreg\<rparr>)))))))"

text \<open>What is asked of the registry before anything is written to it.\<close>

definition package_resolve ::
    "('w, 'r, 'c, 's) package_env \<Rightarrow> (nat \<Rightarrow> choices) \<Rightarrow> 'w \<Rightarrow> ('c, 's) package_state
      \<Rightarrow> (('c, 's) package_state \<times> ImageList \<times> ImageList) res" where
  "package_resolve E runs w st =
     (case ResolveDigests (registry_of E) (package_images st) w of (res, images) \<Rightarrow>
        rbind (wrap ''failed to resolve digests'' res) (\<lambda>_.
        rbind (wrap ''failed to dedup images'' (Dedup (runs 3) images)) (\<lambda>images.
        rbind (associate (MakeResovedImageRefStatements images) (package_registry st)) (\<lambda>attreg.
        rbind (wrap ''failed to find related tags'' (FindRelatedTags (registry_of E) (runs 4) images w))
          (\<lambda>related.
        rbind (wrap ''failed to find images related to manifests''
                 (FindRelatedFromIndecies (registry_of E) (runs 5) images None w ())) (\<lambda>(_, relatedToManifests, _).
        Inr (st\<lparr>package_images := images, package_registry := attreg\<rparr>, related, relatedToManifests)))))))"

text \<open>A call whose error is ignored, on a value that the error leaves as it was.\<close>

definition ignore_error :: "'a res \<Rightarrow> 'a \<Rightarrow> 'a res" where
  "ignore_error r x = (case r of Inl (Fail _) \<Rightarrow> Inr x | _ \<Rightarrow> r)"

text \<open>
  After the images were copied: the manifests are updated and scanned again, this time without
  registering them.  An error of the second \<open>Dedup\<close> is ignored.
\<close>

definition package_update ::
    "('w, 'r, 'c, 's) package_env \<Rightarrow> (nat \<Rightarrow> choices) \<Rightarrow> ('c, 's) package_state
      \<Rightarrow> ('c, 's) package_state res" where
  "package_update E runs st =
     (case Update (update_of E) (runs 6 0) (package_images st) (NewFileUpdater (package_files st)) of
        (Inl e, _) \<Rightarrow> wrap ''failed to update manifest files'' (Inl e)
      | (Inr _, u) \<Rightarrow>
          let attreg = RegisterMutated (runs 7 0) (Updater_Mutations u) (package_registry st)
          in rbind (scan_images E ''failed to scan updated manifest files'' (runs 8 0) (package_loader st) (disk u)
                      (Scanner_Reset (package_scanner st))) (\<lambda>scanner.
             let images = GetImages scanner
             in rbind (ignore_error (Dedup (runs 9) images) images) (\<lambda>replacedImages.
                rbind (associate (MakeReplacedImageRefStatements replacedImages) attreg) (\<lambda>attreg.
                Inr (st\<lparr>package_files := disk u, package_scanner := scanner, package_registry := attreg\<rparr>)))))"

definition make_packager ::
    "('w, 'r, 'c, 's) package_env \<Rightarrow> (nat \<Rightarrow> choices) \<Rightarrow> string \<Rightarrow> ('c, 's) package_state
      \<Rightarrow> 's predicate DefaultPackager res" where
  "make_packager E runs out st =
     rbind (MostRecentlyModified (package_loader st)) (\<lambda>(_, sourceEpochTimestamp).
     rbind (GetStatements (summary_of E) (EncodePredicate E) (runs 10 0) (package_registry st)) (\<lambda>(ss, _).
     Inr (NewDefaultPackager out (Some sourceEpochTimestamp) ss)))"

text \<open>
  The command: the reference of the package, and the state of the registry when the command ends.
\<close>

definition package_Execute ::
    "('w, 'r, 'c, 's) package_env \<Rightarrow> (nat \<Rightarrow> choices) \<Rightarrow> TapePackageCommand \<Rightarrow> string list
      \<Rightarrow> file_system \<Rightarrow> 'w \<Rightarrow> string res \<times> 'w" where
  "package_Execute E runs cmd args S w =
     (case rbind (package_load E runs cmd args S) (package_resolve E runs w) of
        Inl e \<Rightarrow> (Inl e, w)
      | Inr (st, related, relatedToManifests) \<Rightarrow>
          (case CopyImages (registry_of E) (NewRegistryCopier (package_Sum E) (OutputImage cmd))
                  [package_images st, related, relatedToManifests] w of
             (Inl e, _, w') \<Rightarrow> (wrap ''failed to copy images'' (Inl e), w')
           | (Inr _, ls, w') \<Rightarrow>
               let st = st\<lparr>package_images := hd ls\<rparr>
               in case rbind (package_update E runs st) (\<lambda>st.
                         rmap (Pair st) (make_packager E runs (OutputImage cmd) st)) of
                    Inl e \<Rightarrow> (Inl e, w')
                  | Inr (st, packager) \<Rightarrow>
                      (case packager_Push (registry_of E) (artefact_of E (package_files st)) (runs 11) packager
                              (dir (package_images st)) w' of
                         (res, w'') \<Rightarrow> (wrap ''failed to create package'' res, w''))))"


subsection \<open>How a run goes through the components\<close>

lemma associate_Inr:
  "associate ss r = Inr r' \<longleftrightarrow> (\<exists>ss'. AssociateStatements ss r = (Inr (), ss', r'))"
  by (auto simp: associate_def rmap_Inr_conv split: prod.splits)

lemma package_Execute_Inr:
  assumes "package_Execute E runs cmd args S w = (Inr ref, w')"
  obtains st0 st related rm refs images rest w1 st' p where
    "package_load E runs cmd args S = Inr st0"
    "package_resolve E runs w st0 = Inr (st, related, rm)"
    "CopyImages (registry_of E) (NewRegistryCopier (package_Sum E) (OutputImage cmd))
       [package_images st, related, rm] w = (Inr refs, images # rest, w1)"
    "package_update E runs (st\<lparr>package_images := images\<rparr>) = Inr st'"
    "make_packager E runs (OutputImage cmd) st' = Inr p"
    "packager_Push (registry_of E) (artefact_of E (package_files st')) (runs 11) p
       (dir (package_images st')) w1 = (Inr ref, w')"
proof -
  obtain st related rm where prep: "rbind (package_load E runs cmd args S) (package_resolve E runs w) = Inr (st, related, rm)"
    using assms by (auto simp: package_Execute_def split: sum.splits prod.splits)
  then obtain st0 where st0: "package_load E runs cmd args S = Inr st0"
      "package_resolve E runs w st0 = Inr (st, related, rm)"
    by (auto simp: rbind_Inr_conv)
  obtain refs ls w1 where copied: "CopyImages (registry_of E) (NewRegistryCopier (package_Sum E) (OutputImage cmd))
       [package_images st, related, rm] w = (Inr refs, ls, w1)"
    using assms by (auto simp: package_Execute_def prep split: sum.splits prod.splits)
  then have "ls = map (relocated (NewRegistryCopier (package_Sum E) (OutputImage cmd))) [package_images st, related, rm]"
    by (simp only: CopyImages_def) (rule copy_lists_Inr(1))
  then obtain images rest where ls: "ls = images # rest" by simp
  obtain st' p where after: "package_update E runs (st\<lparr>package_images := images\<rparr>) = Inr st'"
      "make_packager E runs (OutputImage cmd) st' = Inr p"
      "packager_Push (registry_of E) (artefact_of E (package_files st')) (runs 11) p
         (dir (package_images st')) w1 = (Inr ref, w')"
    using assms by (auto simp: package_Execute_def prep copied ls Let_def rbind_Inr_conv rmap_Inr_conv
        split: sum.splits prod.splits)
  show ?thesis using that st0 copied after unfolding ls by blast
qed

subsection \<open>What is stated about\<close>

text \<open>A registry of which every statement is about a known manifest, before mutations are known.\<close>

definition fresh :: "('c, 's) PathCheckerRegistry \<Rightarrow> bool" where
  "fresh r \<longleftrightarrow> statements_known r \<and> mutatedPaths r = None"

lemma detect_registry_fresh:
  assumes "detect_registry E d = Inr r"
  shows "fresh r"
proof -
  have "DetectVCS (summary_of E) (checker_of E) (provider_of E) d = Inr (Some r)"
    using assms by (auto simp: detect_registry_def rbind_Inr_conv split: option.splits)
  then obtain ch where "registry_init (summary_of E) (checker_of E) ch (NewPathCheckerRegistry d (provider_of E)) = Inr r"
    by (auto simp: DetectVCS_def rbind_Inr_conv rmap_Inr_conv split: prod.splits if_splits)
  then show ?thesis
    by (auto simp: registry_init_def NewPathCheckerRegistry_def fresh_def statements_known_def rmap_Inr_conv
        split: prod.splits)
qed

lemma associate_fresh:
  assumes "associate ss r = Inr r'"
  shows "statements_known r \<Longrightarrow> statements_known r'" and "mutatedPaths r' = mutatedPaths r"
proof -
  obtain ss' where run: "AssociateStatements ss r = (Inr (), ss', r')"
    using assms by (auto simp: associate_Inr)
  show "statements_known r \<Longrightarrow> statements_known r'"
    by (rule statements_known_step [OF step_Associate [OF run]])
  show "mutatedPaths r' = mutatedPaths r"
    using run by (auto simp: AssociateStatements_def split: prod.splits sum.splits)
qed

lemma associate_core_fresh:
  assumes "associate_core_statements E c r = Inr r'" and "fresh r"
  shows "fresh r'"
proof -
  have run: "AssociateCoreStatements (summary_of E) (checker_of E) c r = (Inr (), r')"
    using assms(1) by (auto simp: associate_core_statements_def rmap_Inr_conv split: prod.splits)
  obtain q r1 where q: "MakePathCheckSummarySummaryCollection (summary_of E) (checker_of E) (\<lambda>n. c (Suc n)) r = (q, r1)"
    by fastforce
  have "mutatedPaths r' = mutatedPaths r1"
    using run by (auto simp: AssociateCoreStatements_def q associate_core_def rbind_Inr_conv wrap_Inr_conv
        split: sum.splits option.splits)
  then have "mutatedPaths r' = mutatedPaths r" using collection_registry(2) [OF q] by simp
  then show ?thesis using statements_known_step [OF step_AssociateCore [OF run]] assms(2)
    by (simp add: fresh_def)
qed

lemma register_all_fresh:
  assumes "register_all pds r = Inr r'" and "fresh r"
  shows "fresh r'"
proof -
  have r': "r' = r\<lparr>registry := registry r @
      map (\<lambda>(p, d). ((pathFromRepoRoot r p, d), newPathChecker r (pathFromWorkDir r p) d)) pds\<rparr>"
    using assms(1) by (simp add: register_all_Inr)
  have "relevant r k \<Longrightarrow> relevant r' k" for k
    by (auto simp: r' relevant_def gm_get_None_iff)
  then have "statements_known r'"
    using assms(2) by (intro statements_known_mono [of r r' "{}"]) (auto simp: fresh_def r')
  then show ?thesis using assms(2) by (simp add: fresh_def r')
qed

lemma scan_images_attestor:
  assumes "scan_images E msg ord l fs sc = Inr sc'"
  shows "case attestor sc of None \<Rightarrow> attestor sc' = None
    | Some a \<Rightarrow> \<exists>pds a'. attestor sc' = Some a' \<and> register_all pds a = Inr a'"
proof -
  obtain d ms where "Scan (scan_env_of E fs) d ms sc = (Inr (), sc')"
    using assms by (auto simp: scan_images_def rmap_Inr_conv split: prod.splits)
  from scan_manifests_Inr [OF this [unfolded Scan_def]] obtain pds where
    "case attestor sc of None \<Rightarrow> attestor sc' = None
     | Some a \<Rightarrow> \<exists>a'. attestor sc' = Some a' \<and> register_all pds a = Inr a'"
    by (elim exE conjE) (rule that, simp)
  then show ?thesis by (cases "attestor sc") auto
qed

lemma package_load_fresh:
  assumes "package_load E runs cmd args S = Inr st"
  shows "fresh (package_registry st)"
proof -
  obtain l S' a scanner r1 where
    steps: "detect_registry E (ManifestDir cmd) = Inr a"
    "scan_images E ''failed to scan images'' (runs 1 0) l (files_of E S')
       (WithProvinanceAttestor (Some a) NewDefaultImageScanner) = Inr scanner"
    "associate_core_statements E (runs 2) (the (attestor scanner)) = Inr r1"
    "associate (MakeOriginalImageRefStatements (GetImages scanner)) r1 = Inr (package_registry st)"
    using assms by (auto simp: package_load_def Let_def rbind_Inr_conv split: if_splits prod.splits sum.splits)
  have "fresh (the (attestor scanner))"
    using scan_images_attestor [OF steps(2)] detect_registry_fresh [OF steps(1)] register_all_fresh
    by (auto simp: WithProvinanceAttestor_def NewDefaultImageScanner_def)
  then have "fresh r1" by (rule associate_core_fresh [OF steps(3)])
  then show ?thesis using associate_fresh [OF steps(4)] by (simp add: fresh_def)
qed

lemma package_resolve_fresh:
  assumes "package_resolve E runs w st = Inr (st', related, rm)" and "fresh (package_registry st)"
  shows "fresh (package_registry st')"
proof -
  obtain images where "associate (MakeResovedImageRefStatements images) (package_registry st) = Inr (package_registry st')"
    using assms(1) by (auto simp: package_resolve_def rbind_Inr_conv split: prod.splits)
  from associate_fresh [OF this] assms(2) show ?thesis by (simp add: fresh_def)
qed

lemma package_update_known:
  assumes "package_update E runs st = Inr st'" and "fresh (package_registry st)"
  shows "statements_known (package_registry st')"
proof -
  obtain m images where "associate (MakeReplacedImageRefStatements images)
      (RegisterMutated (runs 7 0) m (package_registry st)) = Inr (package_registry st')"
    using assms(1)
    by (auto simp: package_update_def Let_def rbind_Inr_conv split: prod.splits sum.splits)
  moreover have "statements_known (RegisterMutated (runs 7 0) m (package_registry st))"
    using assms(2) by (intro statements_known_step [OF step_RegisterMutated]) (simp_all add: fresh_def)
  ultimately show ?thesis using associate_fresh(1) by blast
qed

subsection \<open>A directory with one manifest\<close>

text \<open>
  An instance of everything outside: a repository that holds \<^verbatim>\<open>k8s/web.yaml\<close> with one reference, and a
  registry that holds the image under this reference.  It shows that the hypotheses below can hold.
\<close>

type_synonym sample_summary = "string \<times> SHA256"

definition web_pod :: "string \<Rightarrow> ynode" where
  "web_pod ref =
     Map [(''kind'', Scalar ''Pod'' 1 7),
          (''spec'', Map [(''containers'', Seq [Map [(''image'', Scalar ref 7 12)]])])]"

definition web_ref :: string where
  "web_ref = ''r.io/app:app.612e696f2f7765623a31@sha256:aa''"

definition web_kio :: kio where
  "web_kio = \<lparr>ByteReader = (\<lambda>s. Inr [web_pod (if s = ''old'' then ''a.io/web:1'' else web_ref)]),
     Preprocess = Inr, Reconcile = (\<lambda>_ ns. Inr ns)\<rparr>"

definition web_dir :: "string \<Rightarrow> file_node" where
  "web_dir content =
     Directory (load_info 1) None [(''web.yaml'', File ((load_info 5)\<lparr>Size := 3\<rparr>) (Inr content))]"

definition web_fs :: file_system where
  "web_fs = \<lparr>fs_Stat = (\<lambda>_. Exists True (load_info 1)), fs_Walk = (\<lambda>_. Inr (web_dir ''old''))\<rparr>"

definition web_loader :: loader_env where
  "web_loader = \<lparr>loader_MkdirTemp = (\<lambda>S. Inr (''/t'', S)), EvalSymlinks = (\<lambda>S p. Inr p),
     copy_Copy = (\<lambda>src dst skip S. (Inr (), S)), RemoveAll = (\<lambda>p S. (Inr (), S))\<rparr>"

definition web_update :: update_env where
  "web_update = \<lparr>update_kio = web_kio, LocalPackageWriter = (\<lambda>_. Inr ''new''), ByteWriter = (\<lambda>_. Inr ''new''),
     os_WriteFile = (\<lambda>_ _. Inr ()), update_Sum = (\<lambda>s. s)\<rparr>"

definition web_index :: v1_ImageIndex where
  "web_index = \<lparr>get_IndexManifest = Inr \<lparr>Manifests = [\<lparr>MediaType = [], DescriptorSize = 1, DescriptorDigest = ''sha256:bb'',
       ArtifactType = [], DescriptorPlatform = None, DescriptorAnnotations = []\<rparr>], IndexAnnotations = []\<rparr>,
     IndexDigest = Inr ''sha256:aa'', IndexImage = (\<lambda>_. Inl (Fail (External [])))\<rparr>"

definition web_registry :: memory where
  "web_registry = \<lparr>Tags = [(''a.io/web:1'', StoredIndex web_index)],
     Blobs = [(''sha256:aa'', StoredIndex web_index)]\<rparr>"

definition web_artefact :: "sample_summary predicate artefact_env" where
  "web_artefact = \<lparr>Abs = Inr, Stat = (\<lambda>_. Exists True (load_info 1)), Lstat = (\<lambda>_. Inr (web_dir ''new'')),
     MkdirTemp = Inr (), OpenFile = Inr (), tar_WriteHeader = (\<lambda>_. Inr ()), targz = (\<lambda>ms. ''x''),
     gzip = (\<lambda>s. s), sha256_Sum = (\<lambda>s. s), EncodeStatement = (\<lambda>s out. Inr out),
     EncodeAnnotation = (\<lambda>_. Inr ''summary''), tarball_check = (\<lambda>_. Inr ()), time_Now = 0,
     RFC3339 = (\<lambda>_. ''now''), image_hash = ConfigMediaType,
     image_size = (\<lambda>_. 1), index_hash = (\<lambda>_. Inr ''sha256:cc'')\<rparr>"

definition web_summary :: "sample_summary PathCheckSummary" where
  "web_summary = \<lparr>SummaryProviderName = (\<lambda>_. ''git''),
     Common = (\<lambda>(p, d). \<lparr>Unmodified = True, SummaryPath = p, SummaryURI = [], IsDir = False, SummaryDigest = d\<rparr>),
     SameRepo = (\<lambda>_ _. True)\<rparr>"

definition web_checker :: "bool \<Rightarrow> (sample_summary, sample_summary) PathChecker" where
  "web_checker inside = \<lparr>ProviderName = ''git'', DetectRepo = (\<lambda>c. (Inr inside, c)),
     Check = (\<lambda>c. (Inr (True, True), c)), MakeSummary = (\<lambda>c. (Inr c, c))\<rparr>"

definition web_env :: "bool \<Rightarrow> (memory, string, sample_summary, sample_summary) package_env" where
  "web_env inside = \<lparr>loader_of = web_loader,
     files_of = (\<lambda>_. Map.empty(''/t/web.yaml'' \<mapsto> ''old'')), registry_of = mem_remote, scan_kio = web_kio,
     package_Sum = (\<lambda>s. s), update_of = web_update, summary_of = web_summary,
     checker_of = web_checker inside, provider_of = Pair, MarshalSummary = (\<lambda>_. Inr ()),
     EncodePredicate = (\<lambda>_. Some []), artefact_of = (\<lambda>_. web_artefact)\<rparr>"

definition web_command :: TapePackageCommand where
  "web_command = \<lparr>LogLevel = ''info'', tape_log = None, ManifestDir = ''k8s'', OutputImage = ''r.io/app''\<rparr>"

abbreviation web_runs :: "nat \<Rightarrow> choices" where
  "web_runs \<equiv> (\<lambda>_ _. in_order)"

lemma web_inside:
  "package_Execute (web_env True) web_runs web_command [] web_fs web_registry =
     (Inr ''r.io/app:config.78@sha256:cc'',
      snd (package_Execute (web_env True) web_runs web_command [] web_fs web_registry))"
proof -
  have "fst (package_Execute (web_env True) web_runs web_command [] web_fs web_registry) =
      Inr ''r.io/app:config.78@sha256:cc''"
    by code_simp
  then show ?thesis by (simp add: prod_eq_iff)
qed

subsection \<open>Properties of the command\<close>

text \<open>
  C34: outside a repository the command panics: when no version control is detected, and nothing has
  failed before, the nil registry is asked for its summary.
\<close>

theorem Package_outside_vcs_panics:
  assumes "fst (Init cmd) = Inr ()" and "ValidateFlags cmd = Inr ()"
    and "fst (Load (loader_of E) (runs 0) (NewRecursiveManifestDirectoryLoader (ManifestDir cmd)) S) = Inr ()"
    and "DetectVCS (summary_of E) (checker_of E) (provider_of E) (ManifestDir cmd) = Inr None"
  shows "package_Execute E runs cmd [] S w = (Inl (Panic NilDereference), w)"
proof -
  obtain l S' where "Load (loader_of E) (runs 0) (NewRecursiveManifestDirectoryLoader (ManifestDir cmd)) S = (Inr (), l, S')"
    using assms(3) by (metis prod.collapse)
  then have "package_load E runs cmd [] S = Inl (Panic NilDereference)"
    using assms(1,2,4) by (simp add: package_load_def detect_registry_def)
  then show ?thesis by (simp add: package_Execute_def)
qed

theorem Package_outside_vcs_panics_witness:
  "package_Execute (web_env False) web_runs web_command [] web_fs web_registry =
     (Inl (Panic NilDereference), web_registry)"
proof (rule Package_outside_vcs_panics)
  show "fst (Load (loader_of (web_env False)) (web_runs 0)
      (NewRecursiveManifestDirectoryLoader (ManifestDir web_command)) web_fs) = Inr ()"
    by code_simp
  show "ValidateFlags web_command = Inr ()" "fst (Init web_command) = Inr ()" by code_simp+
qed (simp_all add: web_env_def DetectVCS_def web_checker_def)



text \<open>An image of a group is one of the list, with a single source.\<close>

lemma group_items:
  assumes "gm_get (GroupByManifest l) p = Some g" and "i \<in> set (items g)"
  shows "\<exists>j\<in>set (items l). newRef i = newRef j \<and> Ref False i = Ref False j"
proof -
  have "items g = map (\<lambda>(i, s). single_source i s)
      (filter (\<lambda>(i, s). filepath_Join [dir l, Manifest s] = p) (source_pairs l))"
    using conjunct2 [OF gm_get_group_fold [of "dir l" "source_pairs l" p]] assms(1)
    unfolding GroupByManifest_def fold_nested source_pairs_def [symmetric]
    by (auto simp: Let_def split: if_splits)
  then obtain j s where "(j, s) \<in> set (source_pairs l)" "i = single_source j s"
    using assms(2) by auto
  then show ?thesis by (auto simp: source_pairs_def single_source_def newRef_def Ref_def)
qed


definition web_image :: image where
  "web_image =
     \<lparr>Sources = [\<lparr>Manifest = ''web.yaml'', ManifestDigest = ''d0'', Line = 7, Column = 12,
                  NodePath = [''spec'', ''containers'', ''image''], OriginalRef = ''a.io/web:1''\<rparr>],
      OriginalName = ''a.io/web'', OriginalTag = ''1'', Digest = ''sha256:aa'', NewName = [], NewTag = [],
      Alias = None\<rparr>"

definition web_state :: "(sample_summary, sample_summary) package_state" where
  "web_state =
     \<lparr>package_loader = \<lparr>fromPath = ''k8s'', tempDir = ''/t'', files = [], relPaths = [(''web.yaml'', ''k8s/web.yaml'')]\<rparr>,
      package_files = Map.empty(''/t/web.yaml'' \<mapsto> ''old''),
      package_images = Append [web_image] (NewImageList ''/t''), package_scanner = NewDefaultImageScanner,
      package_registry = NewPathCheckerRegistry ''k8s'' Pair\<rparr>"

abbreviation web_copies where
  "web_copies \<equiv> CopyImages (registry_of (web_env True)) (NewRegistryCopier (package_Sum (web_env True)) (OutputImage web_command))
     [package_images web_state, NewImageList ''/t'', NewImageList ''/t''] web_registry"

definition web_relocated :: ImageList where
  "web_relocated = relocated (NewRegistryCopier (package_Sum (web_env True)) (OutputImage web_command)) (package_images web_state)"


end
