(* ===== verification/Tape_View.thy ===== *)
theory Tape_View
  imports Oci_Artefact Attest_Manifest Tape_Command
begin

section \<open>The view command\<close>

text \<open>
  \<open>tape/app/view.go\<close>: what a package holds is collected and printed.  Reading gzip and the text of JSON
  are parameters; JSON is a tree here as elsewhere, and keys are matched exactly.
\<close>

record TapeViewCommand = TapeCommand +
  ViewFormat :: string
  ViewImage :: string

text \<open>\<open>toto.Statement\<close> as it is read: its predicate can be anything.\<close>

record read_Statement =
  ReadType :: string
  ReadPredicateType :: string
  ReadSubjects :: "toto_Subject list"
  ReadPredicate :: json

record 'm rawManifest =
  RawDigest :: string
  RawManifest :: "'m option"

record view_info =
  AppImages :: "string list"
  RawIndex :: "IndexManifest rawManifest"
  RawContent :: "oci_Manifest rawManifest"
  RawAttest :: "oci_Manifest rawManifest"
  ViewAttestations :: "read_Statement list"
  AttestationsSummary :: "SummaryAnnotation option"

text \<open>\<open>json_Decode\<close> reads the first value of a text, \<open>base64_json\<close> that of a text in base64.\<close>

record view_env =
  view_gunzip :: "string \<Rightarrow> (string \<times> unit res) res"
  json_Decode :: "string \<Rightarrow> json res"
  base64_json :: "string \<Rightarrow> json res"
  json_Output :: "view_info \<Rightarrow> string res"

subsection \<open>Reading statements\<close>

definition read_statement :: "json \<Rightarrow> read_Statement res" where
  "read_statement j =
     rbind (json_object j) (\<lambda>fields.
     rbind (json_string (json_field ''_type'' fields)) (\<lambda>t.
     rbind (json_string (json_field ''predicateType'' fields)) (\<lambda>pt.
     rbind (read_toto_Subjects (json_field ''subject'' fields)) (\<lambda>ss.
     Inr \<lparr>ReadType = t, ReadPredicateType = pt, ReadSubjects = ss,
          ReadPredicate = json_field ''predicate'' fields\<rparr>))))"

text \<open>
  \<^verbatim>\<open>bufio.Scanner\<close> with its lines: a line that is as long as its buffer stops it with an error.
\<close>

definition newline :: char where
  "newline = CHR 0x0A"

definition MaxScanTokenSize :: nat where
  "MaxScanTokenSize = 64 * 1024"

definition dropCR :: "string \<Rightarrow> string" where
  "dropCR l = (if l \<noteq> [] \<and> last l = CHR 0x0D then butlast l else l)"

fun scan_tokens :: "string list \<Rightarrow> string list \<times> unit res" where
  "scan_tokens [] = ([], Inr ())"
| "scan_tokens (l # ls) =
     (if MaxScanTokenSize \<le> length l then ([], Inl (Fail TokenTooLong))
      else case scan_tokens ls of (ts, r) \<Rightarrow> (dropCR l # ts, r))"

definition scan_lines :: "string \<Rightarrow> string list \<times> unit res" where
  "scan_lines s =
     (let ls = strings_Split newline s in scan_tokens (if last ls = [] then butlast ls else ls))"

definition read_statements :: "view_env \<Rightarrow> string \<times> unit res \<Rightarrow> read_Statement list res" where
  "read_statements E = (\<lambda>(content, err).
     case scan_lines content of (ts, scanned) \<Rightarrow>
       rbind (rmap_list (\<lambda>t. rbind (json_Decode E t) read_statement) ts) (\<lambda>ss.
       rbind scanned (\<lambda>_. rbind err (\<lambda>_. Inr ss))))"

subsection \<open>Collecting\<close>

text \<open>\<open>UnmarshalSummaryAnnotation\<close> of \<open>attest/types/types.go\<close>.\<close>

definition UnmarshalSummaryAnnotation :: "view_env \<Rightarrow> string \<Rightarrow> SummaryAnnotation res" where
  "UnmarshalSummaryAnnotation E s =
     wrap ''decoding attestation summary failed'' (rbind (base64_json E s) SummaryAnnotation_of_json)"

definition collect_layer :: "view_env \<Rightarrow> ArtefactInfo \<Rightarrow> view_info \<Rightarrow> view_info res" where
  "collect_layer E info v =
     (if InfoMediaType info = ContentMediaType then Inr v
      else if InfoMediaType info = AttestMediaType then
        rbind (case gm_get (InfoAnnotations info) AttestationsSummaryAnnotation of
                 None \<Rightarrow> Inr v
               | Some annotation \<Rightarrow>
                   rmap (\<lambda>summary. v\<lparr>AttestationsSummary := Some summary\<rparr>)
                     (UnmarshalSummaryAnnotation E annotation)) (\<lambda>v.
        rbind (view_gunzip E (Content info)) (\<lambda>gr.
        rbind (read_statements E gr) (\<lambda>ss.
        Inr (v\<lparr>ViewAttestations := ViewAttestations v @ ss\<rparr>))))
      else Inr v)"

text \<open>The predicate of a statement is encoded again and read as a reference with its place.\<close>

definition read_reference :: "json \<Rightarrow> ImageRefenceWithLocation res" where
  "read_reference j =
     rbind (json_object j) (\<lambda>fields.
     rbind (json_string (json_field ''reference'' fields)) (\<lambda>r.
     rbind (json_int (json_field ''line'' fields)) (\<lambda>l.
     rbind (json_int (json_field ''column'' fields)) (\<lambda>c.
     rbind (case json_field ''alias'' fields of JNull \<Rightarrow> Inr None | a \<Rightarrow> rmap Some (json_string a)) (\<lambda>a.
     Inr \<lparr>Reference = r, RefLine = l, RefColumn = c, RefAlias = a\<rparr>)))))"

definition replaced_reference :: "json \<Rightarrow> ImageRefenceWithLocation res" where
  "replaced_reference p =
     rbind (json_object p) (\<lambda>fields. read_reference (json_field ''replacedImageReference'' fields))"

definition app_images :: "read_Statement list \<Rightarrow> string list res" where
  "app_images ss =
     rmap_list (\<lambda>s. rmap Reference (replaced_reference (ReadPredicate s)))
       (filter (\<lambda>s. ReadPredicateType s = ReplacedImageRefPredicateType) ss)"

definition classify_manifest :: "string \<times> oci_Manifest \<Rightarrow> view_info \<Rightarrow> view_info" where
  "classify_manifest = (\<lambda>(digest, manifest) v.
     let m = \<lparr>RawDigest = digest, RawManifest = Some manifest\<rparr>
     in if ConfigMediaType manifest = ContentMediaType then v\<lparr>RawContent := m\<rparr>
     else if ConfigMediaType manifest = AttestMediaType then v\<lparr>RawAttest := m\<rparr>
     else v)"

definition empty_info :: view_info where
  "empty_info =
     \<lparr>AppImages = [], RawIndex = \<lparr>RawDigest = [], RawManifest = None\<rparr>,
      RawContent = \<lparr>RawDigest = [], RawManifest = None\<rparr>, RawAttest = \<lparr>RawDigest = [], RawManifest = None\<rparr>,
      ViewAttestations = [], AttestationsSummary = None\<rparr>"

definition view_CollectInfo ::
    "view_env \<Rightarrow> ('w, 'r) remote \<Rightarrow> order \<Rightarrow> 'a TapeViewCommand_scheme \<Rightarrow> 'w \<Rightarrow> view_info res" where
  "view_CollectInfo E R ord c w =
     rbind (GetIndexOrImage R (ViewImage c) w) (\<lambda>(imageIndex, indexManifest, _).
     case indexManifest of
       None \<Rightarrow> Inl (Fail (NoIndexManifest (ViewImage c)))
     | Some im \<Rightarrow>
         rbind (case imageIndex of None \<Rightarrow> Inl (Panic NilDereference) | Some x \<Rightarrow> IndexDigest x)
           (\<lambda>imageIndexDigest.
         rbind (FetchFromIndexOrImage imageIndex (Some im) None []) (\<lambda>(imageInfo, manifests).
         if length imageInfo = 0 then Inl (Fail (NoImagesFound (ViewImage c)))
         else
           rbind (rfold (collect_layer E) imageInfo
                    (empty_info\<lparr>RawIndex := \<lparr>RawDigest = imageIndexDigest, RawManifest = Some im\<rparr>\<rparr>)) (\<lambda>v.
           rbind (app_images (ViewAttestations v)) (\<lambda>refs.
           Inr (fold classify_manifest (gm_range ord manifests) (v\<lparr>AppImages := refs\<rparr>)))))))"

subsection \<open>Printing\<close>

text \<open>\<^verbatim>\<open>strconv.Itoa\<close>, which is what \<^verbatim>\<open>%v\<close> prints of an integer.\<close>

fun decimal :: "nat \<Rightarrow> string" where
  "decimal n = (if n < 10 then [hex_digit n] else decimal (n div 10) @ [hex_digit (n mod 10)])"

declare decimal.simps [simp del]

definition strconv_Itoa :: "int \<Rightarrow> string" where
  "strconv_Itoa i = (if i < 0 then CHR ''-'' # decimal (nat (-i)) else decimal (nat i))"

text \<open>
  What is printed, and how it ends: the arguments of a line are evaluated before it is printed, so a
  panic leaves the lines before it.
\<close>

type_synonym printed = "string list \<times> unit res"

definition manifest_line :: "oci_Manifest rawManifest \<Rightarrow> string res" where
  "manifest_line m =
     (case RawManifest m of
        None \<Rightarrow> Inl (Panic NilDereference)
      | Some x \<Rightarrow> Inr (''    '' @ RawDigest m @ '' '' @ ConfigMediaType x))"

fun print_line :: "string res \<Rightarrow> printed \<Rightarrow> printed" where
  "print_line (Inr l) (ls, Inr _) = (ls @ [l], Inr ())"
| "print_line (Inl f) (ls, Inr _) = (ls, Inl f)"
| "print_line _ (ls, Inl f) = (ls, Inl f)"

definition summary_lines :: "SummaryAnnotation \<Rightarrow> string list" where
  "summary_lines s =
     [''  Attestations Summary:'', ''    Number of Statements: '' @ strconv_Itoa (NumStamentes s)] @
     (if NumStamentes s > 0 then
        [''      Predicate Types:''] @ map (\<lambda>t. ''        '' @ t) (PredicateTypes s) @
        [''      Subjects:''] @
        map (\<lambda>x. ''        '' @ Name x @ ''@sha256:'' @ SubjectDigest x) (SummarySubjects s)
      else [])"

definition text_info :: "string \<Rightarrow> view_info \<Rightarrow> printed" where
  "text_info img v =
     fold print_line
       ([Inr img, Inr (''  Digest: '' @ RawDigest (RawIndex v)), Inr ''  OCI Manifests:'',
         manifest_line (RawContent v), manifest_line (RawAttest v)] @
        (if length (AppImages v) > 0
         then Inr ''  App Images:'' # map (\<lambda>i. Inr (''    '' @ i)) (AppImages v) else []) @
        (case AttestationsSummary v of None \<Rightarrow> [] | Some s \<Rightarrow> map Inr (summary_lines s)))
       ([], Inr ())"

definition view_PrintInfo :: "view_env \<Rightarrow> 'a TapeViewCommand_scheme \<Rightarrow> view_info \<Rightarrow> printed" where
  "view_PrintInfo E c v =
     (if ViewFormat c = OutputFormatDirectJSON then
        (case wrap ''failed to marshal output'' (json_Output E v) of
           Inl f \<Rightarrow> ([], Inl f)
         | Inr s \<Rightarrow> ([s], Inr ()))
      else if ViewFormat c = OutputFormatText \<or> ViewFormat c = OutputFormatDetailedText then
        text_info (ViewImage c) v
      else ([], Inr ()))"

definition view_Execute ::
    "view_env \<Rightarrow> ('w, 'r) remote \<Rightarrow> order \<Rightarrow> 'a TapeViewCommand_scheme \<Rightarrow> string list \<Rightarrow> 'w \<Rightarrow> printed" where
  "view_Execute E R ord c args w =
     (case if args \<noteq> [] then Inl (Fail UnexpectedArguments)
           else rbind (fst (Init c)) (\<lambda>_.
             wrap ''failed to collect info about artifact'' (view_CollectInfo E R ord c w)) of
        Inl f \<Rightarrow> ([], Inl f)
      | Inr v \<Rightarrow>
          (case view_PrintInfo E c v of (ls, r) \<Rightarrow> (ls, wrap ''failed to print info about artifact'' r)))"

subsection \<open>Statements as text\<close>

text \<open>
  The JSON of a statement, for a JSON \<open>dj\<close> of the directories in predicates, and what is assumed of the
  encoder of a package and the decoder: a statement is one line, which is decoded to this JSON.
\<close>

definition reference_json :: "ImageRefenceWithLocation \<Rightarrow> json" where
  "reference_json r =
     JObject ([(''reference'', JString (Reference r)), (''line'', JNumber (RefLine r)),
               (''column'', JNumber (RefColumn r))] @
              (case RefAlias r of None \<Rightarrow> [] | Some a \<Rightarrow> [(''alias'', JString a)]))"

fun predicate_json :: "('s SourceDirectory \<Rightarrow> json) \<Rightarrow> 's predicate \<Rightarrow> json" where
  "predicate_json dj (FoundImageReference r) = JObject [(''foundImageReference'', reference_json r)]"
| "predicate_json dj (ReplacedImageReference r) = JObject [(''replacedImageReference'', reference_json r)]"
| "predicate_json dj (ResolvedImageReference r) = JObject [(''resolvedImageReference'', reference_json r)]"
| "predicate_json dj (ContainedInDirectory d) = JObject [(''containedInDirectory'', dj d)]"

definition statement_json :: "('s SourceDirectory \<Rightarrow> json) \<Rightarrow> 's predicate GenericStatement \<Rightarrow> json" where
  "statement_json dj s =
     JObject [(''_type'', JString StatementInTotoV01), (''predicateType'', JString (GetType s)),
              (''subject'', json_of_toto_Subjects (Subjects_Export (Subjects s))),
              (''predicate'', predicate_json dj (ComparablePredicate (StatementPredicate s)))]"

definition json_lines ::
    "'s predicate artefact_env \<Rightarrow> view_env \<Rightarrow> ('s predicate GenericStatement \<Rightarrow> string)
      \<Rightarrow> ('s SourceDirectory \<Rightarrow> json) \<Rightarrow> 's predicate Statements \<Rightarrow> bool" where
  "json_lines A V line dj statements \<longleftrightarrow>
     (\<forall>s\<in>set statements.
        (\<forall>out. EncodeStatement A (Export s) out = Inr (out @ line s @ [newline])) \<and>
        newline \<notin> set (line s) \<and> dropCR (line s) = line s \<and> json_Decode V (line s) = Inr (statement_json dj s)) \<and>
     (\<forall>b. view_gunzip V (gzip A b) = Inr (b, Inr ())) \<and>
     (\<forall>ch b. MarshalSummaryAnnotation A ch statements = Inr b \<longrightarrow>
        base64_json V b = Inr (SummaryAnnotation_to_json (MakeSummaryAnnotation ch statements)))"

lemma reference_roundtrip: "read_reference (reference_json r) = Inr r"
  by (cases "RefAlias r")
    (simp_all add: read_reference_def reference_json_def json_field_def gm_put_def gm_get_def)

lemma replaced_roundtrip: "replaced_reference (predicate_json dj (ReplacedImageReference r)) = Inr r"
  by (simp add: replaced_reference_def json_field_def gm_put_def gm_get_def reference_roundtrip)

definition as_read :: "('s SourceDirectory \<Rightarrow> json) \<Rightarrow> 's predicate GenericStatement \<Rightarrow> read_Statement" where
  "as_read dj s =
     \<lparr>ReadType = StatementInTotoV01, ReadPredicateType = GetType s,
      ReadSubjects = Subjects_Export (Subjects s),
      ReadPredicate = predicate_json dj (ComparablePredicate (StatementPredicate s))\<rparr>"

lemma statement_roundtrip: "read_statement (statement_json dj s) = Inr (as_read dj s)"
  by (simp add: read_statement_def statement_json_def as_read_def json_field_def gm_put_def gm_get_def)

lemma encode_lines:
  assumes "json_lines A V line dj statements"
  shows "Statements_EncodeWith (EncodeStatement A) statements out =
    Inr (out @ concat (map (\<lambda>s. line s @ [newline]) statements))"
proof -
  have "rfold (EncodeWith (EncodeStatement A)) ss out = Inr (out @ concat (map (\<lambda>s. line s @ [newline]) ss))"
    if "set ss \<subseteq> set statements" for ss
    using that assms by (induction ss arbitrary: out) (auto simp: json_lines_def EncodeWith_def)
  then show ?thesis by (simp add: Statements_EncodeWith_def)
qed

lemma Split_lines:
  "\<forall>l\<in>set ls. newline \<notin> set l \<Longrightarrow> strings_Split newline (concat (map (\<lambda>l. l @ [newline]) ls)) = ls @ [[]]"
  by (induction ls) (auto simp: strings_Split_append_sep)

lemma scan_lines_tokens:
  assumes "\<forall>l\<in>set ls. newline \<notin> set l"
  shows "scan_lines (concat (map (\<lambda>l. l @ [newline]) ls)) = scan_tokens ls"
  using Split_lines [OF assms] by (simp add: scan_lines_def Let_def)

lemma scan_tokens_short:
  "\<forall>l\<in>set ls. length l < MaxScanTokenSize \<and> dropCR l = l \<Longrightarrow> scan_tokens ls = (ls, Inr ())"
  by (induction ls) auto

lemma scan_tokens_long:
  "l \<in> set ls \<Longrightarrow> MaxScanTokenSize \<le> length l \<Longrightarrow> isl (snd (scan_tokens ls))"
  by (induction ls) (auto split: prod.splits)

text \<open>Reading back the attestations of a package.\<close>

lemma read_lines:
  assumes "json_lines A V line dj statements"
  defines "jsonl \<equiv> concat (map (\<lambda>s. line s @ [newline]) statements)"
  shows "\<forall>s\<in>set statements. length (line s) < MaxScanTokenSize \<Longrightarrow>
      read_statements V (jsonl, Inr ()) = Inr (map (as_read dj) statements)"
    and "\<exists>s\<in>set statements. MaxScanTokenSize \<le> length (line s) \<Longrightarrow> isl (read_statements V (jsonl, Inr ()))"
proof -
  let ?ls = "map line statements"
  have "jsonl = concat (map (\<lambda>l. l @ [newline]) ?ls)" by (simp add: jsonl_def comp_def)
  moreover have "\<forall>l\<in>set ?ls. newline \<notin> set l" using assms(1) by (auto simp: json_lines_def)
  ultimately have scan: "scan_lines jsonl = scan_tokens ?ls"
    using scan_lines_tokens [of ?ls] by (simp only:)
  {
    assume short: "\<forall>s\<in>set statements. length (line s) < MaxScanTokenSize"
    have "\<forall>l\<in>set ?ls. length l < MaxScanTokenSize \<and> dropCR l = l"
      using short assms(1) by (auto simp: json_lines_def)
    moreover have "rmap_list (\<lambda>t. rbind (json_Decode V t) read_statement) ?ls = Inr (map (as_read dj) statements)"
      unfolding rmap_list_map
      using assms(1) by (intro rmap_list_total) (auto simp: json_lines_def statement_roundtrip)
    ultimately show "read_statements V (jsonl, Inr ()) = Inr (map (as_read dj) statements)"
      using scan_tokens_short [of ?ls] by (simp add: read_statements_def scan)
  }
  {
    assume "\<exists>s\<in>set statements. MaxScanTokenSize \<le> length (line s)"
    then obtain l where "l \<in> set ?ls" "MaxScanTokenSize \<le> length l" by auto
    then have "isl (snd (scan_tokens ?ls))" by (rule scan_tokens_long)
    then show "isl (read_statements V (jsonl, Inr ()))"
      by (cases "scan_tokens ?ls"; cases "rmap_list (\<lambda>t. rbind (json_Decode V t) read_statement) (fst (scan_tokens ?ls))")
        (auto simp: read_statements_def scan isl_def)
  }
qed

subsection \<open>Viewing what was packaged\<close>

lemma classify_simps [simp]:
  "AppImages (classify_manifest x v) = AppImages v"
  "ViewAttestations (classify_manifest x v) = ViewAttestations v"
  "AttestationsSummary (classify_manifest x v) = AttestationsSummary v"
  "RawIndex (classify_manifest x v) = RawIndex v"
  "RawManifest (RawContent (classify_manifest x v)) =
     (if ConfigMediaType (snd x) = ContentMediaType then Some (snd x) else RawManifest (RawContent v))"
  "RawManifest (RawAttest (classify_manifest x v)) =
     (if ConfigMediaType (snd x) = AttestMediaType then Some (snd x) else RawManifest (RawAttest v))"
  by (cases x; simp add: classify_manifest_def Let_def)+

lemma fold_classify:
  "AppImages (fold classify_manifest ms v) = AppImages v"
  "ViewAttestations (fold classify_manifest ms v) = ViewAttestations v"
  "AttestationsSummary (fold classify_manifest ms v) = AttestationsSummary v"
  "RawIndex (fold classify_manifest ms v) = RawIndex v"
  "RawManifest (RawContent (fold classify_manifest ms v)) = None \<longleftrightarrow>
     RawManifest (RawContent v) = None \<and> ContentMediaType \<notin> (\<lambda>(d, m). ConfigMediaType m) ` set ms"
  "RawManifest (RawAttest (fold classify_manifest ms v)) = None \<longleftrightarrow>
     RawManifest (RawAttest v) = None \<and> AttestMediaType \<notin> (\<lambda>(d, m). ConfigMediaType m) ` set ms"
  by (induction ms arbitrary: v) (auto simp: case_prod_unfold)

lemma collect_layers_pushed:
  assumes "map (\<lambda>i. (InfoMediaType i, Content i)) infos = [(ContentMediaType, b1), (AttestMediaType, b2)]"
    and "gm_get (InfoAnnotations (last infos)) AttestationsSummaryAnnotation = Some summary"
    and "base64_json V summary = Inr (SummaryAnnotation_to_json a)"
    and "SummaryAnnotation_of_json (SummaryAnnotation_to_json a) = Inr a"
    and "view_gunzip V b2 = Inr gr"
  shows "rfold (collect_layer V) infos v =
    rbind (read_statements V gr) (\<lambda>ss.
      Inr (v\<lparr>AttestationsSummary := Some a, ViewAttestations := ViewAttestations v @ ss\<rparr>))"
proof -
  obtain i j where infos: "infos = [i, j]" "InfoMediaType i = ContentMediaType"
      "InfoMediaType j = AttestMediaType" "Content j = b2"
    using assms(1) by (auto simp: map_eq_Cons_conv)
  have "collect_layer V i v = Inr v" by (simp add: collect_layer_def infos(2))
  moreover have "collect_layer V j v = rbind (read_statements V gr) (\<lambda>ss.
      Inr (v\<lparr>AttestationsSummary := Some a, ViewAttestations := ViewAttestations v @ ss\<rparr>))"
    using assms(2-5)
    by (simp add: collect_layer_def infos UnmarshalSummaryAnnotation_def)
  ultimately show ?thesis
    by (cases "read_statements V gr") (simp_all add: infos(1))
qed

text \<open>The summary of statements that have subjects, all with digests, can be read.\<close>

definition has_digests :: "'p Statements \<Rightarrow> bool" where
  "has_digests statements \<longleftrightarrow>
     (\<exists>s\<in>set statements. Subjects s \<noteq> []) \<and>
     (\<forall>s\<in>set statements. \<forall>x\<in>set (Subjects s). SubjectDigest x \<noteq> [])"

lemma set_SummarySubjects:
  "set (SummarySubjects (MakeSummaryAnnotation c ss)) = (\<Union>s\<in>set ss. set (Subjects s))"
  by (simp add: MakeSummaryAnnotation_def Let_def)

lemma read_back_summary:
  assumes "has_digests statements"
  shows "SummaryAnnotation_of_json (SummaryAnnotation_to_json (MakeSummaryAnnotation c statements)) =
    Inr (MakeSummaryAnnotation c statements)"
proof -
  let ?a = "MakeSummaryAnnotation c statements"
  have "set (SummarySubjects ?a) \<noteq> {}" "[] \<notin> SubjectDigest ` set (SummarySubjects ?a)"
    using assms unfolding set_SummarySubjects has_digests_def by (auto simp: image_iff) (metis)
  then show ?thesis by (simp add: SummaryAnnotation_read_back)
qed

text \<open>What the layers of a package give: all is read, or a line that is too long stops the reading.\<close>

lemma collect_pushed:
  assumes "PushArtefact R A ch dest d timestamp statements w = (Inr (ViewImage c), w')"
    and "serves_pushed R" and "hash_separates A" and "json_lines A V line dj statements"
    and "statements \<noteq> []" and "has_digests statements"
  shows "\<exists>index im digest infos ms.
    GetIndexOrImage R (ViewImage c) w' = Inr (Some index, Some im, None) \<and> IndexDigest index = Inr digest \<and>
    FetchFromIndexOrImage (Some index) (Some im) None [] = Inr (infos, ms) \<and> length infos = 2 \<and>
    map (\<lambda>(d, m). ConfigMediaType m) ms = [ContentMediaType, AttestMediaType] \<and>
    (\<forall>v. rfold (collect_layer V) infos v =
       rbind (read_statements V (concat (map (\<lambda>s. line s @ [newline]) statements), Inr ())) (\<lambda>ss.
         Inr (v\<lparr>AttestationsSummary := Some (MakeSummaryAnnotation ch statements),
                ViewAttestations := ViewAttestations v @ ss\<rparr>)))"
proof -
  let ?jsonl = "concat (map (\<lambda>s. line s @ [newline]) statements)"
  obtain archive index im digest where pushed:
      "Statements_EncodeWith (EncodeStatement A) statements [] = Inr ?jsonl"
      "GetIndexOrImage R (ViewImage c) w' = Inr (Some index, Some im, None)" "IndexDigest index = Inr digest"
    and fetched: "\<And>mts. \<not> skip mts ContentMediaType \<Longrightarrow> \<not> skip mts AttestMediaType \<Longrightarrow>
        \<exists>infos ms. FetchFromIndexOrImage (Some index) (Some im) None mts = Inr (infos, ms)
        \<and> map (\<lambda>i. (InfoMediaType i, Content i)) infos =
            [(ContentMediaType, archive), (AttestMediaType, gzip A ?jsonl)]
        \<and> map (\<lambda>(d, m). ConfigMediaType m) ms = [ContentMediaType, AttestMediaType]
        \<and> (\<exists>summary. MarshalSummaryAnnotation A ch statements = Inr summary
            \<and> gm_get (InfoAnnotations (last infos)) AttestationsSummaryAnnotation = Some summary)"
    using Index_pushed [OF assms(1-3)] encode_lines [OF assms(4), of "[]"] assms(5) by auto
  obtain infos ms summary where infos: "FetchFromIndexOrImage (Some index) (Some im) None [] = Inr (infos, ms)"
      "map (\<lambda>i. (InfoMediaType i, Content i)) infos = [(ContentMediaType, archive), (AttestMediaType, gzip A ?jsonl)]"
      "map (\<lambda>(d, m). ConfigMediaType m) ms = [ContentMediaType, AttestMediaType]"
      "MarshalSummaryAnnotation A ch statements = Inr summary"
      "gm_get (InfoAnnotations (last infos)) AttestationsSummaryAnnotation = Some summary"
    using fetched [of "[]"] by (auto simp: skip_def)
  have "base64_json V summary = Inr (SummaryAnnotation_to_json (MakeSummaryAnnotation ch statements))"
      "view_gunzip V (gzip A ?jsonl) = Inr (?jsonl, Inr ())"
    using assms(4) infos(4) by (auto simp: json_lines_def)
  from collect_layers_pushed [OF infos(2,5) this(1) read_back_summary [OF assms(6)] this(2)]
  show ?thesis using pushed(2,3) infos(1,3) arg_cong [OF infos(2), of length] by simp
qed

text \<open>The references in the statements about replaced images.\<close>

fun replaced_in :: "'s predicate \<Rightarrow> ImageRefenceWithLocation option" where
  "replaced_in (ReplacedImageReference r) = Some r"
| "replaced_in _ = None"

definition replaced_references :: "'s predicate Statements \<Rightarrow> string list" where
  "replaced_references statements =
     map Reference (List.map_filter (\<lambda>s. replaced_in (ComparablePredicate (StatementPredicate s))) statements)"

definition typed :: "'s predicate Statements \<Rightarrow> bool" where
  "typed statements \<longleftrightarrow>
     list_all (\<lambda>s. GetType s = ReplacedImageRefPredicateType \<longleftrightarrow>
       replaced_in (ComparablePredicate (StatementPredicate s)) \<noteq> None) statements"

lemma app_images_read:
  "typed statements \<Longrightarrow> app_images (map (as_read dj) statements) = Inr (replaced_references statements)"
proof (induction statements)
  case (Cons s ss)
  show ?case
  proof (cases "replaced_in (ComparablePredicate (StatementPredicate s))")
    case None
    then show ?thesis
      using Cons by (simp add: app_images_def as_read_def typed_def replaced_references_def List.map_filter_simps)
  next
    case (Some r)
    then have p: "ComparablePredicate (StatementPredicate s) = ReplacedImageReference r"
      by (cases "ComparablePredicate (StatementPredicate s)") auto
    have "replaced_reference (ReadPredicate (as_read dj s)) = Inr r"
      using replaced_roundtrip [of dj r] by (simp add: as_read_def p)
    then show ?thesis
      using Cons Some
      by (simp add: app_images_def typed_def replaced_references_def List.map_filter_simps as_read_def [of dj s])
  qed
qed (simp add: app_images_def replaced_references_def List.map_filter_simps)


text \<open>
  C36: a package with a statement whose JSON is 64 KiB or longer can be pushed but not viewed: its line does
  not fit the buffer of the scanner.
\<close>

theorem View_fails_on_long_statement:
  assumes "PushArtefact R A ch dest d timestamp statements w = (Inr (ViewImage c), w')"
    and "serves_pushed R" and "hash_separates A" and "json_lines A V line dj statements"
    and "has_digests statements" and "s \<in> set statements" and "64 * 1024 \<le> length (line s)"
  shows "isl (view_CollectInfo V R ord c w')"
proof -
  have ne: "statements \<noteq> []" using assms(6) by auto
  obtain index im digest infos ms where pushed:
      "GetIndexOrImage R (ViewImage c) w' = Inr (Some index, Some im, None)" "IndexDigest index = Inr digest"
      "FetchFromIndexOrImage (Some index) (Some im) None [] = Inr (infos, ms)" "length infos = 2"
      "\<forall>v. rfold (collect_layer V) infos v =
       rbind (read_statements V (concat (map (\<lambda>s. line s @ [newline]) statements), Inr ())) (\<lambda>ss.
         Inr (v\<lparr>AttestationsSummary := Some (MakeSummaryAnnotation ch statements),
                ViewAttestations := ViewAttestations v @ ss\<rparr>))"
    using collect_pushed [OF assms(1-4) ne assms(5)] by (elim exE conjE) (rule that)
  have "isl (read_statements V (concat (map (\<lambda>s. line s @ [newline]) statements), Inr ()))"
    using assms(6,7) by (intro read_lines(2) [OF assms(4)] bexI [of _ s]) (simp_all add: MaxScanTokenSize_def)
  then obtain f where f: "\<And>v. rfold (collect_layer V) infos v = Inl f"
    using pushed(5) by (auto simp: isl_def)
  have "infos \<noteq> []" using pushed(4) by auto
  then show ?thesis unfolding view_CollectInfo_def using pushed(1-3) f by simp
qed

lemma print_line_stopped: "fold print_line xs (ls, Inl f) = (ls, Inl f)"
proof (induction xs)
  case (Cons x xs)
  have "print_line x (ls, Inl f) = (ls, Inl f)" by (cases x) simp_all
  then show ?case using Cons by simp
qed simp

text \<open>
  C37: a package without attestations cannot be viewed as text: \<open>PrintInfo\<close> panics at the manifest of the
  attestations, after it has printed the first lines.
\<close>

theorem View_panics_without_attestations:
  fixes A :: "'p artefact_env"
  assumes "PushArtefact R A ch dest d timestamp [] w = (Inr (ViewImage c), w')"
    and "serves_pushed R" and "hash_separates A" and "fst (Init c) = Inr ()"
    and "ViewFormat c = OutputFormatText \<or> ViewFormat c = OutputFormatDetailedText"
  shows "\<exists>ls. view_Execute V R ord c [] w' = (ls, Inl (Panic NilDereference)) \<and> length ls = 4"
proof -
  obtain archive index im digest where pushed:
      "GetIndexOrImage R (ViewImage c) w' = Inr (Some index, Some im, None)" "IndexDigest index = Inr digest"
    and fetched: "\<exists>infos ms. FetchFromIndexOrImage (Some index) (Some im) None [] = Inr (infos, ms)
        \<and> map (\<lambda>i. (InfoMediaType i, Content i)) infos = [(ContentMediaType, archive)]
        \<and> map (\<lambda>(d, m). ConfigMediaType m) ms = [ContentMediaType]"
    using Index_pushed [OF assms(1-3)] by (auto simp: skip_def)
  obtain a ms where infos: "FetchFromIndexOrImage (Some index) (Some im) None [] = Inr ([a], ms)"
      "InfoMediaType a = ContentMediaType" "map (\<lambda>(d, m). ConfigMediaType m) ms = [ContentMediaType]"
    using fetched by (auto simp: map_eq_Cons_conv)
  let ?start = "empty_info\<lparr>RawIndex := \<lparr>RawDigest = digest, RawManifest = Some im\<rparr>\<rparr>"
  let ?v = "fold classify_manifest (gm_range ord ms) ?start"
  have "view_CollectInfo V R ord c w' = Inr ?v"
    unfolding view_CollectInfo_def using pushed infos(1,2)
    by (simp add: collect_layer_def app_images_def empty_info_def)
  moreover have types: "(\<lambda>(d, m). ConfigMediaType m) ` set (gm_range ord ms) = {ContentMediaType}"
    using arg_cong [OF infos(3), of set] by simp
  have "RawManifest (RawContent ?v) \<noteq> None" "RawManifest (RawAttest ?v) = None"
    unfolding fold_classify types by (simp_all add: empty_info_def)
  then obtain l where "manifest_line (RawContent ?v) = Inr l" "manifest_line (RawAttest ?v) = Inl (Panic NilDereference)"
    by (auto simp: manifest_line_def)
  then have "\<exists>ls. text_info (ViewImage c) ?v = (ls, Inl (Panic NilDereference)) \<and> length ls = 4"
    by (simp add: text_info_def print_line_stopped)
  ultimately show ?thesis
    using assms(4,5) by (auto simp: view_Execute_def view_PrintInfo_def)
qed

subsection \<open>Examples\<close>

text \<open>A package with one statement, of which the JSON is read from any line.\<close>

definition viewed_statement :: "unit predicate GenericStatement" where
  "viewed_statement = MakeStatement in_order ReplacedImageRefPredicateType
     (ReplacedImageReference \<lparr>Reference = ''r.io/app:app.1@sha256:aa'', RefLine = 3, RefColumn = 9, RefAlias = None\<rparr>)
     [\<lparr>Name = ''a.yaml'', SubjectDigest = ''d1''\<rparr>]"

definition line_env :: "string \<Rightarrow> unit predicate artefact_env" where
  "line_env l = sample_env (\<lambda>_ out. out @ l @ [newline])"

definition line_view_env :: view_env where
  "line_view_env =
     \<lparr>view_gunzip = (\<lambda>s. Inr (s, Inr ())), json_Decode = (\<lambda>_. Inr (statement_json (\<lambda>_. JNull) viewed_statement)),
      base64_json = (\<lambda>_. Inr (SummaryAnnotation_to_json (MakeSummaryAnnotation (\<lambda>_. in_order) [viewed_statement]))),
      json_Output = (\<lambda>_. Inr ''{}'')\<rparr>"

definition sample_view :: "string \<Rightarrow> TapeViewCommand" where
  "sample_view ref =
     \<lparr>LogLevel = ''info'', tape_log = None, ViewFormat = OutputFormatText, ViewImage = ref\<rparr>"

lemma viewed_simps:
  "Subjects viewed_statement = [\<lparr>Name = ''a.yaml'', SubjectDigest = ''d1''\<rparr>]"
  "GetType viewed_statement = ReplacedImageRefPredicateType"
  "ComparablePredicate (StatementPredicate viewed_statement) =
     ReplacedImageReference \<lparr>Reference = ''r.io/app:app.1@sha256:aa'', RefLine = 3, RefColumn = 9, RefAlias = None\<rparr>"
  by (simp_all add: viewed_statement_def)

lemma viewed_ok: "has_digests [viewed_statement]" "typed [viewed_statement]"
  by (simp_all add: has_digests_def typed_def viewed_simps)

lemma line_env_ok:
  assumes "newline \<notin> set l" and "dropCR l = l"
  shows "json_lines (line_env l) line_view_env (\<lambda>_. l) (\<lambda>_. JNull) [viewed_statement]"
proof -
  have "SummaryAnnotation_to_json (MakeSummaryAnnotation (\<lambda>_. in_order) [viewed_statement]) =
      SummaryAnnotation_to_json (MakeSummaryAnnotation ch [viewed_statement])" for ch
    by (simp add: MakeSummaryAnnotation_def Let_def viewed_simps key_set_def gm_put_def)
  moreover have "gzip (line_env l) = (\<lambda>s. s)" "EncodeStatement (line_env l) = (\<lambda>_ out. Inr (out @ l @ [newline]))"
    by (simp_all add: line_env_def sample_env_def)
  ultimately show ?thesis
    using assms by (simp add: json_lines_def line_view_env_def)
qed

lemma line_env_hash: "hash_separates (line_env l)"
  unfolding line_env_def by (rule sample_hash_separates)

lemma viewed_push:
  obtains ref w' where "PushArtefact mem_remote (line_env l) (\<lambda>_. in_order) ''host/app'' ''src'' (Some 5)
    [viewed_statement] \<lparr>Tags = [], Blobs = []\<rparr> = (Inr (ViewImage (sample_view ref)), w')"
  using sample_push [of "\<lambda>_ out. out @ l @ [newline]" "\<lambda>_. in_order" viewed_statement]
  by (auto simp: line_env_def sample_view_def)


theorem View_fails_on_long_statement_witness:
  "\<exists>ref w'. PushArtefact mem_remote (line_env (replicate 65536 CHR ''x'')) (\<lambda>_. in_order) ''host/app'' ''src'' (Some 5)
      [viewed_statement] \<lparr>Tags = [], Blobs = []\<rparr> = (Inr (ViewImage (sample_view ref)), w') \<and>
    isl (view_CollectInfo line_view_env mem_remote in_order (sample_view ref) w')"
proof -
  define n :: nat where "n = 65536"
  define l where "l = replicate n CHR ''x''"
  have n: "n \<noteq> 0" "64 * 1024 \<le> n" by (simp_all add: n_def)
  have l: "newline \<notin> set l" "dropCR l = l" "64 * 1024 \<le> length l"
    using n by (simp_all add: l_def newline_def dropCR_def last_replicate)
  obtain ref w' where pushed: "PushArtefact mem_remote (line_env l) (\<lambda>_. in_order) ''host/app'' ''src'' (Some 5)
      [viewed_statement] \<lparr>Tags = [], Blobs = []\<rparr> = (Inr (ViewImage (sample_view ref)), w')"
    by (rule viewed_push)
  have "isl (view_CollectInfo line_view_env mem_remote in_order (sample_view ref) w')"
    by (rule View_fails_on_long_statement [OF pushed mem_remote_serves_pushed line_env_hash
        line_env_ok [OF l(1,2)] viewed_ok(1) _ l(3)]) simp
  then show ?thesis using pushed unfolding l_def n_def by blast
qed

definition bare_pushed :: "string res \<times> memory" where
  "bare_pushed = PushArtefact mem_remote (line_env []) (\<lambda>_. in_order) ''host/app'' ''src'' (Some 5) []
     \<lparr>Tags = [], Blobs = []\<rparr>"

theorem View_panics_without_attestations_witness:
  "\<exists>ref ls. fst bare_pushed = Inr ref \<and>
     view_Execute line_view_env mem_remote in_order (sample_view ref) [] (snd bare_pushed) =
       (ls, Inl (Panic NilDereference)) \<and> length ls = 4"
proof -
  have "\<not> isl (fst bare_pushed)" by code_simp
  then obtain ref where ref: "fst bare_pushed = Inr ref" by (cases "fst bare_pushed") auto
  then have pushed: "PushArtefact mem_remote (line_env []) (\<lambda>_. in_order) ''host/app'' ''src'' (Some 5) []
      \<lparr>Tags = [], Blobs = []\<rparr> = (Inr (ViewImage (sample_view ref)), snd bare_pushed)"
    unfolding bare_pushed_def [symmetric] by (simp add: sample_view_def prod_eq_iff)
  have "fst (Init (sample_view ref)) = Inr ()" "ViewFormat (sample_view ref) = OutputFormatText"
    by (simp_all add: Init_Inr sample_view_def ParseLevel_def strings_ToLower_def ascii_lower_def)
  from View_panics_without_attestations [OF pushed mem_remote_serves_pushed line_env_hash this(1)] this(2) ref
  show ?thesis by blast
qed

end
