(* ===== verification/Tape_Images.thy ===== *)
theory Tape_Images
  imports Tape_View Image_Resolver Image_Updater Manifest_Loader
begin

section \<open>The images command\<close>

text \<open>
  \<open>tape/app/images.go\<close>: the images of a directory of manifests, with what their registries hold about
  them: the manifests of their indexes, the attestations in them, and the SBOMs, attestations and
  signatures under tags related to them.  Decoding JSON, base64 and certificates are parameters.
\<close>

record TapeImagesCommand = TapeCommand +
  ImagesFormat :: string
  ImagesManifestDir :: string

record imageManifest =
  imDigest :: string
  imMediaType :: string
  imPlatform :: "Platform option"
  imAnnotations :: "(string, string) gomap"
  imSize :: int

text \<open>\<open>dsse.Envelope\<close>, and what the program puts into the field \<open>Object\<close> of a document.\<close>

record Envelope =
  PayloadType :: string
  Payload :: string
  Signatures :: "(string \<times> string) list"

datatype doc_object =
    ObjStatement read_Statement
  | ObjEnvelope Envelope
  | ObjJSON json
  | ObjCertificates "string list list"

record document =
  DocMediaType :: string
  DocData :: string
  DocObject :: "doc_object option"

type_synonym documents = "(string, document) gomap"

record imageInfo =
  iRef :: string
  iAlias :: "string option"
  DigestProvided :: bool
  iSources :: "source list"
  InlineAttestations :: documents
  ExternalAttestations :: documents
  InlineSBOMs :: documents
  ExternalSBOMs :: documents
  InlineSignatures :: documents
  ExternalSignatures :: documents
  Related :: "(string, ImageList) gomap"
  RelatedUnclassified :: "string list"
  iManifests :: "imageManifest list"

text \<open>
  \<open>certificates\<close> is \<open>LoadCertificatesFromPEM\<close> with the alternative names of each certificate;
  \<open>base64_Decode\<close> reads base64 to its end.
\<close>

record ('w, 'r) images_env =
  images_loader :: loader_env
  images_files :: "file_system \<Rightarrow> files"
  images_kio :: kio
  images_Sum :: "string \<Rightarrow> string"
  images_registry :: "('w, 'r) remote"
  images_Decode :: "string \<Rightarrow> json res"
  images_base64_json :: "string \<Rightarrow> json res"
  base64_Decode :: "string \<Rightarrow> string res"
  RawStdEncoding :: "string \<Rightarrow> string"
  certificates :: "string \<Rightarrow> string list list res"
  Encode_info :: "imageInfo \<Rightarrow> string res"
  Encode_object :: "doc_object \<Rightarrow> string res"

subsection \<open>Attestations in the index of an image\<close>

definition as_imageManifest :: "Descriptor \<Rightarrow> imageManifest" where
  "as_imageManifest d =
     \<lparr>imDigest = DescriptorDigest d, imMediaType = MediaType d, imPlatform = DescriptorPlatform d,
      imAnnotations = DescriptorAnnotations d, imSize = DescriptorSize d\<rparr>"

definition inline_subject :: "ArtefactInfo \<Rightarrow> read_Statement \<Rightarrow> string res" where
  "inline_subject artefact statement =
     rbind
       (if gm_get (InfoAnnotations artefact) ''vnd.docker.reference.type'' = Some ''attestation-manifest'' then
          (case gm_get (InfoAnnotations artefact) ''vnd.docker.reference.digest'' of
             None \<Rightarrow> Inl (Fail (NoReferenceDigest (InfoDigest artefact)))
           | Some d \<Rightarrow> Inr d)
        else
          (case ReadSubjects statement of
             [] \<Rightarrow> Inl (Fail (NoStatementSubject (InfoDigest artefact)))
           | (_, digests) # _ \<Rightarrow>
               (case gm_get digests ''sha256'' of
                  None \<Rightarrow> Inl (Fail (NoSubjectDigest (InfoDigest artefact)))
                | Some d \<Rightarrow> Inr d)))
       (\<lambda>subject.
          if subject = [] then Inl (Fail (NoAttestationSubject (InfoDigest artefact))) else Inr subject)"

definition SPDX_predicate :: string where
  "SPDX_predicate = ''https://spdx.dev/Document''"

definition add_inline :: "('w, 'r) images_env \<Rightarrow> ArtefactInfo \<Rightarrow> imageInfo \<Rightarrow> imageInfo res" where
  "add_inline E artefact info =
     rbind (wrap ''failed to unmarshal attestation''
              (rbind (images_Decode E (Content artefact)) read_statement)) (\<lambda>statement.
     rbind (inline_subject artefact statement) (\<lambda>subject.
     let doc = \<lparr>DocMediaType = InfoMediaType artefact, DocData = [], DocObject = Some (ObjStatement statement)\<rparr>
     in case gm_get (InfoAnnotations artefact) ''in-toto.io/predicate-type'' of
          None \<Rightarrow> Inr info
        | Some predicateType \<Rightarrow>
            if predicateType = SPDX_predicate then
              (if gm_get (InlineSBOMs info) subject \<noteq> None then Inl (Fail (DuplicateSBOM subject))
               else Inr (info\<lparr>InlineSBOMs := gm_put subject doc (InlineSBOMs info)\<rparr>))
            else
              (if gm_get (InlineAttestations info) subject \<noteq> None
               then Inl (Fail (DuplicateInlineAttestation subject))
               else Inr (info\<lparr>InlineAttestations := gm_put subject doc (InlineAttestations info)\<rparr>))))"

text \<open>The entry of an image in the output; one that is missing reads as the zero value.\<close>

definition zero_info :: imageInfo where
  "zero_info =
     \<lparr>iRef = [], iAlias = None, DigestProvided = False, iSources = [], InlineAttestations = [],
      ExternalAttestations = [], InlineSBOMs = [], ExternalSBOMs = [], InlineSignatures = [],
      ExternalSignatures = [], Related = [], RelatedUnclassified = [], iManifests = []\<rparr>"

type_synonym images_info = "(string, imageInfo) gomap"

definition info_of :: "images_info \<Rightarrow> string \<Rightarrow> imageInfo" where
  "info_of out ref = (case gm_get out ref of None \<Rightarrow> zero_info | Some info \<Rightarrow> info)"

text \<open>The callback of \<open>FindRelatedFromIndecies\<close>: a nil index manifest is dereferenced at once.\<close>

definition inspectManifest :: "('w, 'r) images_env \<Rightarrow> images_info InspectIndexManifest" where
  "inspectManifest E img imageIndex indexManifest out =
     (case indexManifest of
        None \<Rightarrow> Inl (Panic NilDereference)
      | Some im \<Rightarrow>
          let info = info_of out (Ref True img);
              info = info\<lparr>iManifests := iManifests info @ map as_imageManifest (Manifests im)\<rparr>
          in rbind (wrap ''failed to fetch inline attestation''
                      (FetchFromIndexOrImage imageIndex (Some im) None [''application/vnd.in-toto+json'']))
               (\<lambda>(artefacts, _).
             rbind (rfold (add_inline E) artefacts info) (\<lambda>info.
             Inr (gm_put (Ref True img) info out))))"

subsection \<open>What related tags hold\<close>

definition read_signature :: "json \<Rightarrow> (string \<times> string) res" where
  "read_signature j =
     rbind (json_object j) (\<lambda>fields.
     rbind (json_string (json_field ''keyid'' fields)) (\<lambda>keyid.
     rbind (json_string (json_field ''sig'' fields)) (\<lambda>s. Inr (keyid, s))))"

definition read_envelope :: "json \<Rightarrow> Envelope res" where
  "read_envelope j =
     rbind (json_object j) (\<lambda>fields.
     rbind (json_string (json_field ''payloadType'' fields)) (\<lambda>t.
     rbind (json_string (json_field ''payload'' fields)) (\<lambda>p.
     rbind (rbind (json_array (json_field ''signatures'' fields)) (rmap_list read_signature)) (\<lambda>ss.
     Inr \<lparr>PayloadType = t, Payload = p, Signatures = ss\<rparr>))))"

definition external_attestation :: "('w, 'r) images_env \<Rightarrow> string \<Rightarrow> 'w \<Rightarrow> document res" where
  "external_attestation E ref w =
     rbind (wrap ''failed to fetch external attestation'' (GetSingleArtefact (images_registry E) ref w))
       (\<lambda>artefact.
     if InfoMediaType artefact \<noteq> ''application/vnd.dsse.envelope.v1+json''
     then Inl (Fail (UnexpectedMediaType ref (InfoMediaType artefact)))
     else
       rbind (wrap ''failed to unmarshal attestation''
                (rbind (images_Decode E (Content artefact)) read_envelope)) (\<lambda>envelope.
       Inr \<lparr>DocMediaType = InfoMediaType artefact, DocData = [], DocObject = Some (ObjEnvelope envelope)\<rparr>))"

text \<open>
  The document of an SBOM is any JSON, of which \<open>null\<close> is the nil value.  The error of decoding it is
  not part of the error that is returned.
\<close>

definition external_sbom :: "('w, 'r) images_env \<Rightarrow> string \<Rightarrow> 'w \<Rightarrow> document res" where
  "external_sbom E ref w =
     rbind (wrap ''failed to fetch external attestation'' (GetSingleArtefact (images_registry E) ref w))
       (\<lambda>artefact.
     if InfoMediaType artefact \<noteq> ''spdx+json''
     then Inl (Fail (UnexpectedMediaType ref (InfoMediaType artefact)))
     else
       (case images_Decode E (Content artefact) of
          Inl (Panic p) \<Rightarrow> Inl (Panic p)
        | Inl (Fail _) \<Rightarrow> Inl (Fail MalformedSBOM)
        | Inr j \<Rightarrow>
            Inr \<lparr>DocMediaType = InfoMediaType artefact, DocData = [],
                  DocObject = (if j = JNull then None else Some (ObjJSON j))\<rparr>))"

text \<open>The bundle of a signature: the body of its payload.  All fields are read, one is used.\<close>

definition bundle_body :: "json \<Rightarrow> string res" where
  "bundle_body j =
     rbind (json_object j) (\<lambda>fields.
     rbind (json_string (json_field ''SignedEntryTimestamp'' fields)) (\<lambda>_.
     rbind (json_object (json_field ''Payload'' fields)) (\<lambda>payload.
     rbind (json_string (json_field ''body'' payload)) (\<lambda>body.
     rbind (json_int (json_field ''integratedTime'' payload)) (\<lambda>_.
     rbind (json_int (json_field ''logIndex'' payload)) (\<lambda>_.
     rbind (json_string (json_field ''logID'' payload)) (\<lambda>_.
     Inr body)))))))"

record hashed_rekord =
  APIVersion :: string
  Kind :: string
  PublicKey :: string

definition read_rekord :: "json \<Rightarrow> hashed_rekord res" where
  "read_rekord j =
     rbind (json_object j) (\<lambda>fields.
     rbind (json_string (json_field ''apiVersion'' fields)) (\<lambda>apiVersion.
     rbind (json_string (json_field ''kind'' fields)) (\<lambda>kind.
     rbind (json_object (json_field ''spec'' fields)) (\<lambda>spec.
     rbind (json_object (json_field ''data'' spec)) (\<lambda>data.
     rbind (json_object (json_field ''hash'' data)) (\<lambda>hash.
     rbind (json_string (json_field ''algorithm'' hash)) (\<lambda>_.
     rbind (json_string (json_field ''value'' hash)) (\<lambda>_.
     rbind (json_object (json_field ''signature'' spec)) (\<lambda>signature.
     rbind (json_string (json_field ''content'' signature)) (\<lambda>_.
     rbind (json_object (json_field ''publicKey'' signature)) (\<lambda>publicKey.
     rbind (json_string (json_field ''content'' publicKey)) (\<lambda>key.
     Inr \<lparr>APIVersion = apiVersion, Kind = kind, PublicKey = key\<rparr>))))))))))))"

definition signinfo_type :: string where
  "signinfo_type = ''application/vnd.com.docker.signinfo.v1alpha1''"

definition external_signature :: "('w, 'r) images_env \<Rightarrow> string \<Rightarrow> 'w \<Rightarrow> document res" where
  "external_signature E ref w =
     rbind (wrap ''failed to fetch external signature'' (GetSingleArtefact (images_registry E) ref w))
       (\<lambda>artefact.
     if InfoMediaType artefact \<noteq> ''application/vnd.dev.cosign.simplesigning.v1+json''
     then Inl (Fail (UnexpectedMediaType ref (InfoMediaType artefact)))
     else
       (case gm_get (InfoAnnotations artefact) ''dev.sigstore.cosign/bundle'' of
          None \<Rightarrow> Inr \<lparr>DocMediaType = signinfo_type, DocData = [], DocObject = None\<rparr>
        | Some bundle \<Rightarrow>
            rbind (wrap ''failed to unmarshal signature bundle''
                     (rbind (images_Decode E bundle) bundle_body)) (\<lambda>body.
            rbind (wrap ''failed to unmarshal signature bundle''
                     (rbind (images_base64_json E body) read_rekord)) (\<lambda>rekord.
            if Kind rekord \<noteq> ''hashedrekord'' \<and> APIVersion rekord \<noteq> ''0.0.1''
            then Inl (Fail (UnexpectedBundle (APIVersion rekord) (Kind rekord)))
            else
              rbind (wrap ''failed to decode PEM signature bundle'' (base64_Decode E (PublicKey rekord)))
                (\<lambda>publicKeyPEM.
              rbind (wrap ''failed to load certificates from PEM signature bundle''
                       (certificates E publicKeyPEM)) (\<lambda>names.
              Inr \<lparr>DocMediaType = signinfo_type, DocData = [], DocObject = Some (ObjCertificates names)\<rparr>))))))"

definition classify_related :: "('w, 'r) images_env \<Rightarrow> 'w \<Rightarrow> image \<Rightarrow> imageInfo \<Rightarrow> imageInfo res" where
  "classify_related E w relatedImage info =
     (let ref = Ref True relatedImage; tag = OriginalTag relatedImage
      in if strings_HasSuffix tag ''.att'' then
           rbind (external_attestation E ref w) (\<lambda>doc.
           Inr (info\<lparr>ExternalAttestations := gm_put ref doc (ExternalAttestations info)\<rparr>))
         else if strings_HasSuffix tag ''.sbom'' then
           rbind (external_sbom E ref w) (\<lambda>doc.
           Inr (info\<lparr>ExternalSBOMs := gm_put ref doc (ExternalSBOMs info)\<rparr>))
         else if strings_HasSuffix tag ''.sig'' then
           rbind (external_signature E ref w) (\<lambda>doc.
           Inr (info\<lparr>ExternalSignatures := gm_put ref doc (ExternalSignatures info)\<rparr>))
         else Inr (info\<lparr>RelatedUnclassified := RelatedUnclassified info @ [ref]\<rparr>))"

subsection \<open>Collecting\<close>

definition new_info :: "string list \<Rightarrow> image \<Rightarrow> imageInfo" where
  "new_info withDigests img =
     zero_info\<lparr>iRef := Ref True img, iAlias := Alias img, DigestProvided := Digest img \<in> set withDigests,
       iSources := Sources img\<rparr>"

definition put_related :: "string \<Rightarrow> ImageList \<Rightarrow> imageInfo \<Rightarrow> imageInfo" where
  "put_related ref l info =
     (if Len l > 0 then info\<lparr>Related := gm_put ref l (Related info)\<rparr> else info)"

text \<open>
  The related images of an image and of its manifests, by what they are related to: \<open>c 0\<close> is the order of
  the relations of the image, \<open>c 1\<close> that of its manifests, \<open>c (3 + k)\<close> that of the relations of the
  \<open>k\<close>th of them.
\<close>

definition gather_related ::
    "choices \<Rightarrow> ImageList \<Rightarrow> ImageList \<Rightarrow> ImageList \<Rightarrow> string \<Rightarrow> imageInfo \<Rightarrow> imageInfo" where
  "gather_related c related manifests relatedToManifests imageRef info =
     fold (\<lambda>(k, manifestRef). put_related manifestRef (CollectRelatedToRef (c (3 + k)) manifestRef relatedToManifests))
       (List.enumerate 0 (RelatedTo (c 1) imageRef manifests))
       (put_related imageRef (CollectRelatedToRef (c 0) imageRef related) info)"

definition collect_image ::
    "('w, 'r) images_env \<Rightarrow> choices \<Rightarrow> ImageList \<Rightarrow> ImageList \<Rightarrow> ImageList \<Rightarrow> 'w \<Rightarrow> image
      \<Rightarrow> images_info \<Rightarrow> images_info res" where
  "collect_image E c related manifests relatedToManifests w img out =
     (let imageRef = Ref True img;
          info = gather_related c related manifests relatedToManifests imageRef (info_of out imageRef)
      in rbind (rfold (classify_related E w) (concat (map (items \<circ> snd) (gm_range (c 2) (Related info)))) info)
           (\<lambda>info. Inr (gm_put imageRef info out)))"

definition images_CollectInfo ::
    "('w, 'r) images_env \<Rightarrow> (nat \<Rightarrow> choices) \<Rightarrow> ImageList \<Rightarrow> 'w \<Rightarrow> images_info res" where
  "images_CollectInfo E runs images w =
     (let withDigests = filter (\<lambda>d. d \<noteq> []) (map Digest (items images))
      in case ResolveDigests (images_registry E) images w of (res, images) \<Rightarrow>
        rbind (wrap ''failed to resolve image digests'' res) (\<lambda>_.
        rbind (wrap ''failed to dedup images'' (Dedup (runs 2) images)) (\<lambda>images.
        let out = fold (\<lambda>img. gm_put (Ref True img) (new_info withDigests img)) (items images) []
        in rbind (wrap ''failed to find related tags''
                    (FindRelatedTags (images_registry E) (runs 3) images w)) (\<lambda>related.
           rbind (FindRelatedFromIndecies (images_registry E) (runs 4) images (Some (inspectManifest E)) w out)
             (\<lambda>(manifests, relatedToManifests, out).
           rfold (\<lambda>(k, img). collect_image E (runs (5 + k)) related manifests relatedToManifests w img)
             (List.enumerate 0 (items images)) out)))))"

subsection \<open>Printing\<close>

text \<open>\<open>String\<close> of a \<open>Platform\<close> (go-containerregistry), which a nil platform does not have.\<close>

definition Platform_String :: "Platform option \<Rightarrow> string res" where
  "Platform_String p =
     (case p of
        None \<Rightarrow> Inl (Panic NilDereference)
      | Some p \<Rightarrow>
          Inr (if OS p = [] then []
               else OS p @ (if Architecture p = [] then [] else ''/'' @ Architecture p)
                    @ (if Variant p = [] then [] else ''/'' @ Variant p)
                    @ (if OSVersion p = [] then [] else '':'' @ OSVersion p)))"

definition source_line :: "source \<Rightarrow> string" where
  "source_line s =
     ''    '' @ OriginalRef s @ '' '' @ Manifest s @ '':'' @ strconv_Itoa (Line s) @ '':'' @
     strconv_Itoa (Column s) @ ''@sha256:'' @ ManifestDigest s"

definition imageManifest_line :: "imageManifest \<Rightarrow> string res" where
  "imageManifest_line m =
     rmap (\<lambda>platform. ''    '' @ imDigest m @ ''  '' @ imMediaType m @ ''  '' @ platform @ ''  '' @
             strconv_Itoa (imSize m))
       (Platform_String (imPlatform m))"

definition docsets :: "imageInfo \<Rightarrow> (string, documents) gomap" where
  "docsets info =
     [(''Inline attestations'', InlineAttestations info), (''External attestations'', ExternalAttestations info),
      (''Inline SBOMs'', InlineSBOMs info), (''External SBOMs'', ExternalSBOMs info),
      (''Inline signatures'', InlineSignatures info), (''External signatures'', ExternalSignatures info)]"

definition document_lines :: "('w, 'r) images_env \<Rightarrow> string \<times> document \<Rightarrow> string res list" where
  "document_lines E = (\<lambda>(subject, doc).
     let start = ''    '' @ subject @ '' '' @ DocMediaType doc
     in (if DocObject doc = None \<and> length (DocData doc) = 0 then [Inr (start @ '': <none>'')] else []) @
        (case DocObject doc of
           None \<Rightarrow> []
         | Some obj \<Rightarrow>
             [Inr (start @ '':''), rmap (\<lambda>s. ''        '' @ s) (wrap ''failed to marshal output'' (Encode_object E obj))]) @
        (if length (DocData doc) > 0 then [Inr (start @ '': '' @ RawStdEncoding E (DocData doc))] else []))"

definition detail_lines :: "('w, 'r) images_env \<Rightarrow> choices \<Rightarrow> imageInfo \<Rightarrow> string res list" where
  "detail_lines E c info =
     (if length (Related info) > 0
      then Inr ''  Related tags:'' #
        concat (map (\<lambda>(relatedTo, l). map (\<lambda>i. Inr (''   '' @ relatedTo @ ''  '' @ Ref True i)) (items l))
          (gm_range (c 0) (Related info)))
      else []) @
     (if length (RelatedUnclassified info) > 0
      then Inr ''  Related unclassified:'' # map (\<lambda>ref. Inr (''    '' @ ref)) (RelatedUnclassified info)
      else []) @
     concat (map (\<lambda>(k, desc, docset).
         (if length docset = 0 then Inr (''  '' @ desc @ '': <none>'') else Inr (''  '' @ desc @ '':'')) #
         concat (map (document_lines E) (gm_range (c (2 + k)) docset)))
       (List.enumerate 0 (gm_range (c 1) (docsets info))))"

definition print_bool :: "bool \<Rightarrow> string" where
  "print_bool b = (if b then ''true'' else ''false'')"

definition info_lines :: "('w, 'r) images_env \<Rightarrow> string \<Rightarrow> choices \<Rightarrow> imageInfo \<Rightarrow> string res list" where
  "info_lines E fmt c info =
     (if fmt = OutputFormatDirectJSON then [wrap ''failed to marshal output'' (Encode_info E info)]
      else if fmt = OutputFormatText \<or> fmt = OutputFormatDetailedText then
        Inr (iRef info) #
        (case iAlias info of None \<Rightarrow> [] | Some a \<Rightarrow> [Inr (''  Alias: '' @ a)]) @
        [Inr ''  Sources:''] @ map (Inr \<circ> source_line) (iSources info) @
        [Inr (''  Digest provided: '' @ print_bool (DigestProvided info))] @
        (if length (iManifests info) > 0
         then Inr ''  OCI manifests:'' # map imageManifest_line (iManifests info) else []) @
        (if fmt = OutputFormatText
         then map (\<lambda>(desc, docset). Inr (''  '' @ desc @ '': '' @ strconv_Itoa (int (length docset))))
           (gm_range (c 1) (docsets info))
         else detail_lines E c info)
      else [Inl (Fail (UnsupportedOutputFormat fmt))])"

definition images_PrintInfo ::
    "('w, 'r) images_env \<Rightarrow> (nat \<Rightarrow> choices) \<Rightarrow> 'a TapeImagesCommand_scheme \<Rightarrow> images_info \<Rightarrow> printed" where
  "images_PrintInfo E runs c out =
     fold print_line
       (concat (map (\<lambda>(k, _, info). info_lines E (ImagesFormat c) (runs (1 + k)) info)
         (List.enumerate 0 (gm_range (runs 0 0) out))))
       ([], Inr ())"

definition images_Execute ::
    "('w, 'r) images_env \<Rightarrow> (nat \<Rightarrow> choices) \<Rightarrow> (nat \<Rightarrow> choices) \<Rightarrow> 'a TapeImagesCommand_scheme
      \<Rightarrow> string list \<Rightarrow> file_system \<Rightarrow> 'w \<Rightarrow> printed" where
  "images_Execute E runs prints cmd args S w =
     (case if args \<noteq> [] then Inl (Fail UnexpectedArguments)
           else rbind (fst (Init cmd)) (\<lambda>_.
             case Load (images_loader E) (runs 0) (NewRecursiveManifestDirectoryLoader (ImagesManifestDir cmd)) S of
               (Inl e, _) \<Rightarrow> wrap ''failed to load manifests'' (Inl e)
             | (Inr _, l, S') \<Rightarrow>
                 (case RelPaths (runs 1 0) l of (d, manifests) \<Rightarrow>
                    case Scan \<lparr>os_Open = (\<lambda>p. case images_files E S' p of
                                   None \<Rightarrow> Inl (Fail (External p)) | Some s \<Rightarrow> Inr (Inr s, Inr ())),
                                kustomize = images_kio E, scan_Sum = images_Sum E\<rparr>
                           d manifests (NewDefaultImageScanner :: (unit, unit) DefaultImageScanner) of
                      (res, scanner) \<Rightarrow>
                        rbind (wrap ''failed to scan images'' res) (\<lambda>_.
                        wrap ''failed to collect info about images''
                          (images_CollectInfo E runs (GetImages scanner) w)))) of
        Inl f \<Rightarrow> ([], Inl f)
      | Inr out \<Rightarrow>
          (case images_PrintInfo E prints cmd out of (ls, r) \<Rightarrow>
             (ls, wrap ''failed to print info about images'' r)))"

subsection \<open>Maps that are filled entry by entry\<close>

lemma info_of_Some: "gm_get out ref = Some info \<Longrightarrow> info_of out ref = info"
  by (simp add: info_of_def)

text \<open>A loop that replaces the entry of every element, for elements with different keys.\<close>

definition put_entry ::
    "('a \<Rightarrow> string) \<Rightarrow> ('a \<Rightarrow> imageInfo \<Rightarrow> imageInfo res) \<Rightarrow> 'a \<Rightarrow> images_info \<Rightarrow> images_info res" where
  "put_entry key g x out = rbind (g x (info_of out (key x))) (\<lambda>info. Inr (gm_put (key x) info out))"

lemma put_entry_Inr:
  "put_entry key g x out = Inr out' \<longleftrightarrow>
     (\<exists>info. g x (info_of out (key x)) = Inr info \<and> out' = gm_put (key x) info out)"
  by (auto simp: put_entry_def rbind_Inr_conv)

lemma rfold_entries_other:
  "rfold (put_entry key g) xs out = Inr out' \<Longrightarrow> k \<notin> key ` set xs \<Longrightarrow> gm_get out' k = gm_get out k"
  by (induction xs arbitrary: out) (auto simp: rbind_Inr_conv put_entry_Inr gm_get_gm_put)

lemma rfold_entries_keys:
  "rfold (put_entry key g) xs out = Inr out' \<Longrightarrow> fst ` set out' = fst ` set out \<union> key ` set xs"
proof (induction xs arbitrary: out)
  case (Cons x xs)
  then obtain info where "rfold (put_entry key g) xs (gm_put (key x) info out) = Inr out'"
    by (auto simp: rbind_Inr_conv put_entry_Inr)
  from Cons.IH [OF this] show ?case by (simp add: gm_put_def dom_update)
qed simp

lemma rfold_entries:
  assumes "rfold (put_entry key g) xs out = Inr out'" and "distinct (map key xs)" and "x \<in> set xs"
  shows "\<exists>info. g x (info_of out (key x)) = Inr info \<and> gm_get out' (key x) = Some info"
  using assms
proof (induction xs arbitrary: out)
  case (Cons y ys)
  obtain info where info: "g y (info_of out (key y)) = Inr info"
      "rfold (put_entry key g) ys (gm_put (key y) info out) = Inr out'"
    using Cons.prems(1) by (auto simp: rbind_Inr_conv put_entry_Inr)
  show ?case
  proof (cases "x = y")
    case True
    then have "key x \<notin> key ` set ys" using Cons.prems(2) by auto
    with rfold_entries_other [OF info(2)] info(1) True show ?thesis by (simp add: gm_get_gm_put)
  next
    case False
    then have x: "x \<in> set ys" using Cons.prems(3) by simp
    then have "key x \<in> key ` set ys" by simp
    then have "key x \<noteq> key y" using Cons.prems(2) by auto
    then have "info_of (gm_put (key y) info out) (key x) = info_of out (key x)"
      by (simp add: info_of_def gm_get_gm_put)
    then show ?thesis using Cons.IH [OF info(2) _ x] Cons.prems(2) by simp
  qed
qed simp

lemma fold_entries:
  assumes "distinct (map key xs)" and "x \<in> set xs"
  shows "gm_get (fold (\<lambda>x. gm_put (key x) (f x)) xs m) (key x) = Some (f x)"
  using assms
proof (induction xs arbitrary: m)
  case (Cons y ys)
  have other: "k \<notin> key ` set ys \<Longrightarrow> gm_get (fold (\<lambda>x. gm_put (key x) (f x)) ys m) k = gm_get m k" for k m
    by (induction ys arbitrary: m) (auto simp: gm_get_gm_put)
  show ?case
    using Cons other [of "key x" "gm_put (key y) (f y) m"] by (auto simp: gm_get_gm_put)
qed simp

lemma fold_entries_keys: "fst ` set (fold (\<lambda>x. gm_put (key x) (f x)) xs m) = fst ` set m \<union> key ` set xs"
  by (induction xs arbitrary: m) (simp_all add: gm_put_def dom_update)

subsection \<open>Documents of related images\<close>

text \<open>The documents under some references, each as it is got.\<close>

definition filed :: "documents \<Rightarrow> string set \<Rightarrow> (string \<Rightarrow> document res) \<Rightarrow> bool" where
  "filed docs refs got \<longleftrightarrow>
     (\<forall>ref. case gm_get docs ref of None \<Rightarrow> ref \<notin> refs | Some doc \<Rightarrow> ref \<in> refs \<and> got ref = Inr doc)"

lemma filed_put: "filed docs refs got \<Longrightarrow> got ref = Inr doc \<Longrightarrow> filed (gm_put ref doc docs) (insert ref refs) got"
  unfolding filed_def gm_get_gm_put
proof (intro allI)
  fix r
  assume "\<forall>ref. case gm_get docs ref of None \<Rightarrow> ref \<notin> refs | Some doc \<Rightarrow> ref \<in> refs \<and> got ref = Inr doc"
    and got: "got ref = Inr doc"
  then have "case gm_get docs r of None \<Rightarrow> r \<notin> refs | Some doc \<Rightarrow> r \<in> refs \<and> got r = Inr doc" by blast
  with got show "case if r = ref then Some doc else gm_get docs r of None \<Rightarrow> r \<notin> insert ref refs
      | Some doc \<Rightarrow> r \<in> insert ref refs \<and> got r = Inr doc" by (auto split: option.splits)
qed

lemma filed_empty: "filed [] {} got"
  by (simp add: filed_def)

definition with_tag :: "string \<Rightarrow> image set \<Rightarrow> image set" where
  "with_tag sfx rel = {r \<in> rel. strings_HasSuffix (OriginalTag r) sfx}"

text \<open>What is found of the images \<open>rel\<close>, by the suffixes of their tags.\<close>

definition externals :: "('w, 'r) images_env \<Rightarrow> 'w \<Rightarrow> image set \<Rightarrow> imageInfo \<Rightarrow> bool" where
  "externals E w rel info \<longleftrightarrow>
     filed (ExternalAttestations info) (Ref True ` with_tag ''.att'' rel) (\<lambda>ref. external_attestation E ref w)
     \<and> filed (ExternalSBOMs info) (Ref True ` with_tag ''.sbom'' rel) (\<lambda>ref. external_sbom E ref w)
     \<and> filed (ExternalSignatures info) (Ref True ` with_tag ''.sig'' rel) (\<lambda>ref. external_signature E ref w)
     \<and> set (RelatedUnclassified info) = Ref True ` {r \<in> rel. \<not> IsCosignArtifact (OriginalTag r)}"

lemma HasSuffix_last: "strings_HasSuffix s p \<Longrightarrow> p \<noteq> [] \<Longrightarrow> last s = last p"
  by (auto simp: strings_HasSuffix_iff)

lemma suffixes_differ:
  "strings_HasSuffix s ''.att'' \<Longrightarrow> \<not> strings_HasSuffix s ''.sbom''"
  "strings_HasSuffix s ''.att'' \<Longrightarrow> \<not> strings_HasSuffix s ''.sig''"
  "strings_HasSuffix s ''.sbom'' \<Longrightarrow> \<not> strings_HasSuffix s ''.sig''"
  by (auto dest!: HasSuffix_last)

lemma with_tag_insert:
  "with_tag sfx (insert r rel) =
     (if strings_HasSuffix (OriginalTag r) sfx then insert r (with_tag sfx rel) else with_tag sfx rel)"
  by (auto simp: with_tag_def)

definition heading :: "imageInfo \<Rightarrow> string \<times> string option \<times> bool \<times> source list" where
  "heading info = (iRef info, iAlias info, DigestProvided info, iSources info)"

lemma classify_related_externals:
  assumes "classify_related E w r info = Inr info'" and "externals E w rel info"
  shows "externals E w (insert r rel) info'"
    and "heading info' = heading info \<and> iManifests info' = iManifests info
      \<and> InlineSBOMs info' = InlineSBOMs info \<and> InlineAttestations info' = InlineAttestations info"
proof -
  let ?t = "OriginalTag r"
  have neither: "{x \<in> insert r rel. \<not> IsCosignArtifact (OriginalTag x)} =
      (if IsCosignArtifact ?t then {} else {r}) \<union> {x \<in> rel. \<not> IsCosignArtifact (OriginalTag x)}" by auto
  consider (att) "strings_HasSuffix ?t ''.att''" | (sbom) "strings_HasSuffix ?t ''.sbom''" "\<not> strings_HasSuffix ?t ''.att''"
    | (sig) "strings_HasSuffix ?t ''.sig''" "\<not> strings_HasSuffix ?t ''.att''" "\<not> strings_HasSuffix ?t ''.sbom''"
    | (none) "\<not> strings_HasSuffix ?t ''.att''" "\<not> strings_HasSuffix ?t ''.sbom''" "\<not> strings_HasSuffix ?t ''.sig''"
    by blast
  then have "externals E w (insert r rel) info' \<and> heading info' = heading info \<and> iManifests info' = iManifests info
      \<and> InlineSBOMs info' = InlineSBOMs info \<and> InlineAttestations info' = InlineAttestations info"
  proof cases
    case att
    then show ?thesis
      using assms suffixes_differ(1,2) [OF att]
      by (auto simp: classify_related_def Let_def rbind_Inr_conv externals_def with_tag_insert neither
          IsCosignArtifact_def heading_def intro!: filed_put)
  next
    case sbom
    then show ?thesis
      using assms suffixes_differ(3) [OF sbom(1)]
      by (auto simp: classify_related_def Let_def rbind_Inr_conv externals_def with_tag_insert neither
          IsCosignArtifact_def heading_def intro!: filed_put)
  next
    case sig
    then show ?thesis
      using assms
      by (auto simp: classify_related_def Let_def rbind_Inr_conv externals_def with_tag_insert neither
          IsCosignArtifact_def heading_def intro!: filed_put)
  next
    case none
    then show ?thesis
      using assms
      by (auto simp: classify_related_def Let_def externals_def with_tag_insert neither
          IsCosignArtifact_def heading_def)
  qed
  then show "externals E w (insert r rel) info'"
    and "heading info' = heading info \<and> iManifests info' = iManifests info
      \<and> InlineSBOMs info' = InlineSBOMs info \<and> InlineAttestations info' = InlineAttestations info" by blast+
qed

lemma rfold_classify_related:
  assumes "rfold (classify_related E w) rs info = Inr info'" and "externals E w rel info"
  shows "externals E w (rel \<union> set rs) info' \<and> heading info' = heading info \<and> iManifests info' = iManifests info
      \<and> InlineSBOMs info' = InlineSBOMs info \<and> InlineAttestations info' = InlineAttestations info"
  using assms
proof (induction rs arbitrary: info rel)
  case (Cons r rs)
  then obtain info1 where run: "classify_related E w r info = Inr info1"
      "rfold (classify_related E w) rs info1 = Inr info'" by (auto simp: rbind_Inr_conv)
  with classify_related_externals [OF run(1) Cons.prems(2)] Cons.IH [OF run(2)]
  show ?case by (metis Un_insert_left Un_insert_right list.set(2))
qed simp

subsection \<open>Documents in the index of an image\<close>

definition predicate_type :: "ArtefactInfo \<Rightarrow> string option" where
  "predicate_type artefact = gm_get (InfoAnnotations artefact) ''in-toto.io/predicate-type''"

text \<open>The subject of an artefact of an index, with its document.\<close>

definition inline_entry :: "('w, 'r) images_env \<Rightarrow> ArtefactInfo \<Rightarrow> (string \<times> document) res" where
  "inline_entry E artefact =
     rbind (wrap ''failed to unmarshal attestation''
              (rbind (images_Decode E (Content artefact)) read_statement)) (\<lambda>statement.
     rmap (\<lambda>subject. (subject, \<lparr>DocMediaType = InfoMediaType artefact, DocData = [],
              DocObject = Some (ObjStatement statement)\<rparr>))
       (inline_subject artefact statement))"

text \<open>Documents that are those of the artefacts with some predicate types, by their subjects.\<close>

definition inlined :: "('w, 'r) images_env \<Rightarrow> (string \<Rightarrow> bool) \<Rightarrow> ArtefactInfo set \<Rightarrow> documents \<Rightarrow> bool" where
  "inlined E P as docs \<longleftrightarrow>
     (\<forall>subject doc. gm_get docs subject = Some doc \<longleftrightarrow>
        (\<exists>a\<in>as. inline_entry E a = Inr (subject, doc) \<and> (\<exists>t. predicate_type a = Some t \<and> P t)))"

lemma inlined_empty: "inlined E P {} []"
  by (simp add: inlined_def)

lemma inlined_put:
  assumes "inlined E P as docs" and "inline_entry E a = Inr (subject, doc)"
    and "predicate_type a = Some t" and "P t" and "gm_get docs subject = None"
  shows "inlined E P (insert a as) (gm_put subject doc docs)"
proof -
  have "\<not> (inline_entry E b = Inr (subject, d) \<and> (\<exists>t. predicate_type b = Some t \<and> P t))" if "b \<in> as" for b d
    using assms(1,5) that unfolding inlined_def by (metis option.distinct(1))
  then show ?thesis
    using assms unfolding inlined_def gm_get_gm_put by auto
qed

lemma inlined_skip:
  "inlined E P as docs \<Longrightarrow> (\<And>t. predicate_type a = Some t \<Longrightarrow> \<not> P t) \<Longrightarrow> inlined E P (insert a as) docs"
  unfolding inlined_def by auto

definition inlines :: "('w, 'r) images_env \<Rightarrow> ArtefactInfo set \<Rightarrow> imageInfo \<Rightarrow> bool" where
  "inlines E as info \<longleftrightarrow>
     inlined E (\<lambda>t. t = SPDX_predicate) as (InlineSBOMs info)
     \<and> inlined E (\<lambda>t. t \<noteq> SPDX_predicate) as (InlineAttestations info)"

text \<open>What collecting from an index does not touch.\<close>

definition outside :: "imageInfo \<Rightarrow> imageInfo" where
  "outside info = info\<lparr>iManifests := [], InlineSBOMs := [], InlineAttestations := []\<rparr>"

lemma add_inline_Inr:
  assumes "add_inline E a info = Inr info'" and "inlines E as info"
  shows "inlines E (insert a as) info' \<and> outside info' = outside info \<and> iManifests info' = iManifests info"
proof -
  obtain statement subject where read:
    "wrap ''failed to unmarshal attestation'' (rbind (images_Decode E (Content a)) read_statement) = Inr statement"
    "inline_subject a statement = Inr subject"
    using assms(1) unfolding add_inline_def by (auto simp: rbind_Inr_conv)
  let ?doc = "\<lparr>DocMediaType = InfoMediaType a, DocData = [], DocObject = Some (ObjStatement statement)\<rparr>"
  have run: "inline_entry E a = Inr (subject, ?doc)" using read by (simp add: inline_entry_def)
  note step = assms(1) [unfolded add_inline_def read rbind.simps Let_def predicate_type_def [symmetric]]
  consider (none) "predicate_type a = None" | (sbom) "predicate_type a = Some SPDX_predicate"
    | (att) t where "predicate_type a = Some t" "t \<noteq> SPDX_predicate" by (cases "predicate_type a") auto
  then show ?thesis
  proof cases
    case none
    then show ?thesis using step assms(2) by (auto simp: inlines_def intro: inlined_skip)
  next
    case sbom
    then have "gm_get (InlineSBOMs info) subject = None"
        "info' = info\<lparr>InlineSBOMs := gm_put subject ?doc (InlineSBOMs info)\<rparr>"
      using step by (auto split: if_splits)
    with sbom run assms(2) show ?thesis
      by (auto simp: inlines_def outside_def intro: inlined_skip inlined_put)
  next
    case att
    then have "gm_get (InlineAttestations info) subject = None"
        "info' = info\<lparr>InlineAttestations := gm_put subject ?doc (InlineAttestations info)\<rparr>"
      using step by (auto split: if_splits)
    with att run assms(2) show ?thesis
      by (auto simp: inlines_def outside_def intro: inlined_skip inlined_put)
  qed
qed

lemma rfold_add_inline:
  assumes "rfold (add_inline E) rs info = Inr info'" and "inlines E as info"
  shows "inlines E (as \<union> set rs) info' \<and> outside info' = outside info \<and> iManifests info' = iManifests info"
  using assms
proof (induction rs arbitrary: info as)
  case (Cons r rs)
  then obtain info1 where run: "add_inline E r info = Inr info1" "rfold (add_inline E) rs info1 = Inr info'"
    by (auto simp: rbind_Inr_conv)
  have step: "inlines E (insert r as) info1" "outside info1 = outside info" "iManifests info1 = iManifests info"
    using add_inline_Inr [OF run(1) Cons.prems(2)] by auto
  from Cons.IH [OF run(2) step(1)] step(2,3) show ?case by simp
qed simp

subsection \<open>The callback, and the images it is called on\<close>

definition inspect_entry ::
    "('w, 'r) images_env \<Rightarrow> v1_ImageIndex option \<Rightarrow> IndexManifest \<Rightarrow> imageInfo \<Rightarrow> imageInfo res" where
  "inspect_entry E imageIndex im info =
     rbind (wrap ''failed to fetch inline attestation''
              (FetchFromIndexOrImage imageIndex (Some im) None [''application/vnd.in-toto+json''])) (\<lambda>(artefacts, _).
     rfold (add_inline E) artefacts (info\<lparr>iManifests := iManifests info @ map as_imageManifest (Manifests im)\<rparr>))"

lemma inspectManifest_Some:
  "(\<lambda>(img, imageIndex, im). inspectManifest E img imageIndex (Some im)) =
     put_entry (\<lambda>(img, _). Ref True img) (\<lambda>(img, imageIndex, im). inspect_entry E imageIndex im)"
proof (intro ext)
  fix x :: "image \<times> v1_ImageIndex option \<times> IndexManifest" and out
  obtain img imageIndex im where x: "x = (img, imageIndex, im)" by (cases x)
  show "(case x of (img, imageIndex, im) \<Rightarrow> inspectManifest E img imageIndex (Some im)) out =
      put_entry (\<lambda>(img, _). Ref True img) (\<lambda>(img, imageIndex, im). inspect_entry E imageIndex im) x out"
    unfolding x prod.case inspectManifest_def option.case put_entry_def inspect_entry_def Let_def
    by (cases "wrap ''failed to fetch inline attestation''
          (FetchFromIndexOrImage imageIndex (Some im) None [''application/vnd.in-toto+json''])")
      (auto split: prod.split)
qed

lemma find_manifests_callback:
  "find_manifests R w (Some f) i (l, s) = Inr (l', s') \<longleftrightarrow>
     (\<exists>ii im x. GetIndexOrImage R (Ref True i) w = Inr (ii, Some im, x) \<and> f i ii (Some im) s = Inr s'
        \<and> find_manifests R w None i (l, ()) = Inr (l', ()))"
proof (cases "GetIndexOrImage R (Ref True i) w")
  case (Inr r)
  obtain ii im x where r: "r = (ii, im, x)" by (cases r)
  show ?thesis
    by (cases im) (auto simp: find_manifests_def Inr r rbind_Inr_conv)
qed (simp add: find_manifests_def)

lemma rfold_find_manifests_callback:
  assumes "rfold (find_manifests R w (Some f)) is (l, s) = Inr (l', s')"
  shows "\<exists>xs. map fst xs = is \<and> (\<forall>(i, ii, im)\<in>set xs. \<exists>x. GetIndexOrImage R (Ref True i) w = Inr (ii, Some im, x))
    \<and> rfold (\<lambda>(i, ii, im). f i ii (Some im)) xs s = Inr s'
    \<and> rfold (find_manifests R w None) is (l, ()) = Inr (l', ())"
  using assms
proof (induction "is" arbitrary: l s)
  case (Cons i "is")
  then obtain l1 s1 where run: "find_manifests R w (Some f) i (l, s) = Inr (l1, s1)"
      "rfold (find_manifests R w (Some f)) is (l1, s1) = Inr (l', s')"
    by (auto simp: rbind_Inr_conv)
  obtain ii im x where one: "GetIndexOrImage R (Ref True i) w = Inr (ii, Some im, x)" "f i ii (Some im) s = Inr s1"
      "find_manifests R w None i (l, ()) = Inr (l1, ())"
    using run(1) unfolding find_manifests_callback by blast
  obtain xs where xs: "map fst xs = is" "\<forall>(i, ii, im)\<in>set xs. \<exists>x. GetIndexOrImage R (Ref True i) w = Inr (ii, Some im, x)"
      "rfold (\<lambda>(i, ii, im). f i ii (Some im)) xs s1 = Inr s'"
      "rfold (find_manifests R w None) is (l1, ()) = Inr (l', ())"
    using Cons.IH [OF run(2)] by blast
  show ?case by (rule exI [of _ "(i, ii, im) # xs"]) (use one xs in auto)
qed simp

subsection \<open>Gathering related images\<close>

text \<open>What a list holds that is related to a reference.\<close>

definition tagged :: "ImageList \<Rightarrow> string \<Rightarrow> image set" where
  "tagged l ref = {i. \<exists>k. (k, ref) \<in> set (relationEntries l) \<and> GetItemByRef k l = Some i}"

lemma set_CollectRelatedToRef: "set (items (CollectRelatedToRef ord ref l)) = tagged l ref"
  unfolding items_CollectRelatedToRef List.map_filter_def RelatedTo_def tagged_def by force

lemma set_RelatedTo: "set (RelatedTo ord ref l) = {k. (k, ref) \<in> set (relationEntries l)}"
  unfolding RelatedTo_def by force

definition related_images :: "imageInfo \<Rightarrow> image set" where
  "related_images info = (\<Union>(ref, l)\<in>set (Related info). set (items l))"

lemma put_related_images:
  assumes "ref \<notin> fst ` set (Related info)"
  shows "related_images (put_related ref l info) = related_images info \<union> set (items l)"
    and "fst ` set (Related (put_related ref l info)) \<subseteq> insert ref (fst ` set (Related info))"
proof -
  have "gm_put ref l (Related info) = Related info @ [(ref, l)]"
    using assms by (intro gm_put_fresh) (simp add: gm_get_None_iff)
  then show "related_images (put_related ref l info) = related_images info \<union> set (items l)"
    and "fst ` set (Related (put_related ref l info)) \<subseteq> insert ref (fst ` set (Related info))"
    by (auto simp: related_images_def put_related_def Len_def)
qed

lemma fold_put_related_images:
  assumes "distinct (map snd xs)" and "snd ` set xs \<inter> fst ` set (Related info) = {}"
  shows "related_images (fold (\<lambda>(k, ref). put_related ref (f k ref)) xs info) =
    related_images info \<union> (\<Union>(k, ref)\<in>set xs. set (items (f k ref)))"
  using assms
proof (induction xs arbitrary: info)
  case (Cons x xs)
  obtain k ref where x: "x = (k, ref)" by (cases x)
  let ?info = "put_related ref (f k ref) info"
  have fresh: "ref \<notin> fst ` set (Related info)" using Cons.prems(2) by (auto simp: x)
  have dist: "distinct (map snd xs)" "ref \<notin> snd ` set xs" using Cons.prems(1) by (simp_all add: x)
  have "snd ` set xs \<inter> fst ` set (Related info) = {}" using Cons.prems(2) by (simp add: x)
  then have "snd ` set xs \<inter> insert ref (fst ` set (Related info)) = {}" using dist(2) by simp
  then have "snd ` set xs \<inter> fst ` set (Related ?info) = {}"
    using put_related_images(2) [OF fresh, of "f k ref"] by blast
  note rest = Cons.IH [OF dist(1) this]
  show ?case
    unfolding x fold_simps prod.case rest put_related_images(1) [OF fresh] list.set by auto
qed simp

lemma put_related_only: "\<exists>r. put_related ref l info = info\<lparr>Related := r\<rparr>"
  unfolding put_related_def by (cases "Len l > 0") (auto intro: exI [of _ "Related info"])

lemma fold_put_related_only: "\<exists>r. fold (\<lambda>(k, ref). put_related ref (f k ref)) xs info = info\<lparr>Related := r\<rparr>"
proof (induction xs arbitrary: info)
  case Nil
  show ?case by (rule exI [of _ "Related info"]) simp
next
  case (Cons x xs)
  obtain k ref where x: "x = (k, ref)" by (cases x)
  obtain r where "put_related ref (f k ref) info = info\<lparr>Related := r\<rparr>" using put_related_only by blast
  with Cons.IH [of "info\<lparr>Related := r\<rparr>"] show ?case by (auto simp: x)
qed

lemma gather_related_only: "\<exists>r. gather_related c related manifests rm ref info = info\<lparr>Related := r\<rparr>"
proof -
  obtain r where r: "put_related ref (CollectRelatedToRef (c 0) ref related) info = info\<lparr>Related := r\<rparr>"
    using put_related_only by blast
  then show ?thesis
    using fold_put_related_only [of "\<lambda>k ref. CollectRelatedToRef (c (3 + k)) ref rm"
        "List.enumerate 0 (RelatedTo (c 1) ref manifests)" "info\<lparr>Related := r\<rparr>"]
    by (auto simp: gather_related_def)
qed

lemma gather_related_images:
  assumes "Related info = []" and "distinct (map fst (relationEntries manifests))"
    and "(ref, ref) \<notin> set (relationEntries manifests)"
  shows "related_images (gather_related c related manifests rm ref info) =
    tagged related ref \<union> (\<Union>m\<in>{m. (m, ref) \<in> set (relationEntries manifests)}. tagged rm m)"
proof -
  let ?info = "put_related ref (CollectRelatedToRef (c 0) ref related) info"
  let ?ms = "RelatedTo (c 1) ref manifests"
  have first: "related_images ?info = tagged related ref" "fst ` set (Related ?info) \<subseteq> {ref}"
    using put_related_images [of ref info] assms(1)
    by (auto simp: related_images_def set_CollectRelatedToRef)
  have "distinct ?ms"
    using assms(2) unfolding RelatedTo_def gm_range_def
    by (intro distinct_map_filter) (simp add: map_shuffle)
  then have ms: "distinct (map snd (List.enumerate 0 ?ms))" by simp
  have "snd ` set (List.enumerate 0 ?ms) = set ?ms" by (metis list.set_map map_snd_enumerate)
  then have "snd ` set (List.enumerate 0 ?ms) \<inter> fst ` set (Related ?info) = {}"
    using assms(3) first(2) by (auto simp: set_RelatedTo)
  note gathered = fold_put_related_images [OF ms this, of "\<lambda>k m. CollectRelatedToRef (c (3 + k)) m rm"]
  have "(\<Union>(k, m)\<in>set (List.enumerate 0 ?ms). set (items (CollectRelatedToRef (c (3 + k)) m rm))) =
      (\<Union>m\<in>snd ` set (List.enumerate 0 ?ms). tagged rm m)"
    unfolding set_CollectRelatedToRef by force
  also have "\<dots> = (\<Union>m\<in>{m. (m, ref) \<in> set (relationEntries manifests)}. tagged rm m)"
    unfolding \<open>snd ` set (List.enumerate 0 ?ms) = set ?ms\<close> set_RelatedTo ..
  finally show ?thesis unfolding gather_related_def gathered first(1) by simp
qed

subsection \<open>What is collected\<close>

text \<open>The images that are looked up: pinned and deduplicated, with what is related to them.\<close>

definition looked_up ::
    "('w, 'r) images_env \<Rightarrow> (nat \<Rightarrow> choices) \<Rightarrow> ImageList \<Rightarrow> 'w \<Rightarrow> ImageList \<Rightarrow> ImageList \<Rightarrow> ImageList
      \<Rightarrow> ImageList \<Rightarrow> bool" where
  "looked_up E runs images w images' related manifests rm \<longleftrightarrow>
     (case ResolveDigests (images_registry E) images w of (res, resolved) \<Rightarrow>
        res = Inr () \<and> Dedup (runs 2) resolved = Inr images')
     \<and> FindRelatedTags (images_registry E) (runs 3) images' w = Inr related
     \<and> FindRelatedFromIndecies (images_registry E) (runs 4) images' None w () = Inr (manifests, rm, ())"

definition collect_entry ::
    "('w, 'r) images_env \<Rightarrow> (nat \<Rightarrow> choices) \<Rightarrow> ImageList \<Rightarrow> ImageList \<Rightarrow> ImageList \<Rightarrow> 'w \<Rightarrow> nat \<times> image
      \<Rightarrow> imageInfo \<Rightarrow> imageInfo res" where
  "collect_entry E runs related manifests rm w = (\<lambda>(k, img) info.
     let info = gather_related (runs (5 + k)) related manifests rm (Ref True img) info
     in rfold (classify_related E w) (concat (map (items \<circ> snd) (gm_range (runs (5 + k) 2) (Related info)))) info)"

lemma collect_image_entries:
  "(\<lambda>(k, img). collect_image E (runs (5 + k)) related manifests rm w img) =
     put_entry (\<lambda>(k, img). Ref True img) (collect_entry E runs related manifests rm w)"
  by (auto simp: fun_eq_iff collect_image_def put_entry_def collect_entry_def Let_def)

lemma images_CollectInfo_Inr:
  assumes "images_CollectInfo E runs images w = Inr out"
    and "looked_up E runs images w images' related manifests rm"
  obtains xs out1 where
    "map fst xs = items images'"
    "\<forall>(i, ii, im)\<in>set xs. \<exists>x. GetIndexOrImage (images_registry E) (Ref True i) w = Inr (ii, Some im, x)"
    "rfold (put_entry (\<lambda>(i, _). Ref True i) (\<lambda>(i, ii, im). inspect_entry E ii im)) xs
       (fold (\<lambda>i. gm_put (Ref True i) (new_info (filter (\<lambda>d. d \<noteq> []) (map Digest (items images))) i))
         (items images') []) = Inr out1"
    "rfold (put_entry (\<lambda>(k, i). Ref True i) (collect_entry E runs related manifests rm w))
       (List.enumerate 0 (items images')) out1 = Inr out"
    "distinct (map fst (relationEntries manifests))"
proof -
  let ?R = "images_registry E"
  let ?out = "fold (\<lambda>i. gm_put (Ref True i) (new_info (filter (\<lambda>d. d \<noteq> []) (map Digest (items images))) i))
    (items images') []"
  obtain resolved where resolved: "ResolveDigests ?R images w = (Inr (), resolved)" "Dedup (runs 2) resolved = Inr images'"
    using assms(2) by (auto simp: looked_up_def split: prod.splits)
  have related: "FindRelatedTags ?R (runs 3) images' w = Inr related"
      "FindRelatedFromIndecies ?R (runs 4) images' None w () = Inr (manifests, rm, ())"
    using assms(2) by (auto simp: looked_up_def)
  obtain ms rm' out1 where indecies:
      "FindRelatedFromIndecies ?R (runs 4) images' (Some (inspectManifest E)) w ?out = Inr (ms, rm', out1)"
      "rfold (\<lambda>(k, img). collect_image E (runs (5 + k)) related ms rm' w img) (List.enumerate 0 (items images')) out1 = Inr out"
    using assms(1) by (auto simp: images_CollectInfo_def resolved related(1) Let_def rbind_Inr_conv)
  have found: "rfold (find_manifests ?R w (Some (inspectManifest E))) (items images') (NewImageList (dir images'), ?out) =
        Inr (ms, out1)" "FindRelatedTags ?R (runs 4) ms w = Inr rm'"
    using indecies(1) by (auto simp: FindRelatedFromIndecies_def rbind_Inr_conv)
  obtain xs where xs: "map fst xs = items images'"
      "\<forall>(i, ii, im)\<in>set xs. \<exists>x. GetIndexOrImage ?R (Ref True i) w = Inr (ii, Some im, x)"
      "rfold (\<lambda>(i, ii, im). inspectManifest E i ii (Some im)) xs ?out = Inr out1"
      "rfold (find_manifests ?R w None) (items images') (NewImageList (dir images'), ()) = Inr (ms, ())"
    using rfold_find_manifests_callback [OF found(1)] by blast
  have "manifests = ms" "rm' = rm"
    using related(2) xs(4) found(2) by (auto simp: FindRelatedFromIndecies_def rbind_Inr_conv)
  moreover obtain ps where "rfold (\<lambda>(t, i). AppendWithRelationTo t i) ps (NewImageList (dir images')) = Inr ms"
    using xs(4) unfolding rfold_find_manifests by blast
  then have "distinct (map fst (relationEntries ms))"
    unfolding rfold_AppendWithRelationTo_iff by (auto simp: comp_def case_prod_unfold)
  ultimately show ?thesis
    using that [OF xs(1,2) xs(3) [unfolded inspectManifest_Some]] indecies(2)
    by (simp add: collect_image_entries)
qed

lemma inspect_entry_Inr:
  assumes "inspect_entry E ii im info = Inr info'" and "inlines E {} info"
  shows "\<exists>as ms. FetchFromIndexOrImage ii (Some im) None [''application/vnd.in-toto+json''] = Inr (as, ms)
    \<and> inlines E (set as) info' \<and> outside info' = outside info
    \<and> iManifests info' = iManifests info @ map as_imageManifest (Manifests im)"
proof -
  obtain as ms where run:
      "FetchFromIndexOrImage ii (Some im) None [''application/vnd.in-toto+json''] = Inr (as, ms)"
      "rfold (add_inline E) as (info\<lparr>iManifests := iManifests info @ map as_imageManifest (Manifests im)\<rparr>) = Inr info'"
    using assms(1) by (auto simp: inspect_entry_def rbind_Inr_conv)
  have "inlines E {} (info\<lparr>iManifests := iManifests info @ map as_imageManifest (Manifests im)\<rparr>)"
    using assms(2) by (simp add: inlines_def)
  from rfold_add_inline [OF run(2) this] run(1) show ?thesis by (simp add: outside_def)
qed

lemma collect_entry_Inr:
  assumes "collect_entry E runs related manifests rm w (k, i) info = Inr info'"
    and "Related info = []" and "externals E w {} info"
    and "distinct (map fst (relationEntries manifests))" and "(Ref True i, Ref True i) \<notin> set (relationEntries manifests)"
  shows "externals E w (tagged related (Ref True i) \<union> (\<Union>m\<in>{m. (m, Ref True i) \<in> set (relationEntries manifests)}. tagged rm m)) info'
    \<and> heading info' = heading info \<and> iManifests info' = iManifests info
    \<and> InlineSBOMs info' = InlineSBOMs info \<and> InlineAttestations info' = InlineAttestations info"
proof -
  let ?g = "gather_related (runs (5 + k)) related manifests rm (Ref True i) info"
  obtain r where r: "?g = info\<lparr>Related := r\<rparr>" using gather_related_only by blast
  have run: "rfold (classify_related E w) (concat (map (items \<circ> snd) (gm_range (runs (5 + k) 2) (Related ?g)))) ?g = Inr info'"
    using assms(1) by (simp add: collect_entry_def Let_def)
  have "externals E w {} ?g" using assms(3) by (simp add: r externals_def)
  note found = rfold_classify_related [OF run this]
  have "set (concat (map (items \<circ> snd) (gm_range (runs (5 + k) 2) (Related ?g)))) = related_images ?g"
    by (auto simp: related_images_def)
  then show ?thesis
    using found gather_related_images [OF assms(2,4,5), of "runs (5 + k)" related rm]
    by (simp add: r heading_def)
qed

subsection \<open>A run on an example\<close>

text \<open>
  An image with an index of two manifests, of which one has an SBOM, a signature without a bundle, and
  another tag that begins like the tag of the signature.
\<close>

definition pics_layer :: "string \<Rightarrow> string \<Rightarrow> v1_Image" where
  "pics_layer mediaType digest =
     \<lparr>ImageManifest = Inr \<lparr>ConfigMediaType = [],
        Layers = [\<lparr>MediaType = mediaType, DescriptorSize = 2, DescriptorDigest = ''sha256:ee'',
                   ArtifactType = [], DescriptorPlatform = None, DescriptorAnnotations = []\<rparr>],
        ManifestAnnotations =
          [(''vnd.docker.reference.type'', ''attestation-manifest''), (''vnd.docker.reference.digest'', ''sha256:bb''),
           (''in-toto.io/predicate-type'', SPDX_predicate)]\<rparr>,
      ImageDigest = Inr digest,
      LayerByDigest = (\<lambda>_. Inr \<lparr>LayerDigest = ''sha256:ee'', LayerMediaType = mediaType, LayerSize = 2,
        Compressed = Inr ''{}''\<rparr>)\<rparr>"

definition pics_platform :: "Platform option \<Rightarrow> Descriptor" where
  "pics_platform p =
     \<lparr>MediaType = ''m'', DescriptorSize = 7, DescriptorDigest = ''sha256:bb'', ArtifactType = [],
      DescriptorPlatform = p, DescriptorAnnotations = []\<rparr>"

definition pics_index :: v1_ImageIndex where
  "pics_index =
     \<lparr>get_IndexManifest = Inr \<lparr>Manifests =
        [pics_platform (Some \<lparr>Architecture = ''arm64'', OS = ''linux'', OSVersion = [], Variant = []\<rparr>),
         (pics_platform None)\<lparr>DescriptorDigest := ''sha256:cc'', ArtifactType := ''application/vnd.in-toto+json''\<rparr>],
        IndexAnnotations = []\<rparr>,
      IndexDigest = Inr ''sha256:aa'',
      IndexImage = (\<lambda>_. Inr (pics_layer ''application/vnd.in-toto+json'' ''sha256:cc''))\<rparr>"

definition pics_registry :: memory where
  "pics_registry =
     (let signature = StoredImage (pics_layer ''application/vnd.dev.cosign.simplesigning.v1+json'' ''sha256:dd'')
      in \<lparr>Tags = [(''a.io/web:1'', StoredIndex pics_index), (''a.io/web:sha256-aa.sig'', signature),
                  (''a.io/web:sha256-aa-old'', signature)],
          Blobs = [(''sha256:aa'', StoredIndex pics_index), (''sha256:dd'', signature)]\<rparr>)"

definition pics_env :: "(memory, string) images_env" where
  "pics_env =
     \<lparr>images_loader = sample_loader_env, images_files = (\<lambda>_ _. None), images_kio = sample_kio, images_Sum = (\<lambda>s. s),
      images_registry = mem_remote, images_Decode = (\<lambda>_. Inr (JObject [])),
      images_base64_json = (\<lambda>_. Inr JNull), base64_Decode = Inr, RawStdEncoding = (\<lambda>s. s),
      certificates = (\<lambda>_. Inr []), Encode_info = (\<lambda>_. Inr []), Encode_object = (\<lambda>_. Inr ''{}'')\<rparr>"

definition pics_source :: source where
  "pics_source = \<lparr>Manifest = ''a.yaml'', ManifestDigest = ''m'', Line = 1, Column = 2, NodePath = [],
     OriginalRef = ''a.io/web:1''\<rparr>"

definition pics_images :: ImageList where
  "pics_images = Append [\<lparr>Sources = [pics_source], OriginalName = ''a.io/web'', OriginalTag = ''1'', Digest = [],
     NewName = [], NewTag = [], Alias = None\<rparr>] (NewImageList ''d'')"

abbreviation pics_runs :: "nat \<Rightarrow> choices" where
  "pics_runs \<equiv> (\<lambda>_ _. in_order)"

definition pics_deduped :: ImageList where
  "pics_deduped =
     \<lparr>items = [\<lparr>Sources = [pics_source], OriginalName = ''a.io/web'', OriginalTag = ''1'', Digest = ''sha256:aa'',
        NewName = [], NewTag = [], Alias = Some ''web''\<rparr>],
      dir = ''d'', deduped = True, relationEntries = []\<rparr>"

abbreviation pics_ref :: string where
  "pics_ref \<equiv> ''a.io/web:1@sha256:aa''"

definition pics_related :: ImageList where
  "pics_related =
     \<lparr>items =
        [located_image ''a.io/web:sha256-aa.sig'' ''a.io/web'' ''sha256-aa.sig'' ''sha256:dd''\<lparr>Alias := Some ''web''\<rparr>,
         located_image ''a.io/web:sha256-aa-old'' ''a.io/web'' ''sha256-aa-old'' ''sha256:dd''\<lparr>Alias := Some ''web''\<rparr>],
      dir = ''d'', deduped = True,
      relationEntries = [(''a.io/web:sha256-aa.sig@sha256:dd'', pics_ref),
                         (''a.io/web:sha256-aa-old@sha256:dd'', pics_ref)]\<rparr>"

definition pics_manifests :: ImageList where
  "pics_manifests =
     \<lparr>items = [located_image ''a.io/web'' ''a.io/web'' [] ''sha256:bb'',
               located_image ''a.io/web'' ''a.io/web'' [] ''sha256:cc''],
      dir = ''d'', deduped = False,
      relationEntries = [(''a.io/web@sha256:bb'', pics_ref), (''a.io/web@sha256:cc'', pics_ref)]\<rparr>"

definition pics_collected :: "images_info res" where
  "pics_collected = images_CollectInfo pics_env pics_runs pics_images pics_registry"

lemma pics_looked_up:
  "looked_up pics_env pics_runs pics_images pics_registry pics_deduped pics_related pics_manifests
     \<lparr>items = [], dir = ''d'', deduped = True, relationEntries = []\<rparr>"
  by code_simp

lemma pics_collected_ok: "\<not> isl pics_collected"
  by code_simp

subsection \<open>Properties of the command\<close>

text \<open>
  C38: when collecting succeeds, the output has one entry for every image that was looked up, and the
  entry of an image is complete: its reference, alias, places, and whether its digest was given in
  the manifests; all manifests of its index; the SBOMs and the other attestations that the index
  holds, each under its subject; and of all tags that are related to the image or to one of its
  manifests the attestation, the SBOM or the signature, by the suffix of the tag, and exactly the
  tags without such a suffix as unclassified.
\<close>

theorem Images_reports_images:
  assumes "images_CollectInfo E runs images w = Inr out"
    and "looked_up E runs images w images' related manifests rm"
    and "distinct (map (Ref True) (items images'))"
    and "i \<in> set (items images')"
    and "(Ref True i, Ref True i) \<notin> set (relationEntries manifests)"
  shows "fst ` set out = Ref True ` set (items images') \<and>
    (\<exists>info ii im x as ms.
       gm_get out (Ref True i) = Some info
       \<and> heading info = (Ref True i, Alias i, Digest i \<noteq> [] \<and> Digest i \<in> Digest ` set (items images), Sources i)
       \<and> GetIndexOrImage (images_registry E) (Ref True i) w = Inr (ii, Some im, x)
       \<and> iManifests info = map as_imageManifest (Manifests im)
       \<and> FetchFromIndexOrImage ii (Some im) None [''application/vnd.in-toto+json''] = Inr (as, ms)
       \<and> inlines E (set as) info
       \<and> externals E w (tagged related (Ref True i) \<union>
           (\<Union>m\<in>{m. (m, Ref True i) \<in> set (relationEntries manifests)}. tagged rm m)) info)"
proof -
  let ?wd = "filter (\<lambda>d. d \<noteq> []) (map Digest (items images))"
  let ?out = "fold (\<lambda>i. gm_put (Ref True i) (new_info ?wd i)) (items images') []"
  obtain xs out1 where run: "map fst xs = items images'"
    "\<forall>(i, ii, im)\<in>set xs. \<exists>x. GetIndexOrImage (images_registry E) (Ref True i) w = Inr (ii, Some im, x)"
    "rfold (put_entry (\<lambda>(i, _). Ref True i) (\<lambda>(i, ii, im). inspect_entry E ii im)) xs ?out = Inr out1"
    "rfold (put_entry (\<lambda>(k, i). Ref True i) (collect_entry E runs related manifests rm w))
       (List.enumerate 0 (items images')) out1 = Inr out"
    "distinct (map fst (relationEntries manifests))"
    by (rule images_CollectInfo_Inr [OF assms(1,2)])
  obtain k where k: "(k, i) \<in> set (List.enumerate 0 (items images'))"
    using assms(4) by (metis imageE list.set_map map_snd_enumerate prod.collapse snd_conv)
  obtain ii im where x: "(i, ii, im) \<in> set xs" using assms(4) unfolding run(1) [symmetric] by auto
  have keys: "map (\<lambda>(i, _). Ref True i) xs = map (Ref True) (items images')"
      "map (\<lambda>(k, i). Ref True i) (List.enumerate 0 (items images')) = map (Ref True) (items images')"
  proof -
    show "map (\<lambda>(i, _). Ref True i) xs = map (Ref True) (items images')"
      unfolding run(1) [symmetric] by (simp add: comp_def case_prod_unfold)
    have "map (\<lambda>(k, i). Ref True i) ys = map (Ref True) (map snd ys)" for ys :: "(nat \<times> image) list"
      by (simp add: comp_def case_prod_unfold)
    then show "map (\<lambda>(k, i). Ref True i) (List.enumerate 0 (items images')) = map (Ref True) (items images')"
      by (simp only: map_snd_enumerate)
  qed
  have new: "info_of ?out (Ref True i) = new_info ?wd i"
    by (rule info_of_Some) (rule fold_entries [OF assms(3,4)])
  obtain info1 where info1: "inspect_entry E ii im (new_info ?wd i) = Inr info1" "gm_get out1 (Ref True i) = Some info1"
    using rfold_entries [OF run(3) _ x] assms(3) by (auto simp: keys new)
  obtain info where info: "collect_entry E runs related manifests rm w (k, i) info1 = Inr info"
      "gm_get out (Ref True i) = Some info"
    using rfold_entries [OF run(4) _ k] assms(3) by (auto simp: keys info_of_Some [OF info1(2)])
  have "inlines E {} (new_info ?wd i)" by (simp add: inlines_def new_info_def zero_info_def inlined_empty)
  from inspect_entry_Inr [OF info1(1) this] obtain as ms where inspected:
      "FetchFromIndexOrImage ii (Some im) None [''application/vnd.in-toto+json''] = Inr (as, ms)"
      "inlines E (set as) info1" "outside info1 = outside (new_info ?wd i)"
      "iManifests info1 = map as_imageManifest (Manifests im)"
    by (auto simp: new_info_def zero_info_def)
  have start: "Related info1 = []" "heading info1 = heading (new_info ?wd i)"
      "ExternalAttestations info1 = []" "ExternalSBOMs info1 = []" "ExternalSignatures info1 = []"
      "RelatedUnclassified info1 = []"
    using inspected(3) by (cases info1, simp add: outside_def new_info_def zero_info_def heading_def)+
  have "externals E w {} info1" by (simp add: externals_def start with_tag_def filed_empty)
  note collected = collect_entry_Inr [OF info(1) start(1) this run(5) assms(5)]
  have "heading info = (Ref True i, Alias i, Digest i \<noteq> [] \<and> Digest i \<in> Digest ` set (items images), Sources i)"
    using collected start(2) by (auto simp: heading_def new_info_def zero_info_def)
  moreover have "inlines E (set as) info" using collected inspected(2) by (simp add: inlines_def)
  moreover obtain y where "GetIndexOrImage (images_registry E) (Ref True i) w = Inr (ii, Some im, y)"
    using run(2) x by blast
  moreover have "fst ` set out = Ref True ` set (items images')"
    using rfold_entries_keys [OF run(4)] rfold_entries_keys [OF run(3)] keys [THEN arg_cong, of set]
    by (simp add: fold_entries_keys)
  ultimately show ?thesis using info(2) inspected(1,4) collected by auto
qed

theorem Images_reports_images_witness:
  "\<exists>out info. pics_collected = Inr out \<and> gm_get out pics_ref = Some info
     \<and> heading info = (pics_ref, Some ''web'', False, [pics_source])
     \<and> externals pics_env pics_registry (tagged pics_related pics_ref) info"
proof -
  obtain out where out: "images_CollectInfo pics_env pics_runs pics_images pics_registry = Inr out"
    using pics_collected_ok unfolding pics_collected_def
    by (cases "images_CollectInfo pics_env pics_runs pics_images pics_registry") auto
  let ?i = "hd (items pics_deduped)"
  have i: "?i \<in> set (items pics_deduped)" "Ref True ?i = pics_ref" "Alias ?i = Some ''web''"
      "Digest ?i = ''sha256:aa''" "Sources ?i = [pics_source]"
    by (simp_all add: pics_deduped_def Ref_def)
  have dist: "distinct (map (Ref True) (items pics_deduped))" by (simp add: pics_deduped_def)
  have self: "(Ref True ?i, Ref True ?i) \<notin> set (relationEntries pics_manifests)"
    unfolding i(2) by (simp add: pics_manifests_def)
  have given: "Digest ` set (items pics_images) = {[]}"
    by (simp add: pics_images_def Append_def NewImageList_def)
  have rest: "(\<Union>m\<in>M. tagged \<lparr>items = [], dir = d, deduped = True, relationEntries = []\<rparr> m) = {}" for M d
    by (simp add: tagged_def)
  show ?thesis
    using Images_reports_images [OF out pics_looked_up dist i(1) self] out
    unfolding pics_collected_def i given rest by auto
qed

text \<open>
  C39: every image has to be an index.  For an image whose reference leads to a single image instead,
  collecting never succeeds, and when it is the first image to be inspected, it panics: the callback is
  called without an index manifest and dereferences it.
\<close>

theorem Images_needs_indexes:
  assumes "ResolveDigests (images_registry E) images w = (Inr (), resolved)"
    and "Dedup (runs 2) resolved = Inr images'"
    and "FindRelatedTags (images_registry E) (runs 3) images' w = Inr related"
    and "items images' = is @ i # js"
    and "GetIndexOrImage (images_registry E) (Ref True i) w = Inr (None, None, Some img)"
  shows "\<exists>f. images_CollectInfo E runs images w = Inl f \<and> (is = [] \<longrightarrow> f = Panic NilDereference)"
proof -
  let ?f = "find_manifests (images_registry E) w (Some (inspectManifest E))"
  have i: "?f i s = Inl (Panic NilDereference)" for s
    using assms(5) by (cases s) (simp add: find_manifests_def inspectManifest_def)
  have run: "\<exists>f. rfold ?f (items images') s = Inl f \<and> (is = [] \<longrightarrow> f = Panic NilDereference)" for s
  proof (cases "rfold ?f is s")
    case (Inl f)
    then show ?thesis unfolding assms(4) rfold_append by (cases "is") auto
  next
    case (Inr s')
    then show ?thesis unfolding assms(4) rfold_append by (simp add: i)
  qed
  let ?out = "fold (\<lambda>i. gm_put (Ref True i) (new_info (filter (\<lambda>d. d \<noteq> []) (map Digest (items images))) i))
    (items images') []"
  obtain f where "rfold ?f (items images') (NewImageList (dir images'), ?out) = Inl f"
      "is = [] \<longrightarrow> f = Panic NilDereference"
    using run by blast
  then show ?thesis
    unfolding images_CollectInfo_def Let_def assms(1) prod.case
    by (simp add: assms(2,3) FindRelatedFromIndecies_def)
qed

text \<open>A registry where the reference of the image leads to a plain image.\<close>

definition plain_registry :: memory where
  "plain_registry =
     (let plain = StoredImage (pics_layer ''l'' ''sha256:aa'')
      in \<lparr>Tags = [(''a.io/web:1'', plain)], Blobs = [(''sha256:aa'', plain)]\<rparr>)"

theorem Images_needs_indexes_witness:
  "images_CollectInfo pics_env pics_runs pics_images plain_registry = Inl (Panic NilDereference)"
proof -
  let ?resolved = "snd (ResolveDigests mem_remote pics_images plain_registry)"
  have resolved: "ResolveDigests (images_registry pics_env) pics_images plain_registry = (Inr (), ?resolved)"
    by code_simp
  have deduped: "Dedup (pics_runs 2) ?resolved = Inr pics_deduped" by code_simp
  have related: "FindRelatedTags (images_registry pics_env) (pics_runs 3) pics_deduped plain_registry =
      Inr \<lparr>items = [], dir = ''d'', deduped = True, relationEntries = []\<rparr>"
    by code_simp
  have "items pics_deduped = [] @ hd (items pics_deduped) # []" by (simp add: pics_deduped_def)
  moreover have "GetIndexOrImage (images_registry pics_env) (Ref True (hd (items pics_deduped))) plain_registry =
      Inr (None, None, Some (pics_layer ''l'' ''sha256:aa''))"
    by (simp add: pics_env_def pics_deduped_def Ref_def GetIndexOrImage_def mem_remote_def mem_get_def
        plain_registry_def Let_def found_def gm_get_def OCIImageIndex_def DockerManifestList_def
        pics_layer_def)
  ultimately show ?thesis using Images_needs_indexes [OF resolved deduped related] by blast
qed

lemma print_lines:
  assumes "\<And>l. l \<in> set ls \<Longrightarrow> isl l \<Longrightarrow> l = Inl f"
  shows "snd (fold print_line ls (out, Inr ())) = (if \<exists>l\<in>set ls. isl l then Inl f else Inr ())"
  using assms
proof (induction ls arbitrary: out)
  case (Cons l ls)
  show ?case
  proof (cases l)
    case (Inl g)
    have "fold print_line ls (out, Inl g) = (out, Inl g)" by (induction ls) auto
    then show ?thesis using Cons.prems [of l] Inl by simp
  next
    case (Inr x)
    then show ?thesis using Cons by simp
  qed
qed simp

lemma imageManifest_line_cases:
  "imPlatform m = None \<Longrightarrow> imageManifest_line m = Inl (Panic NilDereference)"
  "imPlatform m \<noteq> None \<Longrightarrow> \<not> isl (imageManifest_line m)"
  by (auto simp: imageManifest_line_def Platform_String_def)

lemma info_lines_text:
  "l \<in> set (info_lines E OutputFormatText ch info) \<and> isl l \<longleftrightarrow>
     l = Inl (Panic NilDereference) \<and> (\<exists>m\<in>set (iManifests info). imPlatform m = None)"
proof -
  have no: "\<not> isl l" if "l \<in> set (map (\<lambda>(desc, docset). Inr (f desc docset)) xs)" for f xs and l :: "string res"
    using that by auto
  have "isl l \<and> l \<in> set (info_lines E OutputFormatText ch info) \<longleftrightarrow>
      isl l \<and> l \<in> imageManifest_line ` set (iManifests info)"
    using no by (cases "iManifests info = []") (auto simp: info_lines_def split: option.splits)
  then show ?thesis using imageManifest_line_cases by (metis (no_types, lifting) image_iff isl_def)
qed

text \<open>
  C40: printed as short text, the output is complete exactly when every manifest of every index has a
  platform, whatever the order in which the images and documents are visited: for a manifest without
  one, which is what an index may hold for an attestation, the command panics in the middle of its
  output.
\<close>

theorem Images_text_needs_platforms:
  assumes "ImagesFormat c = OutputFormatText"
  shows "snd (images_PrintInfo E runs c out) =
    (if \<exists>(ref, info)\<in>set out. \<exists>m\<in>set (iManifests info). imPlatform m = None
     then Inl (Panic NilDereference) else Inr ())"
proof -
  let ?entries = "List.enumerate 0 (gm_range (runs 0 0) out)"
  let ?lines = "\<lambda>(k, _, info). info_lines E OutputFormatText (runs (1 + k)) info"
  let ?bad = "\<lambda>info. \<exists>m\<in>set (iManifests info). imPlatform m = None"
  have faults: "l \<in> set (concat (map ?lines ?entries)) \<and> isl l \<longleftrightarrow>
      l = Inl (Panic NilDereference) \<and> (\<exists>x\<in>set ?entries. ?bad (snd (snd x)))" for l
  proof -
    have "l \<in> set (concat (map ?lines ?entries)) \<and> isl l \<longleftrightarrow> (\<exists>x\<in>set ?entries. l \<in> set (?lines x) \<and> isl l)"
      by auto
    also have "\<dots> \<longleftrightarrow> (\<exists>x\<in>set ?entries. l = Inl (Panic NilDereference) \<and> ?bad (snd (snd x)))"
      unfolding case_prod_unfold info_lines_text ..
    finally show ?thesis by blast
  qed
  have "snd (images_PrintInfo E runs c out) =
      (if \<exists>l\<in>set (concat (map ?lines ?entries)). isl l then Inl (Panic NilDereference) else Inr ())"
    unfolding images_PrintInfo_def assms using faults by (intro print_lines) blast
  moreover have "(\<exists>l\<in>set (concat (map ?lines ?entries)). isl l) \<longleftrightarrow> (\<exists>x\<in>set ?entries. ?bad (snd (snd x)))"
    using faults by blast
  moreover have "snd ` set ?entries = set out"
    by (metis list.set_map map_snd_enumerate set_gm_range)
  then have "(\<exists>x\<in>set ?entries. ?bad (snd (snd x))) \<longleftrightarrow> (\<exists>y\<in>set out. ?bad (snd y))"
    by (metis (no_types, lifting) image_iff)
  ultimately show ?thesis by (simp add: case_prod_unfold)
qed

definition pics_command :: TapeImagesCommand where
  "pics_command = \<lparr>LogLevel = ''info'', tape_log = None, ImagesFormat = OutputFormatText, ImagesManifestDir = ''d''\<rparr>"

theorem Images_text_needs_platforms_witness:
  "case pics_collected of Inl _ \<Rightarrow> False
   | Inr out \<Rightarrow> snd (images_PrintInfo pics_env pics_runs pics_command out) = Inl (Panic NilDereference)"
proof -
  have "case pics_collected of Inl _ \<Rightarrow> False
      | Inr out \<Rightarrow> list_ex (\<lambda>(_, info). list_ex (\<lambda>m. imPlatform m = None) (iManifests info)) out"
    by code_simp
  then obtain out where out: "pics_collected = Inr out"
      "\<exists>(ref, info)\<in>set out. \<exists>m\<in>set (iManifests info). imPlatform m = None"
    by (auto simp: list_ex_iff split: sum.splits)
  have "ImagesFormat pics_command = OutputFormatText" by (simp add: pics_command_def)
  from Images_text_needs_platforms [OF this, of pics_env pics_runs out] out(2) show ?thesis
    unfolding out(1) by simp
qed

end
