(* ===== verification/Untar.thy ===== *)
theory Untar
  imports Oci_Artefact
begin

section \<open>Extracting an archive\<close>

text \<open>
  What \<open>tape pull\<close> runs to extract a package: \<open>Untar\<close> of the vendored \<open>fluxcd/pkg/tar\<close> and
  \<open>SecureJoin\<close> of the vendored \<open>filepath-securejoin\<close>, on a disk of directories and regular files
  without symbolic links.  Reading tar and gzip, permissions and times of files are parameters.
\<close>

subsection \<open>A disk\<close>

text \<open>The content of a regular file, and which directories there are, by cleaned absolute path.\<close>

record os_disk =
  file_at :: "string \<Rightarrow> string option"
  dir_at :: "string \<Rightarrow> bool"

text \<open>An entry of an archive: its header, and what reading its content gives before it ends or fails.\<close>

type_synonym tar_entry = "tar_header \<times> string \<times> unit res"

text \<open>
  \<open>untargz\<close> fails when there is no gzip header; else it gives the entries up to the end of the
  archive or an error.
\<close>

record extract_env =
  work_dir :: string
  Getwd :: "unit res"
  may_look :: "string \<Rightarrow> unit res"
  may_write :: "string \<Rightarrow> unit res"
  Chtimes :: "string \<Rightarrow> int \<Rightarrow> unit res"
  untar_Now :: int
  untargz :: "string \<Rightarrow> (tar_entry list \<times> unit res) res"
  gunzip :: "string \<Rightarrow> (string \<times> unit res) res"

definition is_dir_at :: "os_disk \<Rightarrow> string \<Rightarrow> bool" where
  "is_dir_at D p \<longleftrightarrow> path_comps p = [] \<or> dir_at D p"

definition under_file :: "os_disk \<Rightarrow> string \<Rightarrow> bool" where
  "under_file D p \<longleftrightarrow>
     list_ex (\<lambda>k. file_at D (path_of True (take k (path_comps p))) \<noteq> None) [0..<length (path_comps p)]"

text \<open>\<^verbatim>\<open>os.Lstat\<close> of an absolute path: a directory, a file, or nothing there.\<close>

definition os_Lstat :: "extract_env \<Rightarrow> string \<Rightarrow> os_disk \<Rightarrow> bool option res" where
  "os_Lstat E p D =
     rbind (may_look E p) (\<lambda>_.
       if is_dir_at D p then Inr (Some True)
       else if file_at D p \<noteq> None then Inr (Some False)
       else if under_file D p then Inl (Fail (External ''not a directory''))
       else Inr None)"

text \<open>\<^verbatim>\<open>os.MkdirAll\<close>, along the components of a path from the last one.\<close>

fun mkdir_rev :: "extract_env \<Rightarrow> string list \<Rightarrow> os_disk \<Rightarrow> unit res \<times> os_disk" where
  "mkdir_rev E [] D = (Inr (), D)"
| "mkdir_rev E (c # up) D =
     (let p = path_of True (rev (c # up))
      in if dir_at D p then (Inr (), D)
      else if file_at D p \<noteq> None then (Inl (Fail (External ''not a directory'')), D)
      else case mkdir_rev E up D of
             (Inl e, D') \<Rightarrow> (Inl e, D')
           | (Inr _, D') \<Rightarrow>
               (case may_write E p of
                  Inl e \<Rightarrow> (Inl e, D')
                | Inr _ \<Rightarrow> (Inr (), D'\<lparr>dir_at := (dir_at D')(p := True)\<rparr>)))"

definition os_MkdirAll :: "extract_env \<Rightarrow> string \<Rightarrow> os_disk \<Rightarrow> unit res \<times> os_disk" where
  "os_MkdirAll E p D = mkdir_rev E (rev (path_comps p)) D"

text \<open>\<^verbatim>\<open>os.OpenFile\<close> for writing: \<open>O_CREATE|O_TRUNC\<close>, or with \<open>O_EXCL\<close> only where nothing is.\<close>

definition os_Create :: "extract_env \<Rightarrow> bool \<Rightarrow> string \<Rightarrow> os_disk \<Rightarrow> unit res \<times> os_disk" where
  "os_Create E excl p D =
     (if is_dir_at D p then (Inl (Fail (External ''is a directory'')), D)
      else if \<not> is_dir_at D (filepath_Dir p) then (Inl (Fail (External ''no such directory'')), D)
      else if excl \<and> file_at D p \<noteq> None then (Inl (Fail (External ''file exists'')), D)
      else case may_write E p of
             Inl e \<Rightarrow> (Inl e, D)
           | Inr _ \<Rightarrow> (Inr (), D\<lparr>file_at := (file_at D)(p \<mapsto> [])\<rparr>))"

text \<open>What the kernel makes of a path that is given to it.\<close>

definition resolve :: "extract_env \<Rightarrow> string \<Rightarrow> string" where
  "resolve E p = (if filepath_IsAbs p then filepath_Clean p else filepath_Join [work_dir E, p])"

subsection \<open>Where to extract\<close>

fun secure_comps :: "string \<Rightarrow> string list \<Rightarrow> string" where
  "secure_comps path [] = path"
| "secure_comps path (p # ps) =
     (if filepath_Clean (slash # path @ p) = [slash] then secure_comps [] ps
      else secure_comps (path @ p @ [slash]) ps)"

definition SecureJoin :: "string \<Rightarrow> string \<Rightarrow> string" where
  "SecureJoin root unsafePath =
     filepath_Clean (root @ filepath_Clean (slash # secure_comps [] (strings_Split slash unsafePath)))"

definition untar_dir :: "extract_env \<Rightarrow> string \<Rightarrow> string res" where
  "untar_dir E dir =
     (let d = filepath_Clean dir
      in if filepath_IsAbs d then Inr d
      else rbind (Getwd E) (\<lambda>_. Inr (SecureJoin (work_dir E) d)))"

definition validRelPath :: "string \<Rightarrow> bool" where
  "validRelPath p \<longleftrightarrow>
     \<not> (p = [] \<or> strings_Contains p [CHR 0x5C] \<or> strings_HasPrefix p ''/'' \<or> strings_Contains p ''../'')"

subsection \<open>Untar\<close>

record untar_state =
  extracted :: os_disk
  madeDir :: "string list"
  processedBytes :: int

definition zero_time :: int where
  "zero_time = -62135596800"

definition untar_times :: "extract_env \<Rightarrow> tar_header \<Rightarrow> string \<Rightarrow> unit res" where
  "untar_times E h p =
     (let modTime = (if untar_Now E < HeaderModTime h then untar_Now E else HeaderModTime h)
      in if modTime = zero_time then Inr ()
      else wrap (''error changing file time '' @ p) (Chtimes E p modTime))"

definition untar_file :: "extract_env \<Rightarrow> string \<Rightarrow> tar_entry \<Rightarrow> untar_state \<Rightarrow> unit res \<times> untar_state" where
  "untar_file E p = (\<lambda>(h, content, err) st.
     let parent = filepath_Dir p
     in case (if parent \<in> set (madeDir st) then (Inr (), extracted st) else os_MkdirAll E parent (extracted st)) of
          (Inl e, D) \<Rightarrow> (Inl e, st\<lparr>extracted := D\<rparr>)
        | (Inr _, D) \<Rightarrow>
            let st = st\<lparr>madeDir := parent # madeDir st\<rparr>
            in case os_Create E False p D of
                 (Inl e, D) \<Rightarrow> (Inl e, st\<lparr>extracted := D\<rparr>)
               | (Inr _, D) \<Rightarrow>
                   (rbind (wrap ''error copying buffer'' err) (\<lambda>_.
                      if length content \<noteq> HeaderSize h then Inl (Fail (WroteTooLittle p))
                      else untar_times E h p),
                    st\<lparr>extracted := D\<lparr>file_at := (file_at D)(p \<mapsto> content)\<rparr>\<rparr>))"

definition untar_entry ::
    "extract_env \<Rightarrow> int \<Rightarrow> string \<Rightarrow> tar_entry \<Rightarrow> untar_state \<Rightarrow> unit res \<times> untar_state" where
  "untar_entry E maxUntarSize dir entry st =
     (let h = fst entry;
          st = st\<lparr>processedBytes := processedBytes st + int (HeaderSize h)\<rparr>
      in if maxUntarSize > -1 \<and> processedBytes st > maxUntarSize then
           (Inl (Fail (External ''tar is bigger than max archive size'')), st)
         else if \<not> validRelPath (HeaderName h) then (Inl (Fail (InvalidTarName (HeaderName h))), st)
         else
           let p = filepath_Join [dir, HeaderName h]
           in if \<not> HeaderDir h then untar_file E p entry st
              else case os_MkdirAll E p (extracted st) of
                     (Inl e, D) \<Rightarrow> (Inl e, st\<lparr>extracted := D\<rparr>)
                   | (Inr _, D) \<Rightarrow> (Inr (), st\<lparr>extracted := D, madeDir := p # madeDir st\<rparr>))"

fun untar_entries ::
    "extract_env \<Rightarrow> int \<Rightarrow> string \<Rightarrow> tar_entry list \<Rightarrow> untar_state \<Rightarrow> unit res \<times> untar_state" where
  "untar_entries E maxUntarSize dir [] st = (Inr (), st)"
| "untar_entries E maxUntarSize dir (e # es) st =
     (case untar_entry E maxUntarSize dir e st of
        (Inl f, st') \<Rightarrow> (Inl f, st')
      | (Inr _, st') \<Rightarrow> untar_entries E maxUntarSize dir es st')"

definition Untar :: "extract_env \<Rightarrow> int \<Rightarrow> string \<Rightarrow> string \<Rightarrow> os_disk \<Rightarrow> unit res \<times> os_disk" where
  "Untar E maxUntarSize blob dir D =
     (case rbind (untar_dir E dir) (\<lambda>root.
             rbind (wrap ''cannot lstat'' (os_Lstat E root D)) (\<lambda>fi.
             if fi = Some False then Inl (Fail (NotADirectory root))
             else rmap (Pair root) (wrap ''requires gzip-compressed body'' (untargz E blob)))) of
        Inl e \<Rightarrow> (Inl e, D)
      | Inr (root, entries, end) \<Rightarrow>
          (case untar_entries E maxUntarSize root entries
                  \<lparr>extracted = D, madeDir = [], processedBytes = 0\<rparr> of
             (Inl e, st) \<Rightarrow> (Inl e, extracted st)
           | (Inr _, st) \<Rightarrow> (wrap ''tar error'' end, extracted st)))"

subsection \<open>Extracting stays inside the directory\<close>

lemma strings_Contains_iff: "strings_Contains s p \<longleftrightarrow> (\<exists>a b. s = a @ p @ b)"
proof
  assume "strings_Contains s p"
  then obtain k where "strings_HasPrefix (drop k s) p"
    unfolding strings_Contains_def list_ex_iff by blast
  then obtain b where "drop k s = p @ b" by (auto simp: strings_HasPrefix_iff)
  then have "s = take k s @ p @ b" by (metis append_take_drop_id)
  then show "\<exists>a b. s = a @ p @ b" by blast
next
  assume "\<exists>a b. s = a @ p @ b"
  then obtain a b where "s = a @ p @ b" by blast
  then have "strings_HasPrefix (drop (length a) s) p" "length a < Suc (length s)" by simp_all
  then show "strings_Contains s p" unfolding strings_Contains_def list_ex_iff set_upt by auto
qed

lemma strings_Join_append:
  "xs \<noteq> [] \<Longrightarrow> ys \<noteq> [] \<Longrightarrow> strings_Join (xs @ ys) sep = strings_Join xs sep @ sep @ strings_Join ys sep"
proof (induction xs)
  case (Cons x xs)
  then show ?case by (cases "xs = []") (simp_all add: strings_Join_Cons)
qed simp

text \<open>A valid name has \<open>..\<close> as its last component at most.\<close>

lemma valid_components:
  assumes "validRelPath p"
  shows "''..'' \<notin> set (butlast (strings_Split slash p))"
proof
  let ?cs = "strings_Split slash p"
  assume "''..'' \<in> set (butlast ?cs)"
  then obtain xs ys where "butlast ?cs = xs @ ''..'' # ys" by (meson split_list)
  then have "?cs = (xs @ [''..'']) @ (ys @ [last ?cs])"
    by (metis append.assoc append_Cons append_Nil append_butlast_last_id strings_Split_nonempty)
  then have "strings_Join ?cs [slash] =
      strings_Join (xs @ [''..'']) [slash] @ [slash] @ strings_Join (ys @ [last ?cs]) [slash]"
    by (metis append_is_Nil_conv not_Cons_self2 strings_Join_append)
  then have p: "p = strings_Join (xs @ [''..'']) [slash] @ [slash] @ strings_Join (ys @ [last ?cs]) [slash]"
    by simp
  have "\<exists>a. strings_Join (xs @ [''..'']) [slash] = a @ ''..''"
  proof (cases "xs = []")
    case True
    then show ?thesis by simp
  next
    case False
    then have "strings_Join (xs @ [''..'']) [slash] = (strings_Join xs [slash] @ [slash]) @ ''..''"
      by (simp add: strings_Join_append)
    then show ?thesis by blast
  qed
  then obtain a where "p = a @ ''../'' @ strings_Join (ys @ [last ?cs]) [slash]"
    using p by (auto simp: slash_def)
  then have "strings_Contains p ''../''" unfolding strings_Contains_iff by blast
  with assms show False by (simp add: validRelPath_def)
qed

lemma fold_plain_comps:
  assumes "''..'' \<notin> set cs"
  shows "fold (path_step r) cs st = rev (filter (\<lambda>c. c \<noteq> [] \<and> c \<noteq> ''.'') cs) @ st"
  using assms by (induction cs arbitrary: st) (auto simp: path_step_def)

lemma entry_path_comps:
  assumes "validRelPath p" and "filepath_IsAbs root"
  shows "prefix (path_comps root) (path_comps (filepath_Join [root, p])) \<or>
    path_comps (filepath_Join [root, p]) = butlast (path_comps root)"
proof -
  let ?f = "filter (\<lambda>c. c \<noteq> [] \<and> c \<noteq> ''.'')"
  obtain cs c where split: "strings_Split slash p = cs @ [c]"
    by (metis rev_exhaust strings_Split_nonempty)
  have plain: "''..'' \<notin> set cs" using valid_components [OF assms(1)] by (simp add: split)
  have "root \<noteq> []" using assms(2) by (auto simp: filepath_IsAbs_def)
  then have "path_comps (filepath_Join [root, p]) =
      rev (fold (path_step True) (strings_Split slash p) (rev (path_comps root)))"
    by (simp add: filepath_Join_two path_comps_rooted_append [OF assms(2)])
  also have "\<dots> = rev (path_step True c (rev (path_comps root @ ?f cs)))"
    using fold_plain_comps [OF plain] by (simp add: split)
  finally have comps: "path_comps (filepath_Join [root, p]) =
      rev (path_step True c (rev (path_comps root @ ?f cs)))" .
  show ?thesis
  proof (cases "c = ''..''")
    case False
    then have "path_comps (filepath_Join [root, p]) = path_comps root @ ?f cs @ ?f [c]"
      unfolding comps by (simp add: path_step_def)
    then show ?thesis by simp
  next
    case True
    have down: "down_comps (path_comps root @ ?f cs)"
      using normal_path_comps [of root] assms(2) plain
        strings_Split_no_sep [of _ slash p]
      by (auto simp: down_comps_def split)
    have "rev (path_step True ''..'' (rev xs)) = butlast xs" if "down_comps xs" for xs
      using that by (cases xs rule: rev_cases) (auto simp: path_step_def)
    from this [OF down] have "path_comps (filepath_Join [root, p]) = butlast (path_comps root @ ?f cs)"
      unfolding comps True .
    then show ?thesis by (cases "?f cs = []") (auto simp: butlast_append)
  qed
qed

text \<open>What making directories changes.\<close>

lemma mkdir_rev_changes:
  assumes "mkdir_rev E ups D = (r, D')"
  shows "file_at D' = file_at D"
    and "dir_at D q \<Longrightarrow> dir_at D' q"
    and "dir_at D' q \<Longrightarrow> dir_at D q \<or> (\<exists>cs. prefix cs (rev ups) \<and> q = path_of True cs)"
proof -
  have "file_at D' = file_at D \<and> (dir_at D q \<longrightarrow> dir_at D' q) \<and>
      (dir_at D' q \<longrightarrow> dir_at D q \<or> (\<exists>cs. prefix cs (rev ups) \<and> q = path_of True cs))"
    using assms
  proof (induction ups arbitrary: r D')
    case (Cons c up)
    show ?case
    proof (cases "mkdir_rev E up D")
      case (Pair r1 D1)
      then show ?thesis
        using Cons.prems Cons.IH [OF Pair]
        by (auto simp: Let_def split: if_splits sum.splits)
    qed
  qed simp
  then show "file_at D' = file_at D" and "dir_at D q \<Longrightarrow> dir_at D' q"
    and "dir_at D' q \<Longrightarrow> dir_at D q \<or> (\<exists>cs. prefix cs (rev ups) \<and> q = path_of True cs)"
    by blast+
qed

lemma MkdirAll_changes:
  assumes "os_MkdirAll E p D = (r, D')"
  shows "file_at D' = file_at D"
    and "dir_at D q \<Longrightarrow> dir_at D' q"
    and "dir_at D' q \<Longrightarrow> dir_at D q \<or> (\<exists>cs. prefix cs (path_comps p) \<and> q = path_of True cs)"
  using mkdir_rev_changes [OF assms [unfolded os_MkdirAll_def]] by simp_all

lemma os_Create_cases:
  assumes "os_Create E excl p D = (r, D')"
  shows "D' = D \<and> isl r \<or>
    r = Inr () \<and> D' = D\<lparr>file_at := (file_at D)(p \<mapsto> [])\<rparr> \<and> \<not> is_dir_at D p \<and> (excl \<longrightarrow> file_at D p = None)"
proof (cases "may_write E p")
  case (Inl a)
  show ?thesis using assms unfolding os_Create_def Inl by (auto split: if_splits)
next
  case (Inr a)
  show ?thesis using assms unfolding os_Create_def Inr by (auto split: if_splits)
qed

text \<open>A step of the extraction keeps files and directories, and only makes what is inside.\<close>

definition stays_inside :: "string \<Rightarrow> os_disk \<Rightarrow> os_disk \<Rightarrow> bool" where
  "stays_inside root D D' \<longleftrightarrow>
     (\<forall>q. dir_at D q \<longrightarrow> dir_at D' q) \<and>
     (\<forall>q. file_at D q \<noteq> None \<longrightarrow> file_at D' q \<noteq> None) \<and>
     (\<forall>q. file_at D' q \<noteq> file_at D q \<longrightarrow>
        prefix (path_comps root) (path_comps q) \<or>
        path_comps q = butlast (path_comps root) \<and> \<not> is_dir_at D q)"

lemma stays_inside_refl [simp]: "stays_inside root D D"
  by (simp add: stays_inside_def)

lemma stays_inside_trans: "stays_inside root D D' \<Longrightarrow> stays_inside root D' D'' \<Longrightarrow> stays_inside root D D''"
  unfolding stays_inside_def is_dir_at_def by metis

lemma MkdirAll_inside: "os_MkdirAll E p D = (r, D') \<Longrightarrow> stays_inside root D D'"
  using MkdirAll_changes(1,2) [of E p D r D'] by (simp add: stays_inside_def)

lemma write_inside:
  assumes "prefix (path_comps root) (path_comps p) \<or> path_comps p = butlast (path_comps root)"
    and "\<not> is_dir_at D p"
  shows "stays_inside root D (D\<lparr>file_at := (file_at D)(p \<mapsto> c)\<rparr>)"
  using assms by (simp add: stays_inside_def)

lemma untar_file_inside:
  assumes "untar_file E p (h, content, err) st = (r, st')"
    and "prefix (path_comps root) (path_comps p) \<or> path_comps p = butlast (path_comps root)"
  shows "stays_inside root (extracted st) (extracted st')"
proof -
  let ?parent = "filepath_Dir p"
  obtain r1 D1 where mk: "(if ?parent \<in> set (madeDir st) then (Inr (), extracted st)
      else os_MkdirAll E ?parent (extracted st)) = (r1, D1)"
    by fastforce
  then have in1: "stays_inside root (extracted st) D1"
    by (auto intro: MkdirAll_inside split: if_splits)
  obtain r2 D2 where cr: "os_Create E False p D1 = (r2, D2)" by fastforce
  show ?thesis
  proof (cases r1)
    case (Inl e)
    then show ?thesis using assms(1) mk in1 by (auto simp: untar_file_def Let_def)
  next
    case (Inr u)
    show ?thesis
    proof (cases r2)
      case (Inl e)
      then have "D2 = D1" using os_Create_cases [OF cr] by auto
      then show ?thesis using assms(1) mk in1 Inr Inl cr by (auto simp: untar_file_def Let_def)
    next
      case r2: (Inr v)
      then have D2: "D2 = D1\<lparr>file_at := (file_at D1)(p \<mapsto> [])\<rparr>" "\<not> is_dir_at D1 p"
        using os_Create_cases [OF cr] by auto
      have "extracted st' = D1\<lparr>file_at := (file_at D1)(p \<mapsto> content)\<rparr>"
        using assms(1) mk Inr r2 cr D2(1) by (auto simp: untar_file_def Let_def)
      then show ?thesis
        using stays_inside_trans [OF in1 write_inside [OF assms(2) D2(2)]] by simp
    qed
  qed
qed

lemma untar_entry_inside:
  assumes "untar_entry E m root e st = (r, st')" and "filepath_IsAbs root"
  shows "stays_inside root (extracted st) (extracted st')"
proof -
  obtain h content err where e: "e = (h, content, err)" by (cases e)
  let ?st = "st\<lparr>processedBytes := processedBytes st + int (HeaderSize h)\<rparr>"
    and ?p = "filepath_Join [root, HeaderName h]"
  show ?thesis
  proof (cases "m > -1 \<and> processedBytes ?st > m \<or> \<not> validRelPath (HeaderName h)")
    case True
    then show ?thesis using assms(1) by (auto simp: untar_entry_def e Let_def split: if_splits)
  next
    case False
    note valid = entry_path_comps [OF _ assms(2), of "HeaderName h"]
    obtain r1 D1 where mk: "os_MkdirAll E ?p (extracted ?st) = (r1, D1)" by fastforce
    show ?thesis
    proof (cases "HeaderDir h")
      case True
      then have "extracted st' = D1"
        using assms(1) False mk by (auto simp: untar_entry_def e Let_def split: sum.splits)
      then show ?thesis using MkdirAll_inside [OF mk] by simp
    next
      case file_entry: False
      then have "untar_file E ?p (h, content, err) ?st = (r, st')"
        using assms(1) False by (auto simp: untar_entry_def e Let_def)
      then show ?thesis
        using untar_file_inside [of E ?p h content err ?st r st' root] valid False by simp
    qed
  qed
qed

lemma untar_entries_inside:
  "untar_entries E m root es st = (r, st') \<Longrightarrow> filepath_IsAbs root
    \<Longrightarrow> stays_inside root (extracted st) (extracted st')"
proof (induction es arbitrary: st)
  case (Cons e es)
  obtain r1 st1 where e: "untar_entry E m root e st = (r1, st1)" by fastforce
  note in1 = untar_entry_inside [OF e Cons.prems(2)]
  show ?case
  proof (cases r1)
    case (Inl f)
    then show ?thesis using Cons.prems(1) e in1 by simp
  next
    case (Inr u)
    then show ?thesis
      using stays_inside_trans [OF in1 Cons.IH] Cons.prems e by simp
  qed
qed simp

text \<open>\<open>SecureJoin\<close> does not leave the directory it is given.\<close>

lemma SecureJoin_below:
  assumes "filepath_IsAbs root"
  shows "filepath_IsAbs (SecureJoin root p)" and "prefix (path_comps root) (path_comps (SecureJoin root p))"
proof -
  define s where "s = secure_comps [] (strings_Split slash p)"
  have ne: "root \<noteq> []" using assms by (auto simp: filepath_IsAbs_def)
  have abs: "filepath_IsAbs (slash # s)" by (simp add: filepath_IsAbs_def)
  let ?cs = "path_comps (slash # s)"
  have down: "down_comps ?cs" using normal_path_comps [of "slash # s"] abs by simp
  have clean: "filepath_Clean (slash # s) = slash # strings_Join ?cs [slash]"
    using Clean_rooted [OF abs] by (simp add: path_of_def)
  have "strings_Split slash (strings_Join ?cs [slash]) = (if ?cs = [] then [[]] else ?cs)"
    using down strings_Split_Join [of ?cs slash] by (auto simp: down_comps_def)
  then have "''..'' \<notin> set (strings_Split slash (strings_Join ?cs [slash]))"
    using down by (auto simp: down_comps_def)
  then have "path_comps (SecureJoin root p) = path_comps root @ path_comps (strings_Join ?cs [slash])"
    using ne by (simp add: SecureJoin_def s_def [symmetric] clean path_comps_append)
  then show "prefix (path_comps root) (path_comps (SecureJoin root p))" by simp
  show "filepath_IsAbs (SecureJoin root p)"
    using ne assms by (simp add: SecureJoin_def IsAbs_append)
qed

lemma untar_dir_abs:
  assumes "untar_dir E d = Inr root" and "filepath_IsAbs (work_dir E)"
  shows "filepath_IsAbs root \<and>
    (filepath_IsAbs d \<and> root = filepath_Clean d \<or> prefix (path_comps (work_dir E)) (path_comps root))"
  using assms SecureJoin_below [OF assms(2), of "filepath_Clean d"]
  by (auto simp: untar_dir_def Let_def rbind_Inr_conv split: if_splits)

lemma Untar_inside:
  assumes "Untar E m blob d D = (r, D')" and "filepath_IsAbs (work_dir E)"
  shows "D' = D \<or> (\<exists>root. untar_dir E d = Inr root \<and> stays_inside root D D')"
proof (cases "rbind (untar_dir E d) (\<lambda>root.
             rbind (wrap ''cannot lstat'' (os_Lstat E root D)) (\<lambda>fi.
             if fi = Some False then Inl (Fail (NotADirectory root))
             else rmap (Pair root) (wrap ''requires gzip-compressed body'' (untargz E blob))))")
  case (Inl e)
  then show ?thesis using assms(1) by (simp add: Untar_def)
next
  case (Inr x)
  obtain root es ending where x: "x = (root, es, ending)" by (cases x)
  then have root: "untar_dir E d = Inr root" using Inr by (auto simp: rbind_Inr_conv rmap_Inr_conv split: if_splits)
  let ?st = "\<lparr>extracted = D, madeDir = [], processedBytes = 0\<rparr>"
  obtain r1 st1 where run: "untar_entries E m root es ?st = (r1, st1)" by fastforce
  have "D' = extracted st1"
    using assms(1) run unfolding Untar_def Inr x by (cases r1) auto
  then show ?thesis
    using untar_entries_inside [OF run] untar_dir_abs [OF root assms(2)] root by auto
qed

subsection \<open>Extracting the archive of a tree\<close>

text \<open>Nothing is refused, and where the archive goes there is nothing yet or an empty directory.\<close>

definition permissive :: "extract_env \<Rightarrow> bool" where
  "permissive E \<longleftrightarrow>
     (\<forall>p. may_look E p = Inr ()) \<and> (\<forall>p. may_write E p = Inr ()) \<and> (\<forall>p t. Chtimes E p t = Inr ())"

definition fresh_dir :: "os_disk \<Rightarrow> string \<Rightarrow> bool" where
  "fresh_dir D root \<longleftrightarrow>
     (\<forall>q. prefix (path_comps q) (path_comps root) \<or> prefix (path_comps root) (path_comps q) \<longrightarrow>
        file_at D q = None) \<and>
     (\<forall>q. strict_prefix (path_comps root) (path_comps q) \<longrightarrow> \<not> dir_at D q)"

lemma mkdir_rev_ok:
  assumes "permissive E" and "\<And>cs. prefix cs (rev ups) \<Longrightarrow> file_at D (path_of True cs) = None"
  shows "\<exists>D'. mkdir_rev E ups D = (Inr (), D') \<and> (ups \<noteq> [] \<longrightarrow> dir_at D' (path_of True (rev ups)))"
  using assms(2)
proof (induction ups)
  case (Cons c up)
  have here: "file_at D (path_of True (rev (c # up))) = None" by (rule Cons.prems) simp
  have "prefix cs (rev (c # up))" if "prefix cs (rev up)" for cs using that by simp
  with Cons obtain D1 where D1: "mkdir_rev E up D = (Inr (), D1)" by blast
  show ?case
  proof (cases "dir_at D (path_of True (rev (c # up)))")
    case True
    then show ?thesis by (simp add: Let_def)
  next
    case False
    then show ?thesis using here D1 assms(1) by (simp add: Let_def permissive_def)
  qed
qed simp

lemma MkdirAll_ok:
  assumes "permissive E" and "filepath_IsAbs p"
    and "\<And>cs. prefix cs (path_comps p) \<Longrightarrow> file_at D (path_of True cs) = None"
  shows "\<exists>D'. os_MkdirAll E p D = (Inr (), D') \<and> is_dir_at D' (filepath_Clean p)"
  using mkdir_rev_ok [OF assms(1), of "rev (path_comps p)" D] assms(2,3)
  by (auto simp: os_MkdirAll_def is_dir_at_def Clean_rooted)

lemma find_node_prefix:
  assumes "find_node t (ms @ ns) = Some d" and "ns \<noteq> []"
  shows "\<exists>i e cs. find_node t ms = Some (Directory i e cs)"
  using assms
proof (induction t ms rule: find_node.induct)
  case (1 t)
  then show ?case by (cases t; cases ns) auto
qed (auto split: option.splits)

text \<open>The path of a node of a tree that is extracted below components \<open>rcs\<close>.\<close>

abbreviation node_path :: "string list \<Rightarrow> string list \<Rightarrow> string" where
  "node_path rcs ns \<equiv> path_of True (rcs @ ns)"

lemma Join_names:
  assumes "filepath_IsAbs root" and "filepath_Clean root = root" and "list_all entry_name ns"
  shows "filepath_Join [root, path_of False ns] = node_path (path_comps root) ns"
proof -
  have ne: "root \<noteq> []" using assms(1) by (auto simp: filepath_IsAbs_def)
  have down: "down_comps ns" by (rule entry_names_down [OF assms(3)])
  have "strings_Split slash (path_of False ns) = (if ns = [] then [''.''] else ns)"
    using down strings_Split_Join [of ns slash]
    by (auto simp: path_of_def down_comps_def slash_def)
  then have "''..'' \<notin> set (strings_Split slash (path_of False ns))"
    using down by (auto simp: down_comps_def)
  from path_comps_Join [OF ne this]
  have comps: "path_comps (filepath_Join [root, path_of False ns]) = path_comps root @ ns"
      "filepath_IsAbs (filepath_Join [root, path_of False ns])"
    using down assms(1) by simp_all
  have "filepath_Clean (filepath_Join [root, path_of False ns]) = filepath_Join [root, path_of False ns]"
    using ne by (simp add: filepath_Join_two)
  then show ?thesis using Clean_rooted [OF comps(2)] comps(1) by simp
qed

text \<open>
  The state after a part \<open>L\<close> of the nodes of tree \<open>t\<close> was extracted: files are those of before and
  those of \<open>L\<close>, and new directories lead to the root or are directories of the tree.
\<close>

definition extracted_so_far ::
    "file_node \<Rightarrow> string list \<Rightarrow> os_disk \<Rightarrow> (string list \<times> file_node) set \<Rightarrow> untar_state \<Rightarrow> bool" where
  "extracted_so_far t rcs D L st \<longleftrightarrow>
     (\<forall>q c. file_at (extracted st) q = Some c \<longleftrightarrow>
        file_at D q = Some c \<or> (\<exists>ns i. (ns, File i (Inr c)) \<in> L \<and> q = node_path rcs ns)) \<and>
     (\<forall>q. dir_at (extracted st) q \<longrightarrow>
        dir_at D q \<or> (\<exists>cs. prefix cs rcs \<and> q = path_of True cs) \<or>
        (\<exists>ms i e cs. find_node t ms = Some (Directory i e cs) \<and> q = node_path rcs ms)) \<and>
     (\<forall>q\<in>set (madeDir st). is_dir_at (extracted st) q)"

text \<open>The entry of a node in the archive.\<close>

definition entry_of :: "string list \<times> file_node \<Rightarrow> tar_entry" where
  "entry_of = (\<lambda>(ns, d). (member_header ns d, case d of File i (Inr content) \<Rightarrow> content | _ \<Rightarrow> [], Inr ()))"

definition extraction :: "extract_env \<Rightarrow> file_node \<Rightarrow> string \<Rightarrow> os_disk \<Rightarrow> bool" where
  "extraction E t root D \<longleftrightarrow>
     permissive E \<and> filepath_IsAbs root \<and> filepath_Clean root = root \<and> wf_node t \<and> is_dir t \<and>
     fresh_dir D root"

lemma extractionD:
  assumes "extraction E t root D"
  shows "permissive E" and "filepath_IsAbs root" and "filepath_Clean root = root" and "wf_node t"
    and "is_dir t" and "fresh_dir D root" and "down_comps (path_comps root)"
  using assms normal_path_comps [of root] by (simp_all add: extraction_def)

lemma extraction_names: "extraction E t root D \<Longrightarrow> find_node t ns = Some d \<Longrightarrow> list_all entry_name ns \<and> down_comps (path_comps root @ ns)"
  using find_node_names [OF extractionD(4)] entry_names_down extractionD(7) by simp

lemma path_comps_node: "extraction E t root D \<Longrightarrow> find_node t ns = Some d \<Longrightarrow> path_comps (node_path (path_comps root) ns) = path_comps root @ ns"
  using extraction_names by simp

lemma node_path_inject:
  "extraction E t root D \<Longrightarrow> find_node t ns = Some d \<Longrightarrow> find_node t ms = Some d' \<Longrightarrow> node_path (path_comps root) ns = node_path (path_comps root) ms \<longleftrightarrow> ns = ms"
  using path_comps_node by (metis same_append_eq)

lemma fresh_file: "extraction E t root D \<Longrightarrow> find_node t ns = Some d \<Longrightarrow> file_at D (node_path (path_comps root) ns) = None"
  using extractionD(6) path_comps_node by (simp add: fresh_dir_def)

lemma fresh_prefix:
  assumes "extraction E t root D" and "prefix cs (path_comps root)"
  shows "file_at D (path_of True cs) = None"
proof -
  have "down_comps cs" using extractionD(7) [OF assms(1)] assms(2) by (auto simp: prefix_def)
  then show ?thesis using extractionD(6) [OF assms(1)] assms(2) by (simp add: fresh_dir_def)
qed

text \<open>No file is in the way of the directories of the tree.\<close>

lemma way_clear:
  assumes ex: "extraction E t root D" and inv: "extracted_so_far t (path_comps root) D L st" and L: "\<And>ns d. (ns, d) \<in> L \<Longrightarrow> find_node t ns = Some d"
    and dir: "find_node t ns = Some (Directory i e cs)" and p: "prefix ps (path_comps root @ ns)"
  shows "file_at (extracted st) (path_of True ps) = None"
proof (rule ccontr)
  assume "file_at (extracted st) (path_of True ps) \<noteq> None"
  then obtain c where c: "file_at (extracted st) (path_of True ps) = Some c" by blast
  consider "prefix ps (path_comps root)" | ms where "ps = path_comps root @ ms" "prefix ms ns"
    using p by (auto simp: prefix_append)
  then have "file_at D (path_of True ps) = None \<and>
      (\<exists>ms. prefix ms ns \<and> (ps = path_comps root @ ms \<or> prefix ps (path_comps root) \<and> ps \<noteq> path_comps root))"
  proof cases
    case 1
    then show ?thesis using fresh_prefix [OF ex] by (cases "ps = path_comps root") auto
  next
    case 2
    have "\<exists>d. find_node t ms = Some d"
      using 2(2) dir find_node_prefix [of t ms _ "Directory i e cs"]
      by (cases "ms = ns") (auto simp: prefix_def)
    then obtain d where "find_node t ms = Some d" by blast
    then show ?thesis using 2 fresh_file [OF ex] by auto
  qed
  then obtain ms where ms: "file_at D (path_of True ps) = None" "prefix ms ns"
    "ps = path_comps root @ ms \<or> prefix ps (path_comps root) \<and> ps \<noteq> path_comps root" by blast
  obtain ks j where ks: "(ks, File j (Inr c)) \<in> L" "path_of True ps = node_path (path_comps root) ks"
    using inv c ms(1) unfolding extracted_so_far_def by fastforce
  have file_node: "find_node t ks = Some (File j (Inr c))" by (rule L [OF ks(1)])
  obtain zs where "path_comps root @ ns = ps @ zs" using p by (auto elim: prefixE)
  then have "down_comps (ps @ zs)" using extraction_names [OF ex dir] by simp
  then have "down_comps ps" by simp
  then have "ps = path_comps root @ ks" using arg_cong [OF ks(2), of path_comps] path_comps_node [OF ex file_node] by simp
  with ms(3) have "ms = ks" by (auto dest: prefix_length_le)
  then obtain zs where "ns = ks @ zs" using ms(2) by (auto elim: prefixE)
  with dir file_node find_node_prefix [of t ks zs "Directory i e cs"] show False
    by (cases "zs = []") auto
qed

lemma make_dir:
  assumes ex: "extraction E t root D" and inv: "extracted_so_far t (path_comps root) D L st" and L: "\<And>ns d. (ns, d) \<in> L \<Longrightarrow> find_node t ns = Some d"
    and dir: "find_node t ns = Some (Directory i e cs)"
  shows "\<exists>D'. os_MkdirAll E (node_path (path_comps root) ns) (extracted st) = (Inr (), D') \<and>
    is_dir_at D' (node_path (path_comps root) ns) \<and>
    extracted_so_far t (path_comps root) D L (st\<lparr>extracted := D'\<rparr>)"
proof -
  have down: "down_comps (path_comps root @ ns)" using extraction_names [OF ex dir] by simp
  have abs: "filepath_IsAbs (node_path (path_comps root) ns)" by (simp add: path_of_def filepath_IsAbs_def)
  obtain D' where D': "os_MkdirAll E (node_path (path_comps root) ns) (extracted st) = (Inr (), D')"
      "is_dir_at D' (filepath_Clean (node_path (path_comps root) ns))"
    using MkdirAll_ok [OF extractionD(1) [OF ex] abs] way_clear [OF ex inv L dir] down by fastforce
  note ch = MkdirAll_changes [OF D'(1)]
  have new: "dir_at D q \<or> (\<exists>cs. prefix cs (path_comps root) \<and> q = path_of True cs) \<or>
      (\<exists>ms i e cs. find_node t ms = Some (Directory i e cs) \<and> q = node_path (path_comps root) ms)"
    if q: "dir_at D' q" for q
  proof (cases "dir_at (extracted st) q")
    case True
    then show ?thesis using inv unfolding extracted_so_far_def by blast
  next
    case False
    then obtain ps where ps: "prefix ps (path_comps root @ ns)" "q = path_of True ps"
      using ch(3) [OF q] down by auto
    then have "prefix ps (path_comps root) \<or> (\<exists>ms. ps = path_comps root @ ms \<and> prefix ms ns)" by (simp add: prefix_append)
    then consider "prefix ps (path_comps root)" | ms ks where "ps = path_comps root @ ms" "ns = ms @ ks"
      by (auto elim!: prefixE)
    then show ?thesis
    proof cases
      case 2
      then have "\<exists>i e cs. find_node t ms = Some (Directory i e cs)"
        using dir find_node_prefix [of t ms ks] by (cases "ks = []") auto
      then show ?thesis using ps 2 by blast
    qed (use ps in blast)
  qed
  have "\<forall>q\<in>set (madeDir st). is_dir_at D' q"
    using inv ch(2) unfolding extracted_so_far_def is_dir_at_def by blast
  then have "extracted_so_far t (path_comps root) D L (st\<lparr>extracted := D'\<rparr>)"
    using inv new unfolding extracted_so_far_def by (simp add: ch(1))
  then show ?thesis using D' down by auto
qed

lemma entry_path: "extraction E t root D \<Longrightarrow> find_node t ns = Some d \<Longrightarrow> filepath_Join [root, path_of False ns] = node_path (path_comps root) ns"
  using Join_names [OF extractionD(2,3)] extraction_names by blast

lemma extract_dir:
  assumes ex: "extraction E t root D" and inv: "extracted_so_far t (path_comps root) D L st" and L: "\<And>ns d. (ns, d) \<in> L \<Longrightarrow> find_node t ns = Some d"
    and dir: "find_node t ns = Some (Directory i e cs)" and valid: "validRelPath (path_of False ns)"
  shows "\<exists>st'. untar_entry E (-1) root (entry_of (ns, Directory i e cs)) st = (Inr (), st') \<and>
    extracted_so_far t (path_comps root) D (insert (ns, Directory i e cs) L) st'"
proof -
  obtain D' where D': "os_MkdirAll E (node_path (path_comps root) ns) (extracted st) = (Inr (), D')"
      "is_dir_at D' (node_path (path_comps root) ns)" "extracted_so_far t (path_comps root) D L (st\<lparr>extracted := D'\<rparr>)"
    using make_dir [OF ex inv L dir] by blast
  let ?st' = "st\<lparr>processedBytes := processedBytes st + int (HeaderSize (member_header ns (Directory i e cs))),
      extracted := D', madeDir := node_path (path_comps root) ns # madeDir st\<rparr>"
  have "untar_entry E (-1) root (entry_of (ns, Directory i e cs)) st = (Inr (), ?st')"
    using D'(1) valid entry_path [OF ex dir] by (simp add: untar_entry_def entry_of_def Let_def)
  moreover have "extracted_so_far t (path_comps root) D (insert (ns, Directory i e cs) L) ?st'"
    using D'(2,3) unfolding extracted_so_far_def by simp
  ultimately show ?thesis by blast
qed

lemma untar_file_ok:
  assumes "(if filepath_Dir p \<in> set (madeDir st) then (Inr (), extracted st)
      else os_MkdirAll E (filepath_Dir p) (extracted st)) = (Inr (), D1)"
    and "os_Create E False p D1 = (Inr (), D2)" and "length content = HeaderSize h"
    and "untar_times E h p = Inr ()"
  shows "untar_file E p (h, content, Inr ()) st = (Inr (),
    st\<lparr>madeDir := filepath_Dir p # madeDir st, extracted := D2\<lparr>file_at := (file_at D2)(p \<mapsto> content)\<rparr>\<rparr>)"
  unfolding untar_file_def Let_def prod.case assms(1) using assms(2-4) by simp

lemma extract_file:
  assumes ex: "extraction E t root D" and inv: "extracted_so_far t (path_comps root) D L st" and L: "\<And>ns d. (ns, d) \<in> L \<Longrightarrow> find_node t ns = Some d"
    and file_node: "find_node t ns = Some (File i (Inr c))" and valid: "validRelPath (path_of False ns)"
    and size: "Size i = length c"
  shows "\<exists>st'. untar_entry E (-1) root (entry_of (ns, File i (Inr c))) st = (Inr (), st') \<and>
    extracted_so_far t (path_comps root) D (insert (ns, File i (Inr c)) L) st'"
proof -
  let ?p = "node_path (path_comps root) ns" and ?h = "member_header ns (File i (Inr c))"
  have "ns \<noteq> []" using file_node extractionD(5) [OF ex] by auto
  then obtain ms n where ns: "ns = ms @ [n]" by (metis rev_exhaust)
  obtain j e cs where parent: "find_node t ms = Some (Directory j e cs)"
    using find_node_prefix [of t ms "[n]"] file_node ns by auto
  have dir: "filepath_Dir ?p = node_path (path_comps root) ms"
    using Dir_path_of [of "path_comps root @ ms" n] extraction_names [OF ex file_node] by (simp add: ns)
  obtain D1 where D1: "(if node_path (path_comps root) ms \<in> set (madeDir st) then (Inr (), extracted st)
      else os_MkdirAll E (node_path (path_comps root) ms) (extracted st)) = (Inr (), D1)"
      "is_dir_at D1 (node_path (path_comps root) ms)" "extracted_so_far t (path_comps root) D L (st\<lparr>extracted := D1\<rparr>)"
  proof (cases "node_path (path_comps root) ms \<in> set (madeDir st)")
    case True
    then have "is_dir_at (extracted st) (node_path (path_comps root) ms)"
      using inv unfolding extracted_so_far_def by blast
    then show ?thesis using True inv that [of "extracted st"] by simp
  next
    case False
    then show ?thesis using make_dir [OF ex inv L parent] that by auto
  qed
  have comps: "path_comps ?p = path_comps root @ ns" by (rule path_comps_node [OF ex file_node])
  have "\<not> dir_at D1 ?p"
  proof
    assume "dir_at D1 ?p"
    then consider "dir_at D ?p" | cs where "prefix cs (path_comps root)" "?p = path_of True cs"
      | ms i e cs where "find_node t ms = Some (Directory i e cs)" "?p = node_path (path_comps root) ms"
      using D1(3) unfolding extracted_so_far_def by auto
    then show False
    proof cases
      case 1
      then show ?thesis using extractionD(6) [OF ex] comps \<open>ns \<noteq> []\<close> by (simp add: fresh_dir_def strict_prefix_def)
    next
      case 2
      then have "down_comps cs" using extractionD(7) [OF ex] by (auto simp: prefix_def)
      then have "path_comps root @ ns = cs" using arg_cong [OF 2(2), of path_comps] comps by simp
      then show ?thesis using 2(1) \<open>ns \<noteq> []\<close> by (auto dest: prefix_length_le)
    next
      case 3
      then show ?thesis using node_path_inject [OF ex file_node 3(1)] file_node by simp
    qed
  qed
  then have created: "os_Create E False ?p D1 = (Inr (), D1\<lparr>file_at := (file_at D1)(?p \<mapsto> [])\<rparr>)"
    using D1(2) comps \<open>ns \<noteq> []\<close> extractionD(1) [OF ex] by (simp add: os_Create_def is_dir_at_def dir permissive_def)
  have header: "HeaderSize ?h = length c" "\<not> HeaderDir ?h"
    by (simp_all add: member_header_def clear_environment_def FileInfoHeader_def Let_def size)
  have times: "untar_times E h p = Inr ()" for h p
    using extractionD(1) [OF ex] by (simp add: untar_times_def permissive_def Let_def)
  let ?st' = "st\<lparr>processedBytes := processedBytes st + int (HeaderSize ?h),
      madeDir := node_path (path_comps root) ms # madeDir st, extracted := D1\<lparr>file_at := (file_at D1)(?p \<mapsto> c)\<rparr>\<rparr>"
  let ?st = "st\<lparr>processedBytes := processedBytes st + int (HeaderSize ?h)\<rparr>"
  have "untar_file E ?p (?h, c, Inr ()) ?st = (Inr (), ?st')"
  proof -
    have "(if filepath_Dir ?p \<in> set (madeDir ?st) then (Inr (), extracted ?st)
        else os_MkdirAll E (filepath_Dir ?p) (extracted ?st)) = (Inr (), D1)"
      using D1(1) by (auto simp: dir split: if_splits)
    from untar_file_ok [OF this created header(1) [symmetric] times]
    show ?thesis by (simp add: dir)
  qed
  then have "untar_entry E (-1) root (entry_of (ns, File i (Inr c))) st = (Inr (), ?st')"
    using valid entry_path [OF ex file_node] header(2) by (simp add: untar_entry_def entry_of_def Let_def)
  moreover have "extracted_so_far t (path_comps root) D (insert (ns, File i (Inr c)) L) ?st'"
  proof -
    have same: "c' = c" if "(ks, File k (Inr c')) \<in> L" "?p = node_path (path_comps root) ks" for ks k c'
      using L [OF that(1)] that(2) node_path_inject [OF ex file_node L [OF that(1)]] file_node by auto
    have "file_at (extracted ?st') q = Some x \<longleftrightarrow> file_at D q = Some x \<or>
        (\<exists>ks k. (ks, File k (Inr x)) \<in> insert (ns, File i (Inr c)) L \<and> q = node_path (path_comps root) ks)" for q x
    proof (cases "q = ?p")
      case True
      then show ?thesis using fresh_file [OF ex file_node] same by auto
    next
      case False
      then show ?thesis using D1(3) unfolding extracted_so_far_def by auto
    qed
    then show ?thesis using D1(2,3) unfolding extracted_so_far_def by (simp add: is_dir_at_def)
  qed
  ultimately show ?thesis by blast
qed

lemma extract_nodes:
  assumes ex: "extraction E t root D"
    and "\<And>ns d. (ns, d) \<in> set xs \<Longrightarrow> find_node t ns = Some d \<and> (is_regular d \<or> is_dir d) \<and>
      wf_node d \<and> complete d \<and> validRelPath (path_of False ns)"
    and "extracted_so_far t (path_comps root) D L st" and "\<And>ns d. (ns, d) \<in> L \<Longrightarrow> find_node t ns = Some d"
  shows "\<exists>st'. untar_entries E (-1) root (map entry_of xs) st = (Inr (), st') \<and>
    extracted_so_far t (path_comps root) D (L \<union> set xs) st'"
  using assms(2-4)
proof (induction xs arbitrary: L st)
  case (Cons x xs)
  obtain ns d where x: "x = (ns, d)" by (cases x)
  then have d: "find_node t ns = Some d" "is_regular d \<or> is_dir d" "wf_node d" "complete d"
      "validRelPath (path_of False ns)"
    using Cons.prems(1) [of ns d] by auto
  have "\<exists>st'. untar_entry E (-1) root (entry_of x) st = (Inr (), st') \<and> extracted_so_far t (path_comps root) D (insert x L) st'"
  proof (cases d)
    case (File i r)
    then obtain c where c: "r = Inr c" using d(4) by (cases r) auto
    then have "Size i = length c" using d(3) File by simp
    then show ?thesis
      using extract_file [OF ex Cons.prems(2,3) _ d(5)] d(1) unfolding x File c by blast
  next
    case (Directory i e cs)
    then show ?thesis
      using extract_dir [OF ex Cons.prems(2,3) _ d(5)] d(1) unfolding x Directory by blast
  next
    case (Special i)
    then show ?thesis using d(2) by simp
  qed
  then obtain st1 where st1: "untar_entry E (-1) root (entry_of x) st = (Inr (), st1)"
      "extracted_so_far t (path_comps root) D (insert x L) st1" by blast
  have L: "find_node t ks = Some k" if "(ks, k) \<in> insert x L" for ks k
    using that d(1) x Cons.prems(3) by auto
  have rest: "find_node t ks = Some k \<and> (is_regular k \<or> is_dir k) \<and>
      wf_node k \<and> complete k \<and> validRelPath (path_of False ks)" if "(ks, k) \<in> set xs" for ks k
    by (rule Cons.prems(1)) (use that in simp)
  obtain st' where "untar_entries E (-1) root (map entry_of xs) st1 = (Inr (), st')"
      "extracted_so_far t (path_comps root) D (insert x L \<union> set xs) st'"
    using Cons.IH [OF rest st1(2) L] by blast
  then show ?case using st1(1) by simp
qed simp

text \<open>
  An archive can be extracted when all its names are valid: without a backslash and without a
  directory whose name ends in two dots.
\<close>

definition extractable :: "file_node \<Rightarrow> bool" where
  "extractable t \<longleftrightarrow>
     list_all (\<lambda>(ns, d). is_regular d \<or> is_dir d \<longrightarrow> validRelPath (path_of False ns)) (nodes (sort_node t))"

definition as_entry :: "tar_member \<Rightarrow> tar_entry" where
  "as_entry = (\<lambda>(h, content). (h, content, Inr ()))"

lemma archive_entries:
  "map as_entry (archive_members t) =
   map entry_of (filter (\<lambda>(ns, d). is_regular d \<or> is_dir d) (nodes (sort_node t)))"
  by (simp add: archive_members_def as_entry_def entry_of_def comp_def case_prod_unfold)

text \<open>
  Extracting the archive of a directory gives its regular files back, below the directory it is
  extracted to, and changes no other file.
\<close>

lemma Untar_archive:
  assumes "permissive E" and "untar_dir E dir = Inr root" and "filepath_IsAbs root"
    and "filepath_Clean root = root" and "untargz E blob = Inr (map as_entry (archive_members t), Inr ())"
    and "wf_node t" and "complete t" and "is_dir t" and "fresh_dir D root" and "extractable t"
  shows "\<exists>D'. Untar E (-1) blob dir D = (Inr (), D') \<and>
    (\<forall>q c. file_at D' q = Some c \<longleftrightarrow> file_at D q = Some c \<or>
       (\<exists>ns i. find_node t ns = Some (File i (Inr c)) \<and> q = node_path (path_comps root) ns)) \<and>
    (\<forall>q. dir_at D q \<longrightarrow> dir_at D' q) \<and>
    (\<forall>q. dir_at D' q \<longrightarrow> dir_at D q \<or> prefix (path_comps q) (path_comps root) \<or>
       prefix (path_comps root) (path_comps q))"
proof -
  let ?t = "sort_node t" and ?xs = "filter (\<lambda>(ns, d). is_regular d \<or> is_dir d) (nodes (sort_node t))"
    and ?rcs = "path_comps root"
  have ex: "extraction E ?t root D" using assms by (simp add: extraction_def)
  let ?st = "\<lparr>extracted = D, madeDir = [], processedBytes = 0\<rparr>"
  have start: "extracted_so_far ?t ?rcs D {} ?st" by (simp add: extracted_so_far_def)
  have nodes_t: "find_node ?t ns = Some d \<and> (is_regular d \<or> is_dir d) \<and> wf_node d \<and> complete d \<and>
      validRelPath (path_of False ns)" if "(ns, d) \<in> set ?xs" for ns d
  proof -
    have n: "(ns, d) \<in> set (nodes ?t)" "is_regular d \<or> is_dir d" using that by auto
    then have "validRelPath (path_of False ns)"
      using assms(10) by (auto simp: extractable_def list_all_iff)
    then show ?thesis
      using n assms(6,7) nodes_find [of ?t ns d] wf_nodes [of ?t ns d] complete_nodes [of ?t ns d] by simp
  qed
  obtain st' where st': "untar_entries E (-1) root (map entry_of ?xs) ?st = (Inr (), st')"
      "extracted_so_far ?t ?rcs D ({} \<union> set ?xs) st'"
    using extract_nodes [OF ex nodes_t start] by blast
  have "os_Lstat E root D = Inr (Some True) \<or> os_Lstat E root D = Inr None"
    using assms(1) fresh_prefix [OF ex take_is_prefix]
      fresh_file [OF ex, of "[]"] Clean_rooted [OF assms(3)] assms(4)
    by (simp add: os_Lstat_def permissive_def under_file_def list_ex_iff)
  then have "Untar E (-1) blob dir D = (Inr (), extracted st')"
    using assms(2,5) st'(1) by (auto simp: Untar_def archive_entries)
  moreover have "(ns, File i (Inr c)) \<in> set ?xs \<longleftrightarrow> find_node t ns = Some (File i (Inr c))" for ns i c
  proof -
    have "sort_node e = File i (Inr c) \<longleftrightarrow> e = File i (Inr c)" for e by (cases e) auto
    then show ?thesis using assms(6) by (auto simp: nodes_find find_sort_node)
  qed
  moreover have "dir_at D q \<Longrightarrow> dir_at (extracted st') q" for q
    using untar_entries_inside [OF st'(1) assms(3)] by (simp add: stays_inside_def)
  moreover have "dir_at D q \<or> prefix (path_comps q) ?rcs \<or> prefix ?rcs (path_comps q)"
    if q: "dir_at (extracted st') q" for q
  proof -
    consider "dir_at D q" | cs where "prefix cs ?rcs" "q = path_of True cs"
      | ms i e cs where "find_node ?t ms = Some (Directory i e cs)" "q = node_path ?rcs ms"
      using st'(2) q unfolding extracted_so_far_def by auto
    then show ?thesis
    proof cases
      case 2
      then have "down_comps cs" using extractionD(7) [OF ex] by (auto simp: prefix_def)
      then show ?thesis using 2 by simp
    next
      case 3
      then show ?thesis using path_comps_node [OF ex 3(1)] by simp
    qed simp
  qed
  ultimately show ?thesis using st'(2) unfolding extracted_so_far_def by simp
qed

text \<open>An archive with an invalid name is never extracted without an error.\<close>

lemma untar_entries_invalid:
  "e \<in> set es \<Longrightarrow> \<not> validRelPath (HeaderName (fst e)) \<Longrightarrow> isl (fst (untar_entries E m root es st))"
proof (induction es arbitrary: st)
  case (Cons x xs)
  obtain r st1 where x: "untar_entry E m root x st = (r, st1)" by fastforce
  show ?case
  proof (cases "x = e")
    case True
    then have "isl r" using x Cons.prems(2) by (auto simp: untar_entry_def Let_def split: if_splits)
    then show ?thesis using x by (cases r) simp_all
  next
    case False
    then show ?thesis using Cons x by (cases r) auto
  qed
qed simp

lemma Untar_invalid:
  assumes "untargz E blob = Inr (map as_entry (archive_members t), ending)" and "\<not> extractable t"
  shows "isl (fst (Untar E m blob dir D))"
proof -
  obtain ns d where nd: "(ns, d) \<in> set (nodes (sort_node t))" "is_regular d \<or> is_dir d"
      "\<not> validRelPath (path_of False ns)"
    using assms(2) by (auto simp: extractable_def list_all_iff)
  let ?es = "map as_entry (archive_members t)"
  have "entry_of (ns, d) \<in> set ?es" unfolding archive_entries using nd by auto
  moreover have "\<not> validRelPath (HeaderName (fst (entry_of (ns, d))))" using nd by (simp add: entry_of_def)
  ultimately have bad: "isl (fst (untar_entries E m root ?es st))" for root st
    by (rule untar_entries_invalid)
  show ?thesis
  proof (cases "rbind (untar_dir E dir) (\<lambda>root.
             rbind (wrap ''cannot lstat'' (os_Lstat E root D)) (\<lambda>fi.
             if fi = Some False then Inl (Fail (NotADirectory root))
             else rmap (Pair root) (wrap ''requires gzip-compressed body'' (untargz E blob))))")
    case (Inl e)
    then show ?thesis by (simp add: Untar_def)
  next
    case (Inr x)
    then obtain root where x: "x = (root, ?es, ending)"
      using assms(1) by (auto simp: rbind_Inr_conv rmap_Inr_conv split: if_splits)
    show ?thesis
      using bad [of root "\<lparr>extracted = D, madeDir = [], processedBytes = 0\<rparr>"]
      unfolding Untar_def Inr x by (auto split: prod.splits sum.splits)
  qed
qed

end
