(* ===== verification/Tape_Pull.thy ===== *)
theory Tape_Pull
  imports Untar Tape_Command
begin

section \<open>The pull command\<close>

text \<open>
  \<open>tape/app/pull.go\<close>: the archive of a package is extracted into a directory, and its attestations
  are written to a file or to standard output.  The state is the disk and what was printed.
\<close>

record TapePullCommand = TapeCommand +
  OutputManifestDir :: string
  PullImage :: string
  Attestations :: string

record pull_state =
  pull_disk :: os_disk
  pull_stdout :: string

text \<open>\<open>write_check\<close> is the answer of the writes to an open file or to standard output.\<close>

record pull_env =
  extract_of :: extract_env
  write_check :: "string \<Rightarrow> unit res"

text \<open>The reader of the attestations: as they are for a file that ends in \<open>.gz\<close>, else decompressed.\<close>

definition attestations_reader :: "pull_env \<Rightarrow> string \<Rightarrow> string \<Rightarrow> (string \<times> unit res) res" where
  "attestations_reader E name blob =
     (if filepath_Ext name = ''.gz'' then Inr (blob, Inr ())
      else wrap ''failed to decompress attestations file'' (gunzip (extract_of E) blob))"

text \<open>\<^verbatim>\<open>io.Copy\<close>: what was read before an error has been written.\<close>

definition write_attestations ::
    "pull_env \<Rightarrow> string \<Rightarrow> string \<times> unit res \<Rightarrow> pull_state \<Rightarrow> unit res \<times> pull_state" where
  "write_attestations E name = (\<lambda>(content, err) st.
     if name = ''-'' then
       (wrap ''failed to write attestations file'' (rbind (write_check E name) (\<lambda>_. err)),
        if isl (write_check E name) then st else st\<lparr>pull_stdout := pull_stdout st @ content\<rparr>)
     else
       let p = resolve (extract_of E) name
       in case os_Create (extract_of E) True p (pull_disk st) of
            (Inl e, D) \<Rightarrow> (wrap ''failed to create attestations file'' (Inl e), st\<lparr>pull_disk := D\<rparr>)
          | (Inr _, D) \<Rightarrow>
              (wrap ''failed to write attestations file'' (rbind (write_check E name) (\<lambda>_. err)),
               st\<lparr>pull_disk := if isl (write_check E name) then D
                   else D\<lparr>file_at := (file_at D)(p \<mapsto> content)\<rparr>\<rparr>))"

definition pull_artefact ::
    "pull_env \<Rightarrow> 'a TapePullCommand_scheme \<Rightarrow> ArtefactInfo \<Rightarrow> pull_state \<Rightarrow> unit res \<times> pull_state" where
  "pull_artefact E cmd artefact st =
     (if InfoMediaType artefact = ContentMediaType then
        (case Untar (extract_of E) (-1) (Content artefact) (OutputManifestDir cmd) (pull_disk st) of (r, D) \<Rightarrow>
           (wrap ''failed to exatract manifests'' r, st\<lparr>pull_disk := D\<rparr>))
      else if InfoMediaType artefact = AttestMediaType then
        if Attestations cmd = [] then (Inr (), st)
        else case attestations_reader E (Attestations cmd) (Content artefact) of
               Inl e \<Rightarrow> (Inl e, st)
             | Inr r \<Rightarrow> write_attestations E (Attestations cmd) r st
      else (Inr (), st))"

fun pull_artefacts ::
    "pull_env \<Rightarrow> 'a TapePullCommand_scheme \<Rightarrow> ArtefactInfo list \<Rightarrow> pull_state \<Rightarrow> unit res \<times> pull_state" where
  "pull_artefacts E cmd [] st = (Inr (), st)"
| "pull_artefacts E cmd (a # as) st =
     (case pull_artefact E cmd a st of
        (Inl e, st') \<Rightarrow> (Inl e, st')
      | (Inr _, st') \<Rightarrow> pull_artefacts E cmd as st')"

definition pull_Execute ::
    "pull_env \<Rightarrow> ('w, 'r) remote \<Rightarrow> 'a TapePullCommand_scheme \<Rightarrow> string list \<Rightarrow> 'w \<Rightarrow> pull_state
      \<Rightarrow> unit res \<times> pull_state" where
  "pull_Execute E R cmd args w st =
     (case if args \<noteq> [] then Inl (Fail UnexpectedArguments)
           else rbind (fst (Init cmd)) (\<lambda>_. Fetch R (PullImage cmd) [ContentMediaType, AttestMediaType] w) of
        Inl e \<Rightarrow> (Inl e, st)
      | Inr artefacts \<Rightarrow> pull_artefacts E cmd artefacts st)"

subsection \<open>What pulling writes\<close>

text \<open>Files are not removed, and a new one is inside the directory or is the attestations file.\<close>

definition writes_only :: "extract_env \<Rightarrow> string \<Rightarrow> string \<Rightarrow> os_disk \<Rightarrow> os_disk \<Rightarrow> bool" where
  "writes_only X d name D D' \<longleftrightarrow>
     (\<forall>q. dir_at D q \<longrightarrow> dir_at D' q) \<and>
     (\<forall>q. file_at D q \<noteq> None \<longrightarrow> file_at D' q \<noteq> None) \<and>
     (\<forall>q. file_at D' q \<noteq> file_at D q \<longrightarrow>
        (\<exists>root. untar_dir X d = Inr root \<and>
           (prefix (path_comps root) (path_comps q) \<or>
            path_comps q = butlast (path_comps root) \<and> \<not> is_dir_at D q)) \<or>
        q = resolve X name \<and> file_at D q = None)"

lemma writes_only_refl [simp]: "writes_only X d name D D"
  by (simp add: writes_only_def)

lemma writes_only_trans:
  assumes "writes_only X d name D D'" and "writes_only X d name D' D''"
  shows "writes_only X d name D D''"
proof -
  have dirs: "is_dir_at D q \<Longrightarrow> is_dir_at D' q" and none: "file_at D' q = None \<Longrightarrow> file_at D q = None" for q
    using assms(1) unfolding writes_only_def is_dir_at_def by blast+
  have "(\<exists>root. untar_dir X d = Inr root \<and>
      (prefix (path_comps root) (path_comps q) \<or>
       path_comps q = butlast (path_comps root) \<and> \<not> is_dir_at D q)) \<or>
      q = resolve X name \<and> file_at D q = None"
    if "file_at D'' q \<noteq> file_at D q" for q
  proof (cases "file_at D' q = file_at D q")
    case True
    then show ?thesis using that assms(2) dirs unfolding writes_only_def by metis
  next
    case False
    then show ?thesis using assms(1) unfolding writes_only_def by blast
  qed
  then show ?thesis using assms unfolding writes_only_def by blast
qed

lemma pull_artefact_writes:
  assumes "pull_artefact E cmd a st = (r, st')" and "filepath_IsAbs (work_dir (extract_of E))"
  shows "writes_only (extract_of E) (OutputManifestDir cmd) (Attestations cmd) (pull_disk st) (pull_disk st')"
proof (cases "InfoMediaType a = ContentMediaType")
  case True
  obtain r1 D1 where run: "Untar (extract_of E) (-1) (Content a) (OutputManifestDir cmd) (pull_disk st) = (r1, D1)"
    by fastforce
  then have "pull_disk st' = D1" using assms(1) True by (auto simp: pull_artefact_def)
  then show ?thesis
    using Untar_inside [OF run assms(2)] by (auto simp: writes_only_def stays_inside_def)
next
  case False
  show ?thesis
  proof (cases "pull_disk st' = pull_disk st")
    case changed: False
    let ?p = "resolve (extract_of E) (Attestations cmd)"
    obtain content err where w: "write_attestations E (Attestations cmd) (content, err) st = (r, st')"
      using assms(1) False changed
      by (auto simp: pull_artefact_def split: if_splits sum.splits)
    obtain r1 D1 where cr: "os_Create (extract_of E) True ?p (pull_disk st) = (r1, D1)" by fastforce
    have D1: "D1 = (pull_disk st)\<lparr>file_at := (file_at (pull_disk st))(?p \<mapsto> [])\<rparr>" "file_at (pull_disk st) ?p = None"
      using os_Create_cases [OF cr] w cr changed
      by (auto simp: write_attestations_def Let_def split: if_splits sum.splits)
    have "pull_disk st' = D1 \<or> pull_disk st' = D1\<lparr>file_at := (file_at D1)(?p \<mapsto> content)\<rparr>"
      using w cr changed by (auto simp: write_attestations_def Let_def split: if_splits sum.splits)
    then show ?thesis using D1(2) unfolding D1(1) by (auto simp: writes_only_def split: if_splits)
  qed simp
qed

lemma pull_artefacts_writes:
  "pull_artefacts E cmd as st = (r, st') \<Longrightarrow> filepath_IsAbs (work_dir (extract_of E))
    \<Longrightarrow> writes_only (extract_of E) (OutputManifestDir cmd) (Attestations cmd) (pull_disk st) (pull_disk st')"
proof (induction as arbitrary: st)
  case (Cons a as)
  obtain r1 st1 where a: "pull_artefact E cmd a st = (r1, st1)" by fastforce
  note w1 = pull_artefact_writes [OF a Cons.prems(2)]
  show ?case
  proof (cases r1)
    case (Inl e)
    then show ?thesis using Cons.prems(1) a w1 by simp
  next
    case (Inr u)
    then show ?thesis using writes_only_trans [OF w1 Cons.IH] Cons.prems a by simp
  qed
qed simp


subsection \<open>Pulling what was packaged\<close>

text \<open>A directory that can be archived, and readers that read what the writers of a package wrote.\<close>

definition packs :: "'p artefact_env \<Rightarrow> string \<Rightarrow> file_node \<Rightarrow> bool" where
  "packs A d t \<longleftrightarrow>
     (\<exists>p i. Abs A d = Inr p \<and> filepath_IsAbs p \<and> filepath_Clean p = p \<and> Stat A p = Exists True i \<and>
        Lstat A p = Inr t) \<and>
     wf_node t \<and> complete t \<and> is_dir t \<and> (\<forall>h. tar_WriteHeader A h = Inr ())"

definition reads_back :: "'p artefact_env \<Rightarrow> file_node \<Rightarrow> extract_env \<Rightarrow> bool" where
  "reads_back A t X \<longleftrightarrow>
     untargz X (targz A (archive_members t)) = Inr (map as_entry (archive_members t), Inr ()) \<and>
     (\<forall>s. gunzip X (gzip A s) = Inr (s, Inr ()))"

text \<open>A file for the attestations that can be made outside of the directory of the manifests.\<close>

definition separate_file :: "extract_env \<Rightarrow> string \<Rightarrow> string \<Rightarrow> os_disk \<Rightarrow> bool" where
  "separate_file X root name D \<longleftrightarrow>
     (let p = resolve X name
      in is_dir_at D (filepath_Dir p) \<and> \<not> is_dir_at D p \<and> file_at D p = None \<and>
         \<not> prefix (path_comps p) (path_comps root) \<and> \<not> prefix (path_comps root) (path_comps p))"

definition attestations_text :: "'p artefact_env \<Rightarrow> string \<Rightarrow> string \<Rightarrow> string" where
  "attestations_text A name jsonl = (if filepath_Ext name = ''.gz'' then gzip A jsonl else jsonl)"

lemma archive_of_packs:
  "packs A d t \<Longrightarrow> BuildArtefact A d = Inr (targz A (archive_members t))"
  unfolding packs_def using BuildArtefact_members by blast

lemma attestations_reader_ok:
  "reads_back A t (extract_of E) \<Longrightarrow>
     attestations_reader E name (gzip A jsonl) = Inr (attestations_text A name jsonl, Inr ())"
  by (simp add: attestations_reader_def attestations_text_def reads_back_def)

lemma write_to_stdout:
  "write_check E ''-'' = Inr () \<Longrightarrow>
     write_attestations E ''-'' (c, Inr ()) st = (Inr (), st\<lparr>pull_stdout := pull_stdout st @ c\<rparr>)"
  by (simp add: write_attestations_def)

lemma write_to_file:
  assumes "name \<noteq> ''-''" and "write_check E name = Inr ()" and "permissive (extract_of E)"
    and "is_dir_at (pull_disk st) (filepath_Dir (resolve (extract_of E) name))"
    and "\<not> is_dir_at (pull_disk st) (resolve (extract_of E) name)"
    and "file_at (pull_disk st) (resolve (extract_of E) name) = None"
  shows "write_attestations E name (c, Inr ()) st =
    (Inr (), st\<lparr>pull_disk := (pull_disk st)\<lparr>file_at := (file_at (pull_disk st))(resolve (extract_of E) name \<mapsto> c)\<rparr>\<rparr>)"
  using assms by (simp add: write_attestations_def os_Create_def permissive_def Let_def)

lemma isl_wrap [simp]: "isl (wrap msg r) = isl r"
  by (cases "(msg, r)" rule: wrap.cases) auto

lemma media_type_artefact:
  "InfoMediaType a = ContentMediaType \<Longrightarrow> pull_artefact E cmd a st =
     (case Untar (extract_of E) (-1) (Content a) (OutputManifestDir cmd) (pull_disk st) of (r, D) \<Rightarrow>
        (wrap ''failed to exatract manifests'' r, st\<lparr>pull_disk := D\<rparr>))"
  "InfoMediaType a = AttestMediaType \<Longrightarrow> reads_back A t (extract_of E) \<Longrightarrow> Content a = gzip A jsonl \<Longrightarrow>
     pull_artefact E cmd a st =
     (if Attestations cmd = [] then (Inr (), st)
      else write_attestations E (Attestations cmd) (attestations_text A (Attestations cmd) jsonl, Inr ()) st)"
  by (simp_all add: pull_artefact_def attestations_reader_ok)

text \<open>What the attestations add to the disk and to standard output.\<close>

lemma pull_attestations:
  assumes "permissive (extract_of E)" and "write_check E (Attestations cmd) = Inr ()"
    and "reads_back A t (extract_of E)" and "InfoMediaType a = AttestMediaType" and "Content a = gzip A jsonl"
    and "Attestations cmd \<notin> {[], ''-''} \<longrightarrow>
      is_dir_at (pull_disk st) (filepath_Dir (resolve (extract_of E) (Attestations cmd))) \<and>
      \<not> is_dir_at (pull_disk st) (resolve (extract_of E) (Attestations cmd)) \<and>
      file_at (pull_disk st) (resolve (extract_of E) (Attestations cmd)) = None"
  shows "\<exists>st'. pull_artefact E cmd a st = (Inr (), st') \<and>
    (\<forall>q c. file_at (pull_disk st') q = Some c \<longleftrightarrow> file_at (pull_disk st) q = Some c \<or>
       Attestations cmd \<notin> {[], ''-''} \<and> q = resolve (extract_of E) (Attestations cmd) \<and>
       c = attestations_text A (Attestations cmd) jsonl) \<and>
    pull_stdout st' = pull_stdout st @ (if Attestations cmd = ''-'' then jsonl else [])"
proof -
  note run = media_type_artefact(2) [OF assms(4,3,5), of cmd st]
  have no_ext: "attestations_text A ''-'' jsonl = jsonl"
    by (simp add: attestations_text_def filepath_Ext_def Let_def)
  consider "Attestations cmd = []" | "Attestations cmd = ''-''" | "Attestations cmd \<notin> {[], ''-''}" by blast
  then show ?thesis
  proof cases
    case 2
    then show ?thesis using run assms(2) write_to_stdout by (auto simp: no_ext)
  next
    case 3
    then show ?thesis
      using run assms(6) write_to_file [OF _ assms(2,1)] by auto
  qed (use run in simp)
qed

text \<open>What is fetched of a package: first the archive, then the attestations when there are any.\<close>

lemma Fetch_packed:
  assumes "PushArtefact R A c dest d timestamp statements w = (Inr ref, w')"
    and "serves_pushed R" and "hash_separates A" and "packs A d t"
  shows "\<exists>jsonl a as. Statements_EncodeWith (EncodeStatement A) statements [] = Inr jsonl \<and>
    Fetch R ref [ContentMediaType, AttestMediaType] w' = Inr (a # as) \<and>
    InfoMediaType a = ContentMediaType \<and> Content a = targz A (archive_members t) \<and>
    map (\<lambda>i. (InfoMediaType i, Content i)) as =
      (if statements = [] then [] else [(AttestMediaType, gzip A jsonl)])"
proof -
  obtain jsonl infos where fetched: "Statements_EncodeWith (EncodeStatement A) statements [] = Inr jsonl"
      "Fetch R ref [ContentMediaType, AttestMediaType] w' = Inr infos"
      "map (\<lambda>i. (InfoMediaType i, Content i)) infos =
        (ContentMediaType, targz A (archive_members t)) #
        (if statements = [] then [] else [(AttestMediaType, gzip A jsonl)])"
    using Fetch_pushed [OF assms(1-3)] archive_of_packs [OF assms(4)]
    by (elim exE conjE) (rule that, assumption+, simp)
  then show ?thesis by (cases infos) auto
qed

text \<open>Extracting an archive leaves room for a file that is separate from it.\<close>

lemma separate_after_extraction:
  assumes "separate_file X root name D" and "extraction X t root D"
    and "\<forall>q c. file_at D' q = Some c \<longleftrightarrow> file_at D q = Some c \<or>
       (\<exists>ns i. find_node t ns = Some (File i (Inr c)) \<and> q = node_path (path_comps root) ns)"
    and "\<forall>q. dir_at D q \<longrightarrow> dir_at D' q"
    and "\<forall>q. dir_at D' q \<longrightarrow> dir_at D q \<or> prefix (path_comps q) (path_comps root) \<or>
       prefix (path_comps root) (path_comps q)"
  shows "is_dir_at D' (filepath_Dir (resolve X name)) \<and> \<not> is_dir_at D' (resolve X name) \<and>
    file_at D' (resolve X name) = None"
proof -
  let ?p = "resolve X name"
  have p: "is_dir_at D (filepath_Dir ?p)" "\<not> is_dir_at D ?p" "file_at D ?p = None"
      "\<not> prefix (path_comps ?p) (path_comps root)" "\<not> prefix (path_comps root) (path_comps ?p)"
    using assms(1) by (auto simp: separate_file_def Let_def)
  have "?p \<noteq> node_path (path_comps root) ns" if "find_node t ns = Some n" for ns n
    using path_comps_node [OF assms(2) that] p(5) by auto
  then have "file_at D' ?p = None" using assms(3) p(3) by (metis not_None_eq)
  then show ?thesis using p assms(4,5) unfolding is_dir_at_def by blast
qed

lemma pull_pushed:
  assumes "PushArtefact R A c dest d timestamp statements w = (Inr (PullImage cmd), w')"
    and "serves_pushed R" and "hash_separates A" and "packs A d t" and "reads_back A t (extract_of E)"
    and "permissive (extract_of E)" and "fst (Init cmd) = Inr ()"
    and "write_check E (Attestations cmd) = Inr ()"
    and "untar_dir (extract_of E) (OutputManifestDir cmd) = Inr root" and "filepath_IsAbs root"
    and "filepath_Clean root = root" and "fresh_dir (pull_disk st) root" and "extractable t"
    and "Attestations cmd \<notin> {[], ''-''} \<longrightarrow>
      separate_file (extract_of E) root (Attestations cmd) (pull_disk st)"
  shows "\<exists>jsonl st'. Statements_EncodeWith (EncodeStatement A) statements [] = Inr jsonl \<and>
    pull_Execute E R cmd [] w' st = (Inr (), st') \<and>
    (\<forall>q c. file_at (pull_disk st') q = Some c \<longleftrightarrow> file_at (pull_disk st) q = Some c \<or>
       (\<exists>ns i. find_node t ns = Some (File i (Inr c)) \<and> q = node_path (path_comps root) ns) \<or>
       statements \<noteq> [] \<and> Attestations cmd \<notin> {[], ''-''} \<and>
         q = resolve (extract_of E) (Attestations cmd) \<and> c = attestations_text A (Attestations cmd) jsonl) \<and>
    pull_stdout st' = pull_stdout st @ (if statements \<noteq> [] \<and> Attestations cmd = ''-'' then jsonl else [])"
proof -
  obtain jsonl a as where fetched: "Statements_EncodeWith (EncodeStatement A) statements [] = Inr jsonl"
      "Fetch R (PullImage cmd) [ContentMediaType, AttestMediaType] w' = Inr (a # as)"
    and infos: "InfoMediaType a = ContentMediaType" "Content a = targz A (archive_members t)"
      "map (\<lambda>i. (InfoMediaType i, Content i)) as =
        (if statements = [] then [] else [(AttestMediaType, gzip A jsonl)])"
    using Fetch_packed [OF assms(1-4)] by blast
  have wf: "wf_node t" "complete t" "is_dir t" using assms(4) by (simp_all add: packs_def)
  have "untargz (extract_of E) (Content a) = Inr (map as_entry (archive_members t), Inr ())"
    using assms(5) infos(2) by (simp add: reads_back_def)
  from Untar_archive [OF assms(6,9,10,11) this wf assms(12,13)]
  obtain D' where D': "Untar (extract_of E) (-1) (Content a) (OutputManifestDir cmd) (pull_disk st) = (Inr (), D')"
      "\<forall>q c. file_at D' q = Some c \<longleftrightarrow> file_at (pull_disk st) q = Some c \<or>
         (\<exists>ns i. find_node t ns = Some (File i (Inr c)) \<and> q = node_path (path_comps root) ns)"
      "\<forall>q. dir_at (pull_disk st) q \<longrightarrow> dir_at D' q"
      "\<forall>q. dir_at D' q \<longrightarrow> dir_at (pull_disk st) q \<or> prefix (path_comps q) (path_comps root) \<or>
         prefix (path_comps root) (path_comps q)"
    by (elim exE conjE) (rule that)
  let ?st = "st\<lparr>pull_disk := D'\<rparr>" and ?p = "resolve (extract_of E) (Attestations cmd)"
  have first: "pull_artefact E cmd a st = (Inr (), ?st)"
    using D'(1) by (simp add: media_type_artefact(1) [OF infos(1)])
  have start: "pull_Execute E R cmd [] w' st = pull_artefacts E cmd as ?st"
    using assms(7) fetched(2) first by (simp add: pull_Execute_def)
  show ?thesis
  proof (cases "statements = []")
    case True
    then have "as = []" using infos(3) by simp
    then show ?thesis using fetched(1) start D'(2) True by auto
  next
    case False
    then obtain b where b: "as = [b]" "InfoMediaType b = AttestMediaType" "Content b = gzip A jsonl"
      using infos(3) by auto
    have "extraction (extract_of E) t root (pull_disk st)"
      using assms(6,10,11,12) wf by (simp add: extraction_def)
    from separate_after_extraction [OF _ this D'(2-4)] assms(14)
    have "Attestations cmd \<notin> {[], ''-''} \<longrightarrow>
        is_dir_at D' (filepath_Dir ?p) \<and> \<not> is_dir_at D' ?p \<and> file_at D' ?p = None" by blast
    then obtain st' where st': "pull_artefact E cmd b ?st = (Inr (), st')"
        "\<forall>q c. file_at (pull_disk st') q = Some c \<longleftrightarrow> file_at D' q = Some c \<or>
           Attestations cmd \<notin> {[], ''-''} \<and> q = ?p \<and> c = attestations_text A (Attestations cmd) jsonl"
        "pull_stdout st' = pull_stdout st @ (if Attestations cmd = ''-'' then jsonl else [])"
      using pull_attestations [OF assms(6,8,5) b(2,3), of ?st] by auto
    then have "pull_Execute E R cmd [] w' st = (Inr (), st')" using start b(1) by simp
    then show ?thesis using fetched(1) st' D'(2) False by (intro exI [of _ jsonl] exI [of _ st']) auto
  qed
qed

text \<open>
  C4: pulling a package restores what was packaged: after \<open>PushArtefact\<close> has pushed a directory, pulling
  the reference it returned succeeds, and the files there are then are those of before, every
  regular file of the directory below the output directory with its content, and the attestations,
  decompressed unless the name asked for ends in \<^verbatim>\<open>.gz\<close>.  All names in the directory have to be ones that
  \<open>Untar\<close> accepts.
\<close>

theorem Pull_restores_package:
  assumes "PushArtefact R A c dest d timestamp statements w = (Inr (PullImage cmd), w')"
    and "serves_pushed R" and "hash_separates A" and "packs A d t" and "reads_back A t (extract_of E)"
    and "permissive (extract_of E)" and "fst (Init cmd) = Inr ()"
    and "write_check E (Attestations cmd) = Inr ()"
    and "untar_dir (extract_of E) (OutputManifestDir cmd) = Inr root" and "filepath_IsAbs root"
    and "filepath_Clean root = root" and "fresh_dir (pull_disk st) root" and "extractable t"
    and "Attestations cmd \<notin> {[], ''-''} \<longrightarrow>
      separate_file (extract_of E) root (Attestations cmd) (pull_disk st)"
  shows "\<exists>jsonl st'. Statements_EncodeWith (EncodeStatement A) statements [] = Inr jsonl \<and>
    pull_Execute E R cmd [] w' st = (Inr (), st') \<and>
    (\<forall>q c. file_at (pull_disk st') q = Some c \<longleftrightarrow> file_at (pull_disk st) q = Some c \<or>
       (\<exists>ns i. find_node t ns = Some (File i (Inr c)) \<and> q = node_path (path_comps root) ns) \<or>
       statements \<noteq> [] \<and> Attestations cmd \<notin> {[], ''-''} \<and>
         q = resolve (extract_of E) (Attestations cmd) \<and> c = attestations_text A (Attestations cmd) jsonl) \<and>
    pull_stdout st' = pull_stdout st @ (if statements \<noteq> [] \<and> Attestations cmd = ''-'' then jsonl else [])"
  by (rule pull_pushed [OF assms])

subsection \<open>An example\<close>

definition sample_extract_env :: extract_env where
  "sample_extract_env =
     \<lparr>work_dir = ''/home'', Getwd = Inr (), may_look = (\<lambda>_. Inr ()), may_write = (\<lambda>_. Inr ()),
      Chtimes = (\<lambda>_ _. Inr ()), untar_Now = 1,
      untargz = (\<lambda>s. if s = targz sample_artefact_env (archive_members sample_tree)
        then Inr (map as_entry (archive_members sample_tree), Inr ()) else Inl (Fail (External s))),
      gunzip = (\<lambda>s. Inr (s, Inr ()))\<rparr>"

definition sample_pull_env :: pull_env where
  "sample_pull_env = \<lparr>extract_of = sample_extract_env, write_check = (\<lambda>_. Inr ())\<rparr>"

definition sample_pull :: "string \<Rightarrow> TapePullCommand" where
  "sample_pull ref =
     \<lparr>LogLevel = ''info'', tape_log = None, OutputManifestDir = ''/out'', PullImage = ref,
      Attestations = ''/att.jsonl''\<rparr>"

definition empty_disk :: pull_state where
  "empty_disk = \<lparr>pull_disk = \<lparr>file_at = Map.empty, dir_at = (\<lambda>_. False)\<rparr>, pull_stdout = []\<rparr>"

definition sample_pushed :: "string res \<times> memory" where
  "sample_pushed = PushArtefact mem_remote sample_artefact_env (\<lambda>_. in_order) ''host/app'' ''src'' (Some 5)
     [sample_statement ''type'' ''name'' ''digest''] \<lparr>Tags = [], Blobs = []\<rparr>"

definition sample_run :: "unit res \<times> pull_state" where
  "sample_run = pull_Execute sample_pull_env mem_remote (sample_pull ''host/app:config.2e612e7@sha256:index'') []
     (snd sample_pushed) empty_disk"

lemma sample_ref: "fst sample_pushed = Inr ''host/app:config.2e612e7@sha256:index''"
  by code_simp


theorem Pull_restores_package_witness:
  "\<exists>st'. pull_Execute sample_pull_env mem_remote (sample_pull ''host/app:config.2e612e7@sha256:index'') []
      (snd sample_pushed) empty_disk = (Inr (), st') \<and>
    file_at (pull_disk st') ''/out/a.yaml'' = Some ''aa'' \<and>
    (\<exists>jsonl. file_at (pull_disk st') ''/att.jsonl'' = Some jsonl) \<and> pull_stdout st' = []"
proof -
  let ?ref = "''host/app:config.2e612e7@sha256:index''"
  have pushed: "PushArtefact mem_remote sample_artefact_env (\<lambda>_. in_order) ''host/app'' ''src'' (Some 5)
      [sample_statement ''type'' ''name'' ''digest''] \<lparr>Tags = [], Blobs = []\<rparr> =
      (Inr (PullImage (sample_pull ?ref)), snd sample_pushed)"
    using sample_ref by (simp add: sample_pushed_def sample_pull_def prod_eq_iff)
  have packs: "packs sample_artefact_env ''src'' sample_tree"
    unfolding packs_def
    by (intro conjI exI [of _ "''/src''"] exI [of _ sample_info] allI sample_archive)
      (simp add: sample_tree_def)
  have reads: "reads_back sample_artefact_env sample_tree (extract_of sample_pull_env)"
    by (simp add: reads_back_def sample_pull_env_def sample_extract_env_def sample_env_def)
  have perm: "permissive (extract_of sample_pull_env)"
    by (simp add: permissive_def sample_pull_env_def sample_extract_env_def)
  have init: "fst (Init (sample_pull ?ref)) = Inr ()" by code_simp
  have check: "write_check sample_pull_env (Attestations (sample_pull ?ref)) = Inr ()"
    by (simp add: sample_pull_env_def)
  have root: "untar_dir (extract_of sample_pull_env) (OutputManifestDir (sample_pull ?ref)) = Inr ''/out''"
      "filepath_IsAbs ''/out''" "filepath_Clean ''/out'' = ''/out''"
    by code_simp+
  have fresh: "fresh_dir (pull_disk empty_disk) ''/out''"
    by (simp add: fresh_dir_def empty_disk_def)
  have ext: "extractable sample_tree" by code_simp
  have sep: "separate_file (extract_of sample_pull_env) ''/out'' (Attestations (sample_pull ?ref)) (pull_disk empty_disk)"
    by code_simp
  from Pull_restores_package [OF pushed mem_remote_serves_pushed sample_hash_separates packs reads perm init
      check root fresh ext] sep
  obtain jsonl st' where st': "pull_Execute sample_pull_env mem_remote (sample_pull ?ref) [] (snd sample_pushed) empty_disk =
      (Inr (), st')"
      "\<forall>q c. file_at (pull_disk st') q = Some c \<longleftrightarrow> file_at (pull_disk empty_disk) q = Some c \<or>
       (\<exists>ns i. find_node sample_tree ns = Some (File i (Inr c)) \<and> q = node_path (path_comps ''/out'') ns) \<or>
       Attestations (sample_pull ?ref) \<notin> {[], ''-''} \<and>
         q = resolve (extract_of sample_pull_env) (Attestations (sample_pull ?ref)) \<and>
         c = attestations_text sample_artefact_env (Attestations (sample_pull ?ref)) jsonl"
      "pull_stdout st' = pull_stdout empty_disk @ (if Attestations (sample_pull ?ref) = ''-'' then jsonl else [])"
    by auto
  have "find_node sample_tree [''a.yaml''] = Some (File sample_info (Inr ''aa''))"
      "''/out/a.yaml'' = node_path (path_comps ''/out'') [''a.yaml'']"
      "''/att.jsonl'' = resolve (extract_of sample_pull_env) (Attestations (sample_pull ?ref))"
      "Attestations (sample_pull ?ref) \<notin> {[], ''-''}"
    by code_simp+
  then have "file_at (pull_disk st') ''/out/a.yaml'' = Some ''aa''"
      "\<exists>jsonl. file_at (pull_disk st') ''/att.jsonl'' = Some jsonl"
    using st'(2) by blast+
  moreover have "pull_stdout st' = []"
    using st'(3) by (simp add: empty_disk_def sample_pull_def)
  ultimately show ?thesis using st'(1) by blast
qed

text \<open>
  C35: a directory with a name that \<open>Untar\<close> does not accept (a backslash in it, or a directory that ends
  in two dots) can be packaged, but the package can never be pulled.
\<close>

theorem Pull_rejects_names:
  assumes "PushArtefact R A c dest d timestamp statements w = (Inr (PullImage cmd), w')"
    and "serves_pushed R" and "hash_separates A" and "packs A d t" and "reads_back A t (extract_of E)"
    and "\<not> extractable t"
  shows "isl (fst (pull_Execute E R cmd args w' st))"
proof -
  obtain a as where a: "Fetch R (PullImage cmd) [ContentMediaType, AttestMediaType] w' = Inr (a # as)"
      "InfoMediaType a = ContentMediaType" "Content a = targz A (archive_members t)"
    using Fetch_packed [OF assms(1-4)] by blast
  have "untargz (extract_of E) (Content a) = Inr (map as_entry (archive_members t), Inr ())"
    using assms(5) a(3) by (simp add: reads_back_def)
  from Untar_invalid [OF this assms(6)]
  have "isl (fst (pull_artefact E cmd a st))"
    by (simp add: media_type_artefact(1) [OF a(2)] case_prod_unfold)
  then have "isl (fst (pull_artefacts E cmd (a # as) st))"
    by (auto simp: case_prod_unfold split: sum.splits)
  then show ?thesis using a(1) by (cases "fst (Init cmd)") (simp_all add: pull_Execute_def)
qed

definition dotted_tree :: file_node where
  "dotted_tree = Directory sample_info None [(''v1..'', Directory sample_info None [(''a.yaml'', File sample_info (Inr ''aa''))])]"

definition dotted_env :: "nat artefact_env" where
  "dotted_env = sample_artefact_env\<lparr>Lstat := \<lambda>_. Inr dotted_tree\<rparr>"

definition dotted_extract_env :: extract_env where
  "dotted_extract_env = sample_extract_env\<lparr>untargz :=
     \<lambda>_. Inr (map as_entry (archive_members dotted_tree), Inr ())\<rparr>"

definition dotted_pushed :: "string res \<times> memory" where
  "dotted_pushed = PushArtefact mem_remote dotted_env (\<lambda>_. in_order) ''host/app'' ''src'' (Some 5) []
     \<lparr>Tags = [], Blobs = []\<rparr>"

theorem Pull_rejects_names_witness:
  "\<exists>ref. fst dotted_pushed = Inr ref \<and>
     isl (fst (pull_Execute (sample_pull_env\<lparr>extract_of := dotted_extract_env\<rparr>) mem_remote (sample_pull ref) []
       (snd dotted_pushed) empty_disk))"
proof -
  have "\<not> isl (fst dotted_pushed)" by code_simp
  then obtain ref where ref: "fst dotted_pushed = Inr ref" by (cases "fst dotted_pushed") auto
  then have pushed: "PushArtefact mem_remote dotted_env (\<lambda>_. in_order) ''host/app'' ''src'' (Some 5) []
      \<lparr>Tags = [], Blobs = []\<rparr> = (Inr (PullImage (sample_pull ref)), snd dotted_pushed)"
    unfolding dotted_pushed_def [symmetric] by (simp add: sample_pull_def prod_eq_iff)
  have sep: "hash_separates dotted_env"
    by (simp add: hash_separates_def dotted_env_def sample_env_def)
  have packs: "packs dotted_env ''src'' dotted_tree"
  proof -
    have "wf_node dotted_tree" "complete dotted_tree" "is_dir dotted_tree"
      by (simp_all add: dotted_tree_def sample_info_def entry_name_def slash_def)
    then show ?thesis
      unfolding packs_def
      by (intro conjI exI [of _ "''/src''"] exI [of _ sample_info] allI)
        (simp_all add: dotted_env_def sample_archive)
  qed
  have reads: "reads_back dotted_env dotted_tree (extract_of (sample_pull_env\<lparr>extract_of := dotted_extract_env\<rparr>))"
    by (simp add: reads_back_def dotted_extract_env_def sample_extract_env_def dotted_env_def
        sample_env_def)
  have "\<not> extractable dotted_tree" by code_simp
  from Pull_rejects_names [OF pushed mem_remote_serves_pushed sep packs reads this] ref
  show ?thesis by blast
qed

end
