(* ===== verification/Tape_App.thy ===== *)
theory Tape_App
  imports Tape_Package Tape_Images Tape_Pull Tape_View
begin

section \<open>The program\<close>

text \<open>
  \<open>Run\<close> of \<open>tape/app/app.go\<close>: the four commands, the parser of the command line that runs one of them,
  and the status the program exits with.  Of the vendored go-flags, \<open>AddCommand\<close> and reading options
  are parameters; the end of \<open>ParseArgs\<close>, which executes the command, is modelled.
\<close>

subsection \<open>Commands and errors\<close>

datatype flags_ErrorType =
    ErrUnknown | ErrExpectedArgument | ErrUnknownFlag | ErrUnknownGroup | ErrMarshal | ErrHelp
  | ErrNoArgumentForBool | ErrRequired | ErrShortNameTooLong | ErrDuplicatedFlag | ErrTag
  | ErrCommandRequired | ErrUnknownCommand | ErrInvalidChoice | ErrInvalidTag

text \<open>
  An \<^verbatim>\<open>error\<close> by its dynamic type: \<^verbatim>\<open>flags.ErrorType\<close>, \<^verbatim>\<open>*flags.Error\<close>, or any other.
\<close>

datatype parse_error =
    AsErrorType flags_ErrorType
  | AsError flags_ErrorType string
  | AsOther go_error

datatype tape_command =
    ImagesCommand TapeImagesCommand
  | PackageCommand TapePackageCommand
  | PullCommand TapePullCommand
  | ViewCommand TapeViewCommand

definition command_names :: "string list" where
  "command_names = [''images'', ''package'', ''pull'', ''view'']"

text \<open>All commands have one \<open>TapeCommand\<close>, which starts with a new logger.\<close>

fun new_tape :: "tape_command \<Rightarrow> tape_command" where
  "new_tape (ImagesCommand c) = ImagesCommand (c\<lparr>tape_log := Some logger_New\<rparr>)"
| "new_tape (PackageCommand c) = PackageCommand (c\<lparr>tape_log := Some logger_New\<rparr>)"
| "new_tape (PullCommand c) = PullCommand (c\<lparr>tape_log := Some logger_New\<rparr>)"
| "new_tape (ViewCommand c) = ViewCommand (c\<lparr>tape_log := Some logger_New\<rparr>)"

text \<open>
  What the commands work on: the directories of manifests, the registry, the disk that is extracted to,
  and standard output.  Temporary directories are not part of it.
\<close>

record 'w app_state =
  app_fs :: file_system
  app_registry :: 'w
  app_disk :: pull_state

record ('w, 'r, 'c, 's) app_env =
  images_part :: "('w, 'r) images_env"
  package_part :: "('w, 'r, 'c, 's) package_env"
  pull_part :: pull_env
  view_part :: view_env
  AddCommand :: "string \<Rightarrow> unit res"
  flags_Parse :: "string list \<Rightarrow> (flags_ErrorType \<times> string) + (tape_command \<times> string list)"

definition print_out :: "string list \<Rightarrow> 'w app_state \<Rightarrow> 'w app_state" where
  "print_out ls st =
     st\<lparr>app_disk := (app_disk st)\<lparr>pull_stdout := pull_stdout (app_disk st) @ concat (map (\<lambda>l. l @ [newline]) ls)\<rparr>\<rparr>"

subsection \<open>Running\<close>

text \<open>\<open>c\<close> gives the choices of a run: \<open>c 0\<close> those of its steps, \<open>c 1\<close> those of printing.\<close>

fun execute ::
    "('w, 'r, 'c, 's) app_env \<Rightarrow> (nat \<Rightarrow> nat \<Rightarrow> choices) \<Rightarrow> tape_command \<Rightarrow> string list \<Rightarrow> 'w app_state
      \<Rightarrow> unit res \<times> 'w app_state" where
  "execute A c (ImagesCommand cmd) args st =
     (case images_Execute (images_part A) (c 0) (c 1) cmd args (app_fs st) (app_registry st) of
        (ls, r) \<Rightarrow> (r, print_out ls st))"
| "execute A c (PackageCommand cmd) args st =
     (case package_Execute (package_part A) (c 0) cmd args (app_fs st) (app_registry st) of
        (r, w) \<Rightarrow> (rmap (\<lambda>_. ()) r, st\<lparr>app_registry := w\<rparr>))"
| "execute A c (PullCommand cmd) args st =
     (case pull_Execute (pull_part A) (registry_of (package_part A)) cmd args (app_registry st) (app_disk st) of
        (r, d) \<Rightarrow> (r, st\<lparr>app_disk := d\<rparr>))"
| "execute A c (ViewCommand cmd) args st =
     (case view_Execute (view_part A) (registry_of (package_part A)) (c 0 0 0) cmd args (app_registry st) of
        (ls, r) \<Rightarrow> (r, print_out ls st))"

text \<open>
  \<open>ParseArgs\<close>: an error of the parser itself is a \<^verbatim>\<open>*flags.Error\<close>, else the error is that of the
  command.  A panic goes through.
\<close>

definition ParseArgs ::
    "('w, 'r, 'c, 's) app_env \<Rightarrow> (nat \<Rightarrow> nat \<Rightarrow> choices) \<Rightarrow> string list \<Rightarrow> 'w app_state
      \<Rightarrow> parse_error option res \<times> 'w app_state" where
  "ParseArgs A c args st =
     (case flags_Parse A args of
        Inl (t, message) \<Rightarrow> (Inr (Some (AsError t message)), st)
      | Inr (cmd, rest) \<Rightarrow>
          (case execute A c (new_tape cmd) rest st of
             (Inl (Panic p), st') \<Rightarrow> (Inl (Panic p), st')
           | (Inl (Fail e), st') \<Rightarrow> (Inr (Some (AsOther e)), st')
           | (Inr _, st') \<Rightarrow> (Inr None, st')))"

fun exit_status :: "parse_error option \<Rightarrow> int" where
  "exit_status None = 0"
| "exit_status (Some (AsErrorType t)) = (if t = ErrHelp then 0 else 1)"
| "exit_status (Some _) = 1"

definition Run ::
    "('w, 'r, 'c, 's) app_env \<Rightarrow> (nat \<Rightarrow> nat \<Rightarrow> choices) \<Rightarrow> string list \<Rightarrow> 'w app_state
      \<Rightarrow> int res \<times> 'w app_state" where
  "Run A c args st =
     (if list_ex (\<lambda>name. isl (AddCommand A name)) command_names then (Inr 1, st)
      else case ParseArgs A c args st of (r, st') \<Rightarrow> (rmap exit_status r, st'))"

subsection \<open>The exit status\<close>

definition commands_added :: "('w, 'r, 'c, 's) app_env \<Rightarrow> bool" where
  "commands_added A \<longleftrightarrow> (\<forall>name\<in>set command_names. AddCommand A name = Inr ())"

lemma Run_commands: "commands_added A \<Longrightarrow> Run A c args st = (case ParseArgs A c args st of (r, st') \<Rightarrow> (rmap exit_status r, st'))"
  by (auto simp: Run_def commands_added_def list_ex_iff)

lemma ParseArgs_no_ErrorType: "fst (ParseArgs A c args st) \<noteq> Inr (Some (AsErrorType t))"
  by (auto simp: ParseArgs_def split: sum.splits prod.splits fault.splits)

lemma exit_status_0: "exit_status e = 0 \<longleftrightarrow> e = None \<or> e = Some (AsErrorType ErrHelp)"
  by (cases e rule: exit_status.cases) auto

text \<open>
  The program exits with status 0 exactly when a command was run and succeeded.  So asking for help
  is a failure: the case for it is never taken, as the parser returns the other type of error.
\<close>

lemma Run_status:
  assumes "commands_added A"
  shows "fst (Run A c args st) = Inr 0 \<longleftrightarrow>
    (\<exists>cmd rest. flags_Parse A args = Inr (cmd, rest) \<and> fst (execute A c (new_tape cmd) rest st) = Inr ())"
  unfolding Run_commands [OF assms]
  by (auto simp: ParseArgs_def rmap_Inr_conv exit_status_0 split: sum.splits prod.splits fault.splits)

lemma Run_help:
  "commands_added A \<Longrightarrow> flags_Parse A args = Inl (ErrHelp, message) \<Longrightarrow> Run A c args st = (Inr 1, st)"
  by (simp add: Run_commands ParseArgs_def)

lemma Run_execute:
  assumes "commands_added A" and "flags_Parse A args = Inr (cmd, rest)"
    and "execute A c (new_tape cmd) rest st = (Inr (), st')"
  shows "Run A c args st = (Inr 0, st')"
  using assms(2,3) by (simp add: Run_commands [OF assms(1)] ParseArgs_def)

subsection \<open>Packaging and pulling\<close>

text \<open>
  The state whose directory a run of the package command pushes: its manifests are those of the
  directory that was loaded, after they were updated with the references of the copied images.
\<close>

definition packaged_state ::
    "('w, 'r, 'c, 's) package_env \<Rightarrow> (nat \<Rightarrow> choices) \<Rightarrow> TapePackageCommand \<Rightarrow> file_system \<Rightarrow> 'w
      \<Rightarrow> ('c, 's) package_state \<Rightarrow> bool" where
  "packaged_state E runs cmd S w st' \<longleftrightarrow>
     (\<exists>st0 st related rm refs images rest w1.
        package_load E runs cmd [] S = Inr st0 \<and> package_resolve E runs w st0 = Inr (st, related, rm) \<and>
        CopyImages (registry_of E) (NewRegistryCopier (package_Sum E) (OutputImage cmd))
          [package_images st, related, rm] w = (Inr refs, images # rest, w1) \<and>
        package_update E runs (st\<lparr>package_images := images\<rparr>) = Inr st')"

lemma package_Execute_pushes:
  fixes E :: "('w, 'r, 'c, 's) package_env"
  assumes "package_Execute E runs cmd [] S w = (Inr ref, w')"
  obtains st and p :: "'s predicate DefaultPackager" and w1 where "packaged_state E runs cmd S w st"
    "PushArtefact (registry_of E) (artefact_of E (package_files st)) (runs 11) (destinationRef p)
       (dir (package_images st)) (sourceEpochTimestamp p) (sourceAttestations p) w1 = (Inr ref, w')"
proof -
  obtain st0 st related rm refs images rest w1 st' p where run:
    "package_load E runs cmd [] S = Inr st0"
    "package_resolve E runs w st0 = Inr (st, related, rm)"
    "CopyImages (registry_of E) (NewRegistryCopier (package_Sum E) (OutputImage cmd))
       [package_images st, related, rm] w = (Inr refs, images # rest, w1)"
    "package_update E runs (st\<lparr>package_images := images\<rparr>) = Inr st'"
    "packager_Push (registry_of E) (artefact_of E (package_files st')) (runs 11) p
       (dir (package_images st')) w1 = (Inr ref, w')"
    by (rule package_Execute_Inr [OF assms])
  have "packaged_state E runs cmd S w st'"
    unfolding packaged_state_def using run(1-4) by (intro exI conjI)
  from that [OF this run(5) [unfolded packager_Push_def]] show ?thesis .
qed

text \<open>An example: the package of the section on packaging, pulled into an empty disk.\<close>

definition app_artefact :: "sample_summary predicate artefact_env" where
  "app_artefact = web_artefact\<lparr>Abs := (\<lambda>_. Inr ''/t'')\<rparr>"

definition app_package :: "(memory, string, sample_summary, sample_summary) package_env" where
  "app_package = (web_env True)\<lparr>artefact_of := (\<lambda>_. app_artefact)\<rparr>"

definition app_pull :: pull_env where
  "app_pull =
     \<lparr>extract_of = sample_extract_env\<lparr>untargz := (\<lambda>_. Inr (map as_entry (archive_members (web_dir ''new'')), Inr ()))\<rparr>,
      write_check = (\<lambda>_. Inr ())\<rparr>"

definition app_view :: view_env where
  "app_view =
     \<lparr>view_gunzip = (\<lambda>s. Inr (s, Inr ())), json_Decode = (\<lambda>_. Inr JNull), base64_json = (\<lambda>_. Inr JNull),
      json_Output = (\<lambda>_. Inr [])\<rparr>"

definition app_pull_command :: TapePullCommand where
  "app_pull_command =
     \<lparr>LogLevel = ''info'', tape_log = None, OutputManifestDir = ''/out'',
      PullImage = ''r.io/app:config.78@sha256:cc'', Attestations = []\<rparr>"

definition app_example :: "(memory, string, sample_summary, sample_summary) app_env" where
  "app_example =
     \<lparr>images_part = pics_env, package_part = app_package, pull_part = app_pull, view_part = app_view,
      AddCommand = (\<lambda>_. Inr ()),
      flags_Parse = (\<lambda>args. if args = [''package''] then Inr (PackageCommand web_command, [])
        else if args = [''pull''] then Inr (PullCommand app_pull_command, []) else Inl (ErrHelp, ''usage''))\<rparr>"

definition app_start :: "memory app_state" where
  "app_start = \<lparr>app_fs = web_fs, app_registry = web_registry, app_disk = empty_disk\<rparr>"

abbreviation app_runs :: "nat \<Rightarrow> nat \<Rightarrow> choices" where
  "app_runs \<equiv> (\<lambda>_. web_runs)"

lemma app_packages:
  "fst (package_Execute app_package web_runs (web_command\<lparr>tape_log := Some logger_New\<rparr>) [] web_fs web_registry) =
     Inr ''r.io/app:config.78@sha256:cc''"
  by code_simp

text \<open>
  C1: what is packaged can be pulled.  After a run of the program with a package command that succeeds, a
  run with a pull command for the reference of the package exits with status 0, and the output
  directory then holds every regular file of the directory that was packaged, with its content after
  the update, and nothing else has changed on the disk or was printed.  The registry has to serve
  what was pushed, and the archive has to be read as it was written.
\<close>

theorem Run_pull_restores_package:
  fixes A :: "('w, 'r, 'c, 's) app_env"
  assumes "commands_added A"
    and "flags_Parse A args1 = Inr (PackageCommand pack, [])" and "flags_Parse A args2 = Inr (PullCommand pull, [])"
    and "fst (package_Execute (package_part A) (c1 0) (pack\<lparr>tape_log := Some logger_New\<rparr>) [] (app_fs st) (app_registry st)) =
      Inr (PullImage pull)"
    and "serves_pushed (registry_of (package_part A))" and "\<forall>fs. hash_separates (artefact_of (package_part A) fs)"
    and "permissive (extract_of (pull_part A))" and "ParseLevel (LogLevel pull) = Inr level"
    and "Attestations pull = []" and "write_check (pull_part A) [] = Inr ()"
    and "untar_dir (extract_of (pull_part A)) (OutputManifestDir pull) = Inr root" and "filepath_IsAbs root"
    and "filepath_Clean root = root" and "fresh_dir (pull_disk (app_disk st)) root"
  shows "\<exists>st1 s. Run A c1 args1 st = (Inr 0, st1) \<and>
    packaged_state (package_part A) (c1 0) (pack\<lparr>tape_log := Some logger_New\<rparr>) (app_fs st) (app_registry st) s \<and>
    (\<forall>t. packs (artefact_of (package_part A) (package_files s)) (dir (package_images s)) t \<and>
         reads_back (artefact_of (package_part A) (package_files s)) t (extract_of (pull_part A)) \<and> extractable t \<longrightarrow>
       (\<exists>st2. Run A c2 args2 st1 = (Inr 0, st2) \<and>
          (\<forall>q x. file_at (pull_disk (app_disk st2)) q = Some x \<longleftrightarrow>
             file_at (pull_disk (app_disk st)) q = Some x \<or>
             (\<exists>ns i. find_node t ns = Some (File i (Inr x)) \<and> q = node_path (path_comps root) ns)) \<and>
          pull_stdout (app_disk st2) = pull_stdout (app_disk st) \<and> app_registry st2 = app_registry st1))"
proof -
  let ?P = "package_part A" and ?pack = "pack\<lparr>tape_log := Some logger_New\<rparr>"
  let ?pull = "pull\<lparr>tape_log := Some logger_New\<rparr>"
  obtain w' where ok: "package_Execute ?P (c1 0) ?pack [] (app_fs st) (app_registry st) = (Inr (PullImage pull), w')"
    using assms(4) by (metis prod.collapse)
  let ?st1 = "st\<lparr>app_registry := w'\<rparr>"
  have "execute A c1 (new_tape (PackageCommand pack)) [] st = (Inr (), ?st1)" using ok by simp
  note first = Run_execute [OF assms(1,2) this]
  obtain s and p :: "'s predicate DefaultPackager" and w1 where s: "packaged_state ?P (c1 0) ?pack (app_fs st) (app_registry st) s"
    and pushed: "PushArtefact (registry_of ?P) (artefact_of ?P (package_files s)) (c1 0 11) (destinationRef p)
       (dir (package_images s)) (sourceEpochTimestamp p) (sourceAttestations p) w1 = (Inr (PullImage pull), w')"
    by (rule package_Execute_pushes [OF ok])
  then have pushed': "PushArtefact (registry_of ?P) (artefact_of ?P (package_files s)) (c1 0 11) (destinationRef p)
       (dir (package_images s)) (sourceEpochTimestamp p) (sourceAttestations p) w1 = (Inr (PullImage ?pull), w')" by simp
  have init: "fst (Init ?pull) = Inr ()" using assms(8) by (simp add: Init_Inr)
  have check: "write_check (pull_part A) (Attestations ?pull) = Inr ()"
    and root: "untar_dir (extract_of (pull_part A)) (OutputManifestDir ?pull) = Inr root"
    and none: "Attestations ?pull = []" using assms(9-11) by simp_all
  have second: "\<exists>st2. Run A c2 args2 ?st1 = (Inr 0, st2) \<and>
      (\<forall>q x. file_at (pull_disk (app_disk st2)) q = Some x \<longleftrightarrow>
         file_at (pull_disk (app_disk st)) q = Some x \<or>
         (\<exists>ns i. find_node t ns = Some (File i (Inr x)) \<and> q = node_path (path_comps root) ns)) \<and>
      pull_stdout (app_disk st2) = pull_stdout (app_disk st) \<and> app_registry st2 = app_registry ?st1"
    if "packs (artefact_of ?P (package_files s)) (dir (package_images s)) t"
      and "reads_back (artefact_of ?P (package_files s)) t (extract_of (pull_part A))" and "extractable t" for t
  proof -
    note tree = that
    obtain d where d: "pull_Execute (pull_part A) (registry_of ?P) ?pull [] w' (app_disk st) = (Inr (), d)"
        "\<forall>q x. file_at (pull_disk d) q = Some x \<longleftrightarrow> file_at (pull_disk (app_disk st)) q = Some x \<or>
           (\<exists>ns i. find_node t ns = Some (File i (Inr x)) \<and> q = node_path (path_comps root) ns)"
        "pull_stdout d = pull_stdout (app_disk st)"
      using pull_pushed [OF pushed' assms(5) assms(6) [rule_format] tree(1,2) assms(7) init check root
          assms(12-14) tree(3)] none by auto
    then have "execute A c2 (new_tape (PullCommand pull)) [] ?st1 = (Inr (), ?st1\<lparr>app_disk := d\<rparr>)" by simp
    from Run_execute [OF assms(1,3) this] d(2,3) show ?thesis
      by (intro exI [of _ "?st1\<lparr>app_disk := d\<rparr>"] conjI) simp_all
  qed
  show ?thesis
    by (rule exI [of _ ?st1], rule exI [of _ s]) (use first s second in blast)
qed

theorem Run_pull_restores_package_witness:
  "\<exists>st1 st2. Run app_example app_runs [''package''] app_start = (Inr 0, st1) \<and>
     Run app_example app_runs [''pull''] st1 = (Inr 0, st2) \<and>
     file_at (pull_disk (app_disk st2)) ''/out/web.yaml'' = Some ''new''"
proof -
  let ?A = app_example and ?t = "web_dir ''new''"
  have parts: "package_part ?A = app_package" "pull_part ?A = app_pull" "registry_of app_package = mem_remote"
      "artefact_of app_package fs = app_artefact" "app_fs app_start = web_fs" "app_registry app_start = web_registry"
      "app_disk app_start = empty_disk" for fs
    by (simp_all add: app_example_def app_package_def web_env_def app_start_def)
  have added: "commands_added ?A" by (simp add: commands_added_def app_example_def)
  have parsed: "flags_Parse ?A [''package''] = Inr (PackageCommand web_command, [])"
      "flags_Parse ?A [''pull''] = Inr (PullCommand app_pull_command, [])"
    by (simp_all add: app_example_def)
  have ok: "fst (package_Execute (package_part ?A) (app_runs 0) (web_command\<lparr>tape_log := Some logger_New\<rparr>) []
      (app_fs app_start) (app_registry app_start)) = Inr (PullImage app_pull_command)"
    unfolding parts app_packages by (simp add: app_pull_command_def)
  have serves: "serves_pushed (registry_of (package_part ?A))" unfolding parts by (rule mem_remote_serves_pushed)
  have hash: "\<forall>fs. hash_separates (artefact_of (package_part ?A) fs)"
    unfolding parts by (simp add: hash_separates_def app_artefact_def web_artefact_def)
  have perm: "permissive (extract_of (pull_part ?A))"
    unfolding parts by (simp add: permissive_def app_pull_def sample_extract_env_def)
  have level: "ParseLevel (LogLevel app_pull_command) = Inr InfoLevel" by code_simp
  have none: "Attestations app_pull_command = []" by (simp add: app_pull_command_def)
  have check: "write_check (pull_part ?A) [] = Inr ()" unfolding parts by (simp add: app_pull_def)
  have root: "untar_dir (extract_of (pull_part ?A)) (OutputManifestDir app_pull_command) = Inr ''/out''"
      "filepath_IsAbs ''/out''" "filepath_Clean ''/out'' = ''/out''"
    by code_simp+
  have fresh: "fresh_dir (pull_disk (app_disk app_start)) ''/out''"
    unfolding parts by (simp add: fresh_dir_def empty_disk_def)
  have packs: "packs app_artefact d ?t" for d
    unfolding packs_def
    by (intro conjI exI [of _ "''/t''"] exI [of _ "load_info 1"] allI)
      (code_simp | simp add: app_artefact_def web_artefact_def web_dir_def)+
  have reads: "reads_back app_artefact ?t (extract_of (pull_part ?A))"
    unfolding parts by (simp add: reads_back_def app_pull_def app_artefact_def web_artefact_def sample_extract_env_def)
  have ext: "extractable ?t" by code_simp
  from Run_pull_restores_package [where ?c2.0 = app_runs, OF added parsed ok serves hash perm level none check root fresh]
  obtain st1 and s :: "(sample_summary, sample_summary) package_state" where run: "Run ?A app_runs [''package''] app_start = (Inr 0, st1)"
    and all: "\<forall>t. packs (artefact_of (package_part ?A) (package_files s)) (dir (package_images s)) t \<and>
         reads_back (artefact_of (package_part ?A) (package_files s)) t (extract_of (pull_part ?A)) \<and> extractable t \<longrightarrow>
       (\<exists>st2. Run ?A app_runs [''pull''] st1 = (Inr 0, st2) \<and>
          (\<forall>q x. file_at (pull_disk (app_disk st2)) q = Some x \<longleftrightarrow>
             file_at (pull_disk (app_disk app_start)) q = Some x \<or>
             (\<exists>ns i. find_node t ns = Some (File i (Inr x)) \<and> q = node_path (path_comps ''/out'') ns)) \<and>
          pull_stdout (app_disk st2) = pull_stdout (app_disk app_start) \<and> app_registry st2 = app_registry st1)"
    by (elim exE conjE) (rule that)
  obtain st2 where st2: "Run ?A app_runs [''pull''] st1 = (Inr 0, st2)"
      "\<forall>q x. file_at (pull_disk (app_disk st2)) q = Some x \<longleftrightarrow>
         file_at (pull_disk (app_disk app_start)) q = Some x \<or>
         (\<exists>ns i. find_node ?t ns = Some (File i (Inr x)) \<and> q = node_path (path_comps ''/out'') ns)"
    using all [rule_format, of ?t] packs reads ext unfolding parts by blast
  have "find_node ?t [''web.yaml''] = Some (File ((load_info 5)\<lparr>Size := 3\<rparr>) (Inr ''new''))"
    by (simp add: web_dir_def)
  moreover have "''/out/web.yaml'' = node_path (path_comps ''/out'') [''web.yaml'']" by code_simp
  ultimately have "file_at (pull_disk (app_disk st2)) ''/out/web.yaml'' = Some ''new''" using st2(2) by blast
  with run st2(1) show ?thesis by blast
qed

text \<open>Asking for help in the same program exits with status 1.\<close>

lemma Run_help_example: "Run app_example app_runs [''--help''] app_start = (Inr 1, app_start)"
  by (rule Run_help [of _ _ "''usage''"]) (simp_all add: commands_added_def app_example_def)

end
