(* ===== verification/Spec2Isabelle.thy ===== *)
theory Spec2Isabelle
  imports Image_List Attest_Git Image_Copier Image_Updater Manifest_Loader Tape_Package Tape_App
begin

text \<open>
  The verification of tape.

  Tape packages the Kubernetes manifests of an application together with the images they refer to.
  The command \<open>package\<close> copies a directory of manifests, finds the image references in them, resolves
  their tags to digests, copies the images into one repository, writes the new references into the
  copied manifests, and pushes these as an OCI artefact beside attestations, which say what was found
  and what was replaced.  \<open>pull\<close> extracts such a package, \<open>view\<close> shows what it holds, and \<open>images\<close>
  lists the images of a directory with their signatures, SBOMs and attestations.  The development
  models all four commands, from \<open>Run\<close> in \<open>src/tape/app/app.go\<close> down to the operations of the packages
  they call, and proves what each part promises and what their composition guarantees.  Paths below
  are under \<open>src/\<close>.

  \<^bold>\<open>How the program is modelled.\<close>  A Go struct is a record, and a struct that embeds another is a
  record that extends it.  A slice is a list; a map is an association list with distinct keys
  (\<open>gm_put\<close>, \<open>gm_get\<close>, \<open>gm_range\<close> of \<open>Prelude\<close>).  A function that can fail or panic returns \<open>'a res\<close>, which is
  \<open>fault + 'a\<close>: \<open>Inl (Fail e)\<close> is a returned error, \<open>Inl (Panic p)\<close> a panic, so that every error
  path of the code is a branch of the model; \<open>rbind\<close> sequences such calls.  The errors themselves are
  the datatypes \<open>go_error\<close> and \<open>go_panic\<close>.  A method that changes its
  receiver returns the new value, with the results when it has some.  What the language does not
  fix is an argument: \<open>order\<close> is the order in which \<^verbatim>\<open>range\<close> enumerates a map and how an unstable
  sort arranges equal elements, and the properties hold for every such choice, or say exactly when
  the result depends on it.  \<open>int\<close> values of Go are counters and line numbers far from the width of the
  machine and are \<open>int\<close> or \<open>nat\<close> here.  Code that is outside \<open>src/\<close>, and the operating system, are
  parameters: the records \<open>remote\<close> (go-containerregistry and the registry, over a registry state
  \<open>'w\<close>), \<open>git_env\<close> (go-git and the working tree), \<open>artefact_env\<close> (archive formats, hashes and file
  attributes), \<open>loader_env\<close> (temporary directories, copying, removing), the fields of \<open>package_env\<close>,
  \<open>extract_env\<close>, \<open>pull_env\<close>, \<open>view_env\<close> and \<open>images_env\<close>, and functions for the text of JSON, YAML and
  base64.  What the properties need of a parameter is stated as a hypothesis, and a witness gives
  concrete functions for which it holds.

  \<^bold>\<open>The libraries.\<close>  \<open>Prelude\<close> has results, choices, sorting by a comparison function (the
  locales \<open>comparator\<close> and \<open>strict_comparator\<close>) and Go maps (\<open>map_interface\<close>).  \<open>Go_Strings\<close> and \<open>Go_Filepath\<close> are the functions of \<^verbatim>\<open>strings\<close>,
  \<^verbatim>\<open>encoding/hex\<close> and \<^verbatim>\<open>path/filepath\<close> that the program calls; their lemmas say that \<open>Clean\<close> is
  idempotent, and how \<open>Join\<close>, \<open>Rel\<close> and \<open>Dir\<close> undo one another.  \<open>File_Tree\<close> is a file system as a
  tree of files and directories, with \<^verbatim>\<open>filepath.WalkDir\<close>.

  \<^bold>\<open>Images.\<close>
    \<^item> \<open>Image\<close>: the record of an image and its reference strings (\<open>manifest/image/image.go\<close>), with
      \<^verbatim>\<open>Split\<close> of kustomize that takes a reference apart.
    \<^item> \<open>Alias\<close> (\<open>manifest/image/alias.go\<close>): short names.  The loops that make aliases longer are shown to
      compute the declarative specification, the shortest suffix that no other name has.
    \<^item> \<open>Image_List\<close> (\<open>manifest/image/list.go\<close>): the list with relations, deduplication, aliases
      and grouping by manifest; \<open>Dedup\<close> merges exactly the images that share a reference and a digest.
    \<^item> \<open>Oci_Client\<close>, \<open>Oci_Artefact\<close> (\<open>oci/oci.go\<close>, \<open>oci/artefact.go\<close>): asking a registry, and packages as
      OCI indexes.  The archive of a directory holds every regular file once and does not depend on
      times, owners or the order of entries.
    \<^item> \<open>Image_Resolver\<close> (\<open>manifest/imageresolver\<close>): digests, the manifests of indexes, and related
      tags.  A digest that a manifest gives is kept, and one that the registry contradicts is an error.
    \<^item> \<open>Image_Copier\<close> (\<open>manifest/imagecopier\<close>, \<open>manifest/packager\<close>): copying every image and what is
      related to it, and pushing the package.

  \<^bold>\<open>Manifests.\<close>
    \<^item> \<open>Manifest_Loader\<close> (\<open>manifest/loader\<close>): the manifests of a directory, in a temporary copy.
    \<^item> \<open>Yaml_Fields\<close>: the field filters of the vendored kustomize, as far as the program runs them.
      A document is a tree in which each scalar knows its line and column.
    \<^item> \<open>Image_Scanner\<close> (\<open>manifest/imagescanner\<close>): a scan finds the scalar of every image field once.
    \<^item> \<open>Image_Updater\<close> (\<open>manifest/updater\<close>): new references in the manifests, with a record of the
      digests before and after.

  \<^bold>\<open>Attestations.\<close>
    \<^item> \<open>Sha256\<close> (\<open>attest/digest\<close>), \<open>Attest_Types\<close> and \<open>Attest_Statements\<close> (\<open>attest/types\<close>): digests,
      subjects, statements and their order, the collection of path summaries, and the summary
      annotation, with the exact condition under which it is the same in every run.
    \<^item> \<open>Attest_Manifest\<close> (\<open>attest/manifest\<close>): the statements about images and directories.
    \<^item> \<open>Git_Vcs\<close> (\<open>attest/vcs/git\<close>): whether a path is tracked and unmodified, and the summary of the
      repository.  The checker's cache is transparent: it answers what a new checker answers.
    \<^item> \<open>Attest_Registry\<close> (\<open>attest/registry.go\<close>, \<open>attest/attest.go\<close>): the registry over the interfaces of
      a path checker and a summary, as a step relation \<open>registry_step\<close> with its reachable states; its
      invariant is that statements are about registered or mutated manifests only.  \<open>Attest_Git\<close>
      carries its properties over to the registry with the git checker.

  \<^bold>\<open>Interfaces.\<close>  The locales \<open>path_checker\<close> and \<open>path_check_summary\<close> are the two Go interfaces with the
  laws that the registry and the collection need; \<open>Git_Vcs\<close> interprets both on the git checker and
  its summaries.  The locale \<open>registry_client\<close> holds what the registry owes to its checkers, and \<open>Attest_Git\<close>
  interprets it on the git checker.  \<open>comparator\<close> and its extension are interpreted on the orders of
  sources, of files and of values, and \<open>map_interface\<close> on the association lists.

  \<^bold>\<open>Commands.\<close>
    \<^item> \<open>Tape_Command\<close>: the options all commands share and the level of the logger.
    \<^item> \<open>Tape_Package\<close> (\<open>tape/app/package.go\<close>): the composition of all parts above.  When it succeeds the
      manifests refer to the copied images by digest, the package in the registry holds the updated
      directory, and its statements are about known manifests only.
    \<^item> \<open>Untar\<close>, \<open>Tape_Pull\<close> (\<open>tape/app/pull.go\<close>, with \<^verbatim>\<open>Untar\<close> of fluxcd and \<^verbatim>\<open>SecureJoin\<close>, both
      vendored): a pull restores the packaged directory, and whatever a registry serves, it writes
      only below the output directory and to the attestations file.
    \<^item> \<open>Tape_View\<close> (\<open>tape/app/view.go\<close>): a view shows the statements, images and manifests that were
      packaged.
    \<^item> \<open>Tape_Images\<close> (\<open>tape/app/images.go\<close>): the report of every image is complete, and exactly when
      it can be printed.
    \<^item> \<open>Tape_App\<close> (\<open>tape/app/app.go\<close>, with the end of \<^verbatim>\<open>ParseArgs\<close> of the vendored go-flags): the
      program from its arguments to its exit status.  Packaging and then pulling restores the files.

  \<^bold>\<open>Bounds.\<close>  No definition has fuel.  Recursion is on lists and trees, or has a measure: the walk up to
  a repository gets shorter by a path component in each step, and the aliasing loop approaches the
  number of components of the names.  The one bound of the program's own kind is the buffer of the
  line scanner that \<open>view\<close> reads statements with: lines of 64 KiB or more make it fail, though they
  can be packaged (\<open>MaxScanTokenSize\<close> in \<open>Tape_View\<close>).

  \<^bold>\<open>Not modelled.\<close>  The text of formats (YAML, JSON, base64, tar, gzip, certificates) and hashing are
  parameters; JSON and YAML are trees.  YAML aliases are not part of the tree, and in the image tag
  filter the regular expression built from an image's name has no metacharacter but \<open>.\<close>.  Log lines,
  signals and contexts have no influence in the model.  The disk that \<open>pull\<close> extracts to has no
  symbolic links.  In \<open>Tape_App\<close> the options are read by a parameter.  Left out are constructors that
  only pass options to go-containerregistry (\<open>NewClient\<close>, \<open>NewDebugClient\<close>), the accessors \<open>Blob\<close> and
  \<open>Tree\<close> of the git checker, which nothing calls, the helpers of the integration tests (\<open>trex\<close>), and
  \<open>main.go\<close>, which only passes the result of \<open>Run\<close> to \<^verbatim>\<open>os.Exit\<close>.
\<close>

section \<open>The verification of tape\<close>

end
